(* ===== verification/Prelude.thy ===== *)
theory Prelude
  imports Main
begin

text \<open>
  What every component shares: the ways a C++ call can end, state-passing programs with
  exceptions, invariants of such programs, and small facts on lists that several components use.

  The collection \<open>prog_simps\<close> executes programs symbolically; \<open>preserve_intros\<close> is the set of
  rules that shows that a program keeps a property of its state.
\<close>

named_theorems prog_simps \<open>symbolic execution of state-passing programs\<close>
named_theorems preserve_intros \<open>rules that show that a program preserves a state predicate\<close>

section \<open>Outcomes of a C++ call\<close>

text \<open>
  The exception classes that the program tells apart: \<open>sql::SQLException\<close>, caught by every data
  access object; \<open>nlohmann::json::exception\<close>, caught first by every handler; and any other class
  derived from \<open>std::exception\<close> with its \<open>what()\<close>. \<open>Undefined\<close> is undefined behaviour (a null
  pointer dereferenced, a value that does not fit a signed integer): no handler catches it.
\<close>

datatype exn = SqlException | JsonException | StdException string

datatype 'a outcome = Ok 'a | Raised exn | Undefined

type_synonym ('s, 'a) prog = "'s \<Rightarrow> 'a outcome \<times> 's"

definition ret :: "'a \<Rightarrow> ('s, 'a) prog" where
  "ret x s = (Ok x, s)"

definition raise :: "exn \<Rightarrow> ('s, 'a) prog" where
  "raise e s = (Raised e, s)"

definition undef :: "('s, 'a) prog" where
  "undef s = (Undefined, s)"

definition gets :: "('s \<Rightarrow> 'a) \<Rightarrow> ('s, 'a) prog" where
  "gets f s = (Ok (f s), s)"

definition modify :: "('s \<Rightarrow> 's) \<Rightarrow> ('s, unit) prog" where
  "modify f s = (Ok (), f s)"

definition lift_outcome :: "'a outcome \<Rightarrow> ('s, 'a) prog" where
  "lift_outcome r s = (r, s)"

definition and_then :: "('s, 'a) prog \<Rightarrow> ('a \<Rightarrow> ('s, 'b) prog) \<Rightarrow> ('s, 'b) prog" where
  "and_then m f s =
     (case m s of
        (Ok x, s') \<Rightarrow> f x s'
      | (Raised e, s') \<Rightarrow> (Raised e, s')
      | (Undefined, s') \<Rightarrow> (Undefined, s'))"

definition catch_exn :: "('s, 'a) prog \<Rightarrow> (exn \<Rightarrow> ('s, 'a) prog) \<Rightarrow> ('s, 'a) prog" where
  "catch_exn m h s =
     (case m s of
        (Ok x, s') \<Rightarrow> (Ok x, s')
      | (Raised e, s') \<Rightarrow> h e s'
      | (Undefined, s') \<Rightarrow> (Undefined, s'))"

text \<open>\<open>catch (sql::SQLException& e)\<close>: every other exception leaves the function.\<close>

definition catch_sql :: "('s, 'a) prog \<Rightarrow> ('s, 'a) prog \<Rightarrow> ('s, 'a) prog" where
  "catch_sql m h = catch_exn m (\<lambda>e. if e = SqlException then h else raise e)"

text \<open>
  Running a program on a part of the state, as a member function of a sub-object does.
\<close>

definition zoom :: "('s \<Rightarrow> 't) \<Rightarrow> ('t \<Rightarrow> 's \<Rightarrow> 's) \<Rightarrow> ('t, 'a) prog \<Rightarrow> ('s, 'a) prog" where
  "zoom get put m s = (case m (get s) of (r, t) \<Rightarrow> (r, put t s))"

lemma and_then_ret [prog_simps]: "and_then (ret x) f = f x"
  by (rule ext) (simp add: and_then_def ret_def)

lemma and_then_raise [prog_simps]: "and_then (raise e) f = raise e"
  by (rule ext) (simp add: and_then_def raise_def)

lemma and_then_undef [prog_simps]: "and_then undef f = undef"
  by (rule ext) (simp add: and_then_def undef_def)

lemma and_then_gets [prog_simps]: "and_then (gets g) f s = f (g s) s"
  by (simp add: and_then_def gets_def)

lemma and_then_modify [prog_simps]: "and_then (modify g) f s = f () (g s)"
  by (simp add: and_then_def modify_def)

lemma and_then_assoc: "and_then (and_then m f) g = and_then m (\<lambda>x. and_then (f x) g)"
  by (rule ext) (simp add: and_then_def split: outcome.splits prod.splits)

lemma and_then_lift_Ok [prog_simps]: "and_then (lift_outcome (Ok x)) f = f x"
  by (rule ext) (simp add: and_then_def lift_outcome_def)

lemma and_then_lift_Raised [prog_simps]: "and_then (lift_outcome (Raised e)) f = raise e"
  by (rule ext) (simp add: and_then_def lift_outcome_def raise_def)

lemma and_then_if [prog_simps]:
  "and_then (if b then m else m') f = (if b then and_then m f else and_then m' f)"
  by simp

lemma and_then_eval: "m s = (Ok x, s') \<Longrightarrow> and_then m f s = f x s'"
  by (simp add: and_then_def)

lemma and_then_eval_raised: "m s = (Raised e, s') \<Longrightarrow> and_then m f s = (Raised e, s')"
  by (simp add: and_then_def)

lemma and_then_eval_undef: "m s = (Undefined, s') \<Longrightarrow> and_then m f s = (Undefined, s')"
  by (simp add: and_then_def)

lemma and_then_Ok_iff:
  "and_then m f s = (Ok y, s') \<longleftrightarrow> (\<exists>x t. m s = (Ok x, t) \<and> f x t = (Ok y, s'))"
  by (auto simp: and_then_def split: prod.splits outcome.splits)

lemma lift_outcome_Ok_iff: "lift_outcome r s = (Ok x, s') \<longleftrightarrow> r = Ok x \<and> s' = s"
  by (auto simp: lift_outcome_def)

lemma gets_Ok_iff: "gets f s = (Ok x, s') \<longleftrightarrow> x = f s \<and> s' = s"
  by (auto simp: gets_def)

lemma ret_Ok_iff: "ret x s = (Ok y, s') \<longleftrightarrow> y = x \<and> s' = s"
  by (auto simp: ret_def)

lemma zoom_Ok_iff:
  "zoom get put m s = (Ok x, s') \<longleftrightarrow> (\<exists>t. m (get s) = (Ok x, t) \<and> s' = put t s)"
  by (auto simp: zoom_def split: prod.splits)

lemmas Ok_iffs = and_then_Ok_iff lift_outcome_Ok_iff gets_Ok_iff ret_Ok_iff

lemma catch_exn_ret [prog_simps]: "catch_exn (ret x) h = ret x"
  by (rule ext) (simp add: catch_exn_def ret_def)

lemma catch_exn_raise [prog_simps]: "catch_exn (raise e) h = h e"
  by (rule ext) (simp add: catch_exn_def raise_def)

lemma catch_sql_Ok: "m s = (Ok x, s') \<Longrightarrow> catch_sql m h s = (Ok x, s')"
  by (simp add: catch_sql_def catch_exn_def)

lemma catch_sql_Raised: "m s = (Raised SqlException, s') \<Longrightarrow> catch_sql m h s = h s'"
  by (simp add: catch_sql_def catch_exn_def)

section \<open>Properties of the state that a program keeps\<close>

definition preserves :: "('s \<Rightarrow> bool) \<Rightarrow> ('s, 'a) prog \<Rightarrow> bool" where
  "preserves P m \<longleftrightarrow> (\<forall>s. P s \<longrightarrow> P (snd (m s)))"

lemma preservesI: "(\<And>s. P s \<Longrightarrow> P (snd (m s))) \<Longrightarrow> preserves P m"
  by (simp add: preserves_def)

lemma preservesD: "preserves P m \<Longrightarrow> P s \<Longrightarrow> P (snd (m s))"
  by (simp add: preserves_def)

lemma preservesD_eq: "preserves P m \<Longrightarrow> P s \<Longrightarrow> m s = (r, s') \<Longrightarrow> P s'"
  by (drule (1) preservesD) simp

lemma preserves_ret [preserve_intros]: "preserves P (ret x)"
  by (simp add: preserves_def ret_def)

lemma preserves_raise [preserve_intros]: "preserves P (raise e)"
  by (simp add: preserves_def raise_def)

lemma preserves_undef [preserve_intros]: "preserves P undef"
  by (simp add: preserves_def undef_def)

lemma preserves_gets [preserve_intros]: "preserves P (gets f)"
  by (simp add: preserves_def gets_def)

lemma preserves_lift_outcome [preserve_intros]: "preserves P (lift_outcome r)"
  by (simp add: preserves_def lift_outcome_def)

lemma preserves_and_then [preserve_intros]:
  assumes "preserves P m" and "\<And>x. preserves P (f x)"
  shows "preserves P (and_then m f)"
proof (rule preservesI)
  fix s assume s: "P s"
  obtain r s' where m: "m s = (r, s')" by fastforce
  have "P s'" using preservesD_eq [OF assms(1) s m] .
  then show "P (snd (and_then m f s))"
    using m assms(2) by (cases r) (auto simp: and_then_def dest: preservesD)
qed

lemma preserves_catch_exn [preserve_intros]:
  assumes "preserves P m" and "\<And>e. preserves P (h e)"
  shows "preserves P (catch_exn m h)"
proof (rule preservesI)
  fix s assume s: "P s"
  obtain r s' where m: "m s = (r, s')" by fastforce
  have "P s'" using preservesD_eq [OF assms(1) s m] .
  then show "P (snd (catch_exn m h s))"
    using m assms(2) by (cases r) (auto simp: catch_exn_def dest: preservesD)
qed

lemma preserves_catch_sql [preserve_intros]:
  "preserves P m \<Longrightarrow> preserves P h \<Longrightarrow> preserves P (catch_sql m h)"
  by (auto simp: catch_sql_def intro!: preserve_intros)

lemma preserves_if [preserve_intros]:
  "(b \<Longrightarrow> preserves P m) \<Longrightarrow> (\<not> b \<Longrightarrow> preserves P m') \<Longrightarrow> preserves P (if b then m else m')"
  by simp

lemma preserves_case_option [preserve_intros]:
  "preserves P m \<Longrightarrow> (\<And>x. preserves P (f x)) \<Longrightarrow>
   preserves P (case v of None \<Rightarrow> m | Some x \<Rightarrow> f x)"
  by (cases v) auto

lemma preserves_case_prod [preserve_intros]:
  "(\<And>x y. preserves P (f x y)) \<Longrightarrow> preserves P (case v of (x, y) \<Rightarrow> f x y)"
  by (cases v) auto

lemma preserves_Let [preserve_intros]: "(\<And>x. preserves P (f x)) \<Longrightarrow> preserves P (Let v f)"
  by simp

lemma preserves_zoom:
  assumes "preserves Q m" and "\<And>s. P s \<Longrightarrow> Q (get s)" and "\<And>s t. P s \<Longrightarrow> Q t \<Longrightarrow> P (put t s)"
  shows "preserves P (zoom get put m)"
  using assms by (auto simp: preserves_def zoom_def split: prod.splits) (metis snd_conv)

section \<open>Programs that end\<close>

text \<open>
  \<open>safe_on P m\<close>: from a state with \<open>P\<close> the program has no undefined behaviour and ends in a state
  with \<open>P\<close>.
\<close>

named_theorems total_intros \<open>rules that show that a program has no undefined behaviour\<close>

definition safe_on :: "('s \<Rightarrow> bool) \<Rightarrow> ('s, 'a) prog \<Rightarrow> bool" where
  "safe_on P m \<longleftrightarrow> (\<forall>s. P s \<longrightarrow> fst (m s) \<noteq> Undefined \<and> P (snd (m s)))"

lemma safe_onI: "(\<And>s. P s \<Longrightarrow> fst (m s) \<noteq> Undefined \<and> P (snd (m s))) \<Longrightarrow> safe_on P m"
  by (simp add: safe_on_def)

lemma safe_onD: "safe_on P m \<Longrightarrow> P s \<Longrightarrow> m s = (r, s') \<Longrightarrow> r \<noteq> Undefined \<and> P s'"
  by (drule spec [of _ s, OF iffD1 [OF safe_on_def]]) simp

lemma safe_on_ret [total_intros]: "safe_on P (ret x)"
  by (simp add: safe_on_def ret_def)

lemma safe_on_raise [total_intros]: "safe_on P (raise e)"
  by (simp add: safe_on_def raise_def)

lemma safe_on_gets [total_intros]: "safe_on P (gets f)"
  by (simp add: safe_on_def gets_def)

lemma safe_on_lift_outcome [total_intros]: "r \<noteq> Undefined \<Longrightarrow> safe_on P (lift_outcome r)"
  by (simp add: safe_on_def lift_outcome_def)

lemma safe_on_and_then [total_intros]:
  assumes "safe_on P m" and "\<And>x. safe_on P (f x)"
  shows "safe_on P (and_then m f)"
proof (rule safe_onI)
  fix s assume s: "P s"
  obtain r s' where m: "m s = (r, s')" by fastforce
  with safe_onD [OF assms(1) s m] assms(2) show "fst (and_then m f s) \<noteq> Undefined \<and> P (snd (and_then m f s))"
    by (cases r) (auto simp: and_then_def safe_on_def)
qed

lemma safe_on_catch_exn [total_intros]:
  assumes "safe_on P m" and "\<And>e. safe_on P (h e)"
  shows "safe_on P (catch_exn m h)"
proof (rule safe_onI)
  fix s assume s: "P s"
  obtain r s' where m: "m s = (r, s')" by fastforce
  with safe_onD [OF assms(1) s m] assms(2) show "fst (catch_exn m h s) \<noteq> Undefined \<and> P (snd (catch_exn m h s))"
    by (cases r) (auto simp: catch_exn_def safe_on_def)
qed

lemma safe_on_if [total_intros]:
  "(b \<Longrightarrow> safe_on P m) \<Longrightarrow> (\<not> b \<Longrightarrow> safe_on P m') \<Longrightarrow> safe_on P (if b then m else m')"
  by simp

lemma safe_on_case_option [total_intros]:
  "safe_on P m \<Longrightarrow> (\<And>x. safe_on P (f x)) \<Longrightarrow> safe_on P (case v of None \<Rightarrow> m | Some x \<Rightarrow> f x)"
  by (cases v) auto

lemma safe_on_case_prod [total_intros]:
  "(\<And>x y. safe_on P (f x y)) \<Longrightarrow> safe_on P (case v of (x, y) \<Rightarrow> f x y)"
  by (cases v) auto

lemma safe_on_case_exn [total_intros]:
  "safe_on P a \<Longrightarrow> safe_on P b \<Longrightarrow> (\<And>t. safe_on P (c t)) \<Longrightarrow>
   safe_on P (case e of SqlException \<Rightarrow> a | JsonException \<Rightarrow> b | StdException t \<Rightarrow> c t)"
  by (cases e) auto

lemma preserves_case_exn [preserve_intros]:
  "preserves P a \<Longrightarrow> preserves P b \<Longrightarrow> (\<And>t. preserves P (c t)) \<Longrightarrow>
   preserves P (case e of SqlException \<Rightarrow> a | JsonException \<Rightarrow> b | StdException t \<Rightarrow> c t)"
  by (cases e) auto

lemma preserves_modify: "(\<And>s. P s \<Longrightarrow> P (f s)) \<Longrightarrow> preserves P (modify f)"
  by (simp add: preserves_def modify_def)

lemma safe_on_modify: "(\<And>s. P s \<Longrightarrow> P (f s)) \<Longrightarrow> safe_on P (modify f)"
  by (simp add: safe_on_def modify_def)

lemma safe_on_zoom:
  assumes "safe_on Q m" and "\<And>s. P s \<Longrightarrow> Q (get s)" and "\<And>s t. P s \<Longrightarrow> Q t \<Longrightarrow> P (put t s)"
  shows "safe_on P (zoom get put m)"
  using assms by (auto simp: safe_on_def zoom_def split: prod.splits) (metis fst_conv snd_conv)+

section \<open>Lists\<close>

lemma distinct_map_filter_update:
  "distinct (map f xs) \<Longrightarrow> (\<And>x. x \<in> set xs \<Longrightarrow> f (g x) = f x) \<Longrightarrow> distinct (map f (map g xs))"
  by (simp add: distinct_map inj_on_def)

lemma distinct_map_unique:
  "distinct (map f xs) \<Longrightarrow> x \<in> set xs \<Longrightarrow> y \<in> set xs \<Longrightarrow> f x = f y \<Longrightarrow> x = y"
  by (auto simp: distinct_map inj_on_def)

lemma distinct_map_filter: "distinct (map f xs) \<Longrightarrow> distinct (map f (filter P xs))"
  by (simp add: distinct_map inj_on_def)

lemma filter_eq_singleton:
  "distinct (map f xs) \<Longrightarrow> x \<in> set xs \<Longrightarrow> filter (\<lambda>y. f y = f x) xs = [x]"
proof (induction xs)
  case Nil
  then show ?case by simp
next
  case (Cons a xs)
  show ?case
  proof (cases "a = x")
    case True
    with Cons.prems have "filter (\<lambda>y. f y = f x) xs = []"
      by (auto simp: filter_empty_conv image_iff)
    with True show ?thesis by simp
  next
    case False
    with Cons show ?thesis by (auto simp: image_iff)
  qed
qed

end
