(* ===== verification/CStrings.thy ===== *)
theory CStrings
  imports Prelude
begin

text \<open>
  The pieces of the C and C++ standard library that turn numbers into text and back:
  \<open>std::to_string(int)\<close>, \<open>atoi\<close>, and the hexadecimal output of an \<open>std::ostream\<close> with
  \<open>std::setw\<close> and \<open>std::setfill\<close>. The handlers write a user id into a token with \<open>to_string\<close>
  and read it back with \<open>atoi\<close>; the password code prints digests in hexadecimal.
\<close>

section \<open>Positional notation\<close>

text \<open>The digits of a number, most significant first; the base is at least 2 in every use.\<close>

fun digits_in :: "nat \<Rightarrow> nat \<Rightarrow> nat list" where
  "digits_in b n = (if n < b \<or> b < 2 then [n] else digits_in b (n div b) @ [n mod b])"

declare digits_in.simps [simp del]

definition digits_val :: "nat \<Rightarrow> nat list \<Rightarrow> nat" where
  "digits_val b ds = foldl (\<lambda>a d. a * b + d) 0 ds"

lemma digits_val_snoc [simp]: "digits_val b (ds @ [d]) = digits_val b ds * b + d"
  by (simp add: digits_val_def)

lemma digits_val_Nil [simp]: "digits_val b [] = 0"
  by (simp add: digits_val_def)

lemma digits_val_single [simp]: "digits_val b [d] = d"
  by (simp add: digits_val_def)

lemma digits_in_nonempty [simp]: "digits_in b n \<noteq> []"
  by (subst digits_in.simps) simp

lemma digits_val_digits_in: "digits_val b (digits_in b n) = n"
proof (induction b n rule: digits_in.induct)
  case (1 b n)
  then show ?case
    by (subst digits_in.simps) (auto simp: div_mult_mod_eq)
qed

lemma digits_in_bound: "2 \<le> b \<Longrightarrow> d \<in> set (digits_in b n) \<Longrightarrow> d < b"
proof (induction b n rule: digits_in.induct)
  case (1 b n)
  show ?case
  proof (cases "n < b")
    case True
    with 1 show ?thesis by (simp add: digits_in.simps [of b n])
  next
    case False
    with 1 show ?thesis by (auto simp: digits_in.simps [of b n])
  qed
qed

section \<open>Characters\<close>

definition is_digit :: "char \<Rightarrow> bool" where
  "is_digit c \<longleftrightarrow> 48 \<le> (of_char c :: nat) \<and> (of_char c :: nat) \<le> 57"

text \<open>\<open>isspace\<close> in the "C" locale: space, and the five control characters 9 to 13.\<close>

definition is_space :: "char \<Rightarrow> bool" where
  "is_space c \<longleftrightarrow> (of_char c :: nat) = 32 \<or> 9 \<le> (of_char c :: nat) \<and> (of_char c :: nat) \<le> 13"

definition digit_char :: "nat \<Rightarrow> char" where
  "digit_char d = (if d < 10 then char_of (48 + d) else char_of (87 + d))"

definition char_digit :: "char \<Rightarrow> nat" where
  "char_digit c = of_char c - 48"

lemma digit_char_zero: "digit_char 0 = CHR ''0''"
  by code_simp

lemma of_char_digit_char: "d < 10 \<Longrightarrow> of_char (digit_char d) = 48 + d"
  by (simp add: digit_char_def)

lemma is_digit_digit_char [simp]: "d < 10 \<Longrightarrow> is_digit (digit_char d)"
  by (simp add: is_digit_def of_char_digit_char)

lemma char_digit_digit_char [simp]: "d < 10 \<Longrightarrow> char_digit (digit_char d) = d"
  by (simp add: char_digit_def of_char_digit_char)

lemma of_char_digit_char_hex: "10 \<le> d \<Longrightarrow> d < 16 \<Longrightarrow> of_char (digit_char d) = 87 + d"
  by (simp add: digit_char_def)

lemma of_char_digit_char_nat:
  "d < 16 \<Longrightarrow> (of_char (digit_char d) :: nat) = (if d < 10 then 48 + d else 87 + d)"
  by (simp add: of_char_digit_char of_char_digit_char_hex)

lemma digit_char_inj:
  assumes "d < 16" "e < 16" "digit_char d = digit_char e"
  shows "d = e"
proof -
  have "(of_char (digit_char d) :: nat) = of_char (digit_char e)" by (simp only: assms(3))
  then have "(if d < 10 then 48 + d else 87 + d) = (if e < 10 then 48 + e else 87 + e)"
    by (simp only: of_char_digit_char_nat assms(1,2))
  then show ?thesis by (cases "d < 10"; cases "e < 10") simp_all
qed

section \<open>\<open>std::to_string\<close> and \<open>atoi\<close>\<close>

definition nat_text :: "nat \<Rightarrow> string" where
  "nat_text n = map digit_char (digits_in 10 n)"

definition to_string :: "int \<Rightarrow> string" where
  "to_string i = (if i < 0 then CHR ''-'' # nat_text (nat (- i)) else nat_text (nat i))"

text \<open>The values of a 32-bit \<open>int\<close>.\<close>

definition int32 :: "int \<Rightarrow> bool" where
  "int32 i \<longleftrightarrow> - (2 ^ 31) \<le> i \<and> i < 2 ^ 31"

text \<open>
  \<open>atoi\<close>: white space, an optional sign, then decimal digits up to the first other character; no
  digits give 0. A value that an \<open>int\<close> cannot hold is undefined behaviour (\<open>None\<close>).
\<close>

definition atoi_digits :: "string \<Rightarrow> nat" where
  "atoi_digits s = digits_val 10 (map char_digit (takeWhile is_digit s))"

definition atoi_value :: "string \<Rightarrow> int" where
  "atoi_value s =
     (case dropWhile is_space s of
        [] \<Rightarrow> 0
      | c # cs \<Rightarrow>
          if c = CHR ''-'' then - int (atoi_digits cs)
          else if c = CHR ''+'' then int (atoi_digits cs)
          else int (atoi_digits (c # cs)))"

definition atoi :: "string \<Rightarrow> int option" where
  "atoi s = (if int32 (atoi_value s) then Some (atoi_value s) else None)"

lemma atoi_digits_nat_text: "atoi_digits (nat_text n) = n"
proof -
  have d: "\<And>d. d \<in> set (digits_in 10 n) \<Longrightarrow> d < 10"
    using digits_in_bound [of 10] by simp
  then have "takeWhile is_digit (nat_text n) = nat_text n"
    by (auto simp: nat_text_def takeWhile_eq_all_conv)
  moreover have "map char_digit (nat_text n) = digits_in 10 n"
    using d by (auto simp: nat_text_def o_def intro: map_idI)
  ultimately show ?thesis
    by (simp only: atoi_digits_def digits_val_digits_in)
qed

lemma nat_text_hd:
  "\<exists>c cs. nat_text n = c # cs \<and> is_digit c"
proof -
  obtain d ds where ds: "digits_in 10 n = d # ds"
    using digits_in_nonempty [of 10 n] by (cases "digits_in 10 n") auto
  then have "d < 10" using digits_in_bound [of 10 d n] by simp
  with ds show ?thesis by (simp add: nat_text_def)
qed

lemma digit_not_space: "is_digit c \<Longrightarrow> \<not> is_space c"
  by (auto simp: is_digit_def is_space_def)

lemma digit_not_sign: "is_digit c \<Longrightarrow> c \<noteq> CHR ''-'' \<and> c \<noteq> CHR ''+''"
  by (auto simp: is_digit_def)

lemma atoi_value_to_string: "atoi_value (to_string i) = i"
proof (cases "i < 0")
  case True
  then show ?thesis
    by (simp add: atoi_value_def to_string_def is_space_def atoi_digits_nat_text)
next
  case False
  obtain c cs where c: "nat_text (nat i) = c # cs" "is_digit c"
    using nat_text_hd by blast
  with False show ?thesis
    using digit_not_space [OF c(2)] digit_not_sign [OF c(2)] atoi_digits_nat_text [of "nat i"]
    by (simp add: atoi_value_def to_string_def)
qed

text \<open>
  The identifier of a user survives its journey through a token: \<open>atoi\<close> reads back the number that
  \<open>std::to_string\<close> wrote, for every value of an \<open>int\<close>; for a number outside that range it is undefined
  behaviour.
\<close>

lemma atoi_to_string_roundtrip: "atoi (to_string i) = (if int32 i then Some i else None)"
  by (simp add: atoi_def atoi_value_to_string)

end
