(* ===== verification/Passwords.thy ===== *)
theory Passwords
  imports CStrings "HOL-Library.Word"
begin

text \<open>
  \<open>src/utils/PasswordUtil.cpp\<close>: passwords are stored as the lower-case hexadecimal text of a
  SHA-256 digest. The digest comes from OpenSSL's EVP functions, which are a parameter \<open>evp\<close> here:
  \<open>Some\<close> the bytes that \<open>EVP_DigestFinal_ex\<close> writes, \<open>None\<close> when the EVP calls report a failure.
  The code ignores their return values, so the zero-initialised array is used after a failure.
  A call may fail and a later one for the same password succeed: each call has its own \<open>evp\<close>, as in
  \<open>verifyPassword_exact\<close>. The handlers use one function, \<open>ev_evp\<close>, so what is shown of flows over
  several requests is about passwords whose digests fail always or never.
\<close>

type_synonym digest_fun = "string \<Rightarrow> 8 word list option"

definition SHA256_DIGEST_LENGTH :: nat where
  "SHA256_DIGEST_LENGTH = 32"

text \<open>
  What the code relies on: the buffer it passes is an array of \<open>SHA256_DIGEST_LENGTH\<close> bytes, and a
  SHA-256 digest fills it exactly.
\<close>

definition digest_contract :: "digest_fun \<Rightarrow> bool" where
  "digest_contract evp \<longleftrightarrow> (\<forall>p d. evp p = Some d \<longrightarrow> length d = SHA256_DIGEST_LENGTH)"

text \<open>\<open>oss << std::hex << std::setw(2) << std::setfill('0') << int\<close>\<close>

definition pad_left :: "nat \<Rightarrow> char \<Rightarrow> string \<Rightarrow> string" where
  "pad_left w c s = replicate (w - length s) c @ s"

definition hex_byte :: "8 word \<Rightarrow> string" where
  "hex_byte i = pad_left 2 CHR ''0'' (map digit_char (digits_in 16 (unat i)))"

definition to_hex_string :: "8 word list \<Rightarrow> string" where
  "to_hex_string data = concat (map hex_byte data)"

definition digest_array :: "digest_fun \<Rightarrow> string \<Rightarrow> 8 word list" where
  "digest_array evp password =
     (case evp password of None \<Rightarrow> replicate SHA256_DIGEST_LENGTH 0 | Some d \<Rightarrow> d)"

definition hashPassword :: "digest_fun \<Rightarrow> string \<Rightarrow> string" where
  "hashPassword evp password = to_hex_string (digest_array evp password)"

definition verifyPassword :: "digest_fun \<Rightarrow> string \<Rightarrow> string \<Rightarrow> bool" where
  "verifyPassword evp password hashed_password \<longleftrightarrow> hashPassword evp password = hashed_password"

section \<open>The hexadecimal text determines the bytes\<close>

lemma digits_in_two:
  "n < b * b \<Longrightarrow> 2 \<le> b \<Longrightarrow> digits_in b n = (if n < b then [n] else [n div b, n mod b])"
  by (subst digits_in.simps) (auto simp: digits_in.simps [of b "n div b"] less_mult_imp_div_less)

lemma unat_byte: "unat (i :: 8 word) < 256"
  using unsigned_less [of i] by simp

lemma hex_byte_eq: "hex_byte i = [digit_char (unat i div 16), digit_char (unat i mod 16)]"
proof -
  have "digits_in 16 (unat i) = (if unat i < 16 then [unat i] else [unat i div 16, unat i mod 16])"
    using unat_byte [of i] by (intro digits_in_two) simp_all
  moreover have "digit_char 0 = CHR ''0''" by (rule digit_char_zero)
  ultimately show ?thesis
    by (auto simp: hex_byte_def pad_left_def)
qed

lemma hex_byte_inj: "hex_byte i = hex_byte j \<Longrightarrow> i = j"
proof -
  assume "hex_byte i = hex_byte j"
  then have "digit_char (unat i div 16) = digit_char (unat j div 16)"
    and "digit_char (unat i mod 16) = digit_char (unat j mod 16)"
    by (simp_all add: hex_byte_eq)
  moreover have "unat i div 16 < 16" "unat j div 16 < 16"
    using unat_byte [of i] unat_byte [of j] by linarith+
  moreover have "unat i mod 16 < 16" "unat j mod 16 < 16" by simp_all
  ultimately have "unat i div 16 = unat j div 16" "unat i mod 16 = unat j mod 16"
    by (blast intro: digit_char_inj)+
  then have "unat i = unat j" by (metis div_mult_mod_eq)
  then show "i = j" by (simp only: word_unat_eq_iff)
qed

lemma length_hex_byte [simp]: "length (hex_byte i) = 2"
  by (simp add: hex_byte_eq)

lemma length_to_hex_string: "length (to_hex_string data) = 2 * length data"
  by (induction data) (simp_all add: to_hex_string_def)

lemma to_hex_string_inj: "to_hex_string xs = to_hex_string ys \<Longrightarrow> xs = ys"
proof (induction xs arbitrary: ys)
  case Nil
  then show ?case by (cases ys) (simp_all add: to_hex_string_def hex_byte_eq)
next
  case (Cons x xs)
  then obtain y ys' where ys: "ys = y # ys'"
    by (cases ys) (simp_all add: to_hex_string_def hex_byte_eq)
  with Cons.prems have "hex_byte x = hex_byte y" and "to_hex_string xs = to_hex_string ys'"
    by (simp_all add: to_hex_string_def)
  with Cons.IH ys show ?case by (simp add: hex_byte_inj)
qed

lemma hashPassword_eq: "hashPassword evp p = hashPassword evp' q \<longleftrightarrow> digest_array evp p = digest_array evp' q"
  by (auto simp: hashPassword_def dest: to_hex_string_inj)

lemma verifyPassword_iff:
  "verifyPassword evp p (hashPassword evp q) \<longleftrightarrow> digest_array evp p = digest_array evp q"
  by (simp add: verifyPassword_def hashPassword_eq)

lemma length_hashPassword: "digest_contract evp \<Longrightarrow> length (hashPassword evp p) = 64"
  by (cases "evp p")
    (auto simp: hashPassword_def length_to_hex_string digest_array_def digest_contract_def
      SHA256_DIGEST_LENGTH_def)

text \<open>A digest that writes the first 32 characters of the text, for concrete inputs.\<close>

definition demo_evp :: digest_fun where
  "demo_evp p = Some (map (\<lambda>i. if i < length p then of_nat (of_char (p ! i)) else 0) [0 ..< 32])"

lemma demo_evp_contract: "digest_contract demo_evp"
  by (simp add: digest_contract_def demo_evp_def SHA256_DIGEST_LENGTH_def)

lemma length_demo_hash [simp]: "length (hashPassword demo_evp p) = 64"
  by (rule length_hashPassword) (rule demo_evp_contract)

text \<open>
  C38: a password is accepted against a stored hash exactly when both have the same digest, where a
  digest that OpenSSL failed to compute counts as 32 zero bytes, and the calls for the one may fail
  where those for the other worked (\<open>evp\<close> at the check, \<open>evp'\<close> when the hash was stored): two passwords
  whose digests both failed are the same password for the program. The text stored is twice as long as
  the digest, 64 characters when OpenSSL writes a whole digest, and determines it.
\<close>

theorem verifyPassword_exact:
  "(verifyPassword evp p (hashPassword evp' q) \<longleftrightarrow>
     (case (evp p, evp' q) of
        (Some a, Some b) \<Rightarrow> a = b
      | (Some a, None) \<Rightarrow> a = replicate SHA256_DIGEST_LENGTH 0
      | (None, Some b) \<Rightarrow> b = replicate SHA256_DIGEST_LENGTH 0
      | (None, None) \<Rightarrow> True)) \<and>
   length (hashPassword evp' q) = 2 * length (digest_array evp' q) \<and>
   (digest_contract evp' \<longrightarrow> length (hashPassword evp' q) = 64) \<and>
   (hashPassword evp p = hashPassword evp' q \<longleftrightarrow> digest_array evp p = digest_array evp' q)"
proof (intro conjI)
  show same: "hashPassword evp p = hashPassword evp' q \<longleftrightarrow> digest_array evp p = digest_array evp' q"
    by (rule hashPassword_eq)
  then show "verifyPassword evp p (hashPassword evp' q) \<longleftrightarrow>
     (case (evp p, evp' q) of
        (Some a, Some b) \<Rightarrow> a = b
      | (Some a, None) \<Rightarrow> a = replicate SHA256_DIGEST_LENGTH 0
      | (None, Some b) \<Rightarrow> b = replicate SHA256_DIGEST_LENGTH 0
      | (None, None) \<Rightarrow> True)"
    by (auto simp: verifyPassword_def digest_array_def split: option.splits)
  show "length (hashPassword evp' q) = 2 * length (digest_array evp' q)"
    by (simp add: hashPassword_def length_to_hex_string)
qed (simp add: length_hashPassword)

theorem verifyPassword_exact_witness:
  "length (hashPassword demo_evp ''secret'') = 64 \<and>
   verifyPassword (\<lambda>_. None) ''other'' (hashPassword (\<lambda>_. None) ''secret'')"
  using verifyPassword_exact [of "\<lambda>_. None" "''other''" "\<lambda>_. None" "''secret''"]
    verifyPassword_exact [of demo_evp "''other''" demo_evp "''secret''"] demo_evp_contract
  by simp

end
