(* ===== verification/Http.thy ===== *)
theory Http
  imports CStrings
begin

text \<open>
  The values that travel through the server: JSON documents (\<open>nlohmann::json\<close>), HTTP requests and
  responses (\<open>boost::beast\<close>), and \<open>src/utils/JsonUtil.cpp\<close>, which builds every response.

  The text syntax of JSON belongs to the library: its parser and its printer are the fields of
  \<open>json_lib\<close>, with \<open>None\<close> for the \<open>json::exception\<close> that they throw (a document that is not JSON, a
  string that is not UTF-8). A request is what the code reads of it.
\<close>

section \<open>JSON values\<close>

text \<open>
  Numbers that are not integers keep their 64 bits; the program never reads them.
\<close>

datatype json =
    JNull
  | JBool bool
  | JInt int
  | JFloat int
  | JString string
  | JArr "json list"
  | JObj "(string \<times> json) list"

record json_lib =
  jl_parse :: "string \<Rightarrow> json option"
  jl_dump :: "json \<Rightarrow> string option"

text \<open>\<open>j.contains(key)\<close>: false for a value that is not an object.\<close>

fun contains :: "json \<Rightarrow> string \<Rightarrow> bool" where
  "contains (JObj kvs) k = (map_of kvs k \<noteq> None)"
| "contains _ k = False"

text \<open>\<open>std::string x = j[key]\<close>: a \<open>type_error\<close> unless the member is a string.\<close>

fun as_string :: "json \<Rightarrow> string outcome" where
  "as_string (JString s) = Ok s"
| "as_string _ = Raised JsonException"

definition get_string :: "json \<Rightarrow> string \<Rightarrow> string outcome" where
  "get_string j k =
     (case j of
        JObj kvs \<Rightarrow> (case map_of kvs k of Some v \<Rightarrow> as_string v | None \<Rightarrow> Raised JsonException)
      | _ \<Rightarrow> Raised JsonException)"

definition parse_json :: "json_lib \<Rightarrow> string \<Rightarrow> json outcome" where
  "parse_json lib body = (case jl_parse lib body of Some j \<Rightarrow> Ok j | None \<Rightarrow> Raised JsonException)"

definition dump_json :: "json_lib \<Rightarrow> json \<Rightarrow> string outcome" where
  "dump_json lib j = (case jl_dump lib j of Some s \<Rightarrow> Ok s | None \<Rightarrow> Raised JsonException)"

text \<open>
  The printer only fails on text that is not UTF-8; what the code relies on is that documents whose
  keys and strings are ASCII can be printed.
\<close>

fun json_strings :: "json \<Rightarrow> string list" where
  "json_strings (JString s) = [s]"
| "json_strings (JArr js) = concat (map json_strings js)"
| "json_strings (JObj kvs) = concat (map (\<lambda>kv. fst kv # json_strings (snd kv)) kvs)"
| "json_strings _ = []"

definition ascii :: "string \<Rightarrow> bool" where
  "ascii s \<longleftrightarrow> (\<forall>c \<in> set s. (of_char c :: nat) < 128)"

definition dumps_ascii :: "json_lib \<Rightarrow> bool" where
  "dumps_ascii lib \<longleftrightarrow>
     (\<forall>j. (\<forall>s \<in> set (json_strings j). ascii s) \<longrightarrow> (\<exists>t. jl_dump lib j = Some t))"

section \<open>Requests and responses\<close>

datatype verb = Get | Post | OtherVerb string

text \<open>
  \<open>rq_field\<close> is the header access \<open>req[name]\<close> (empty for a missing field); \<open>rq_need_eof\<close> is the
  answer of \<open>message::need_eof()\<close>.
\<close>

record http_request =
  rq_method :: verb
  rq_target :: string
  rq_version :: nat
  rq_field :: "string \<Rightarrow> string"
  rq_body :: string
  rq_need_eof :: bool

text \<open>\<open>rs_length\<close> is the content length that \<open>prepare_payload()\<close> announces.\<close>

record http_response =
  rs_status :: nat
  rs_version :: nat
  rs_fields :: "string \<Rightarrow> string option"
  rs_body :: string
  rs_length :: "nat option"

abbreviation status_ok :: nat where "status_ok \<equiv> 200"
abbreviation status_bad_request :: nat where "status_bad_request \<equiv> 400"
abbreviation status_unauthorized :: nat where "status_unauthorized \<equiv> 401"
abbreviation status_not_found :: nat where "status_not_found \<equiv> 404"
abbreviation status_conflict :: nat where "status_conflict \<equiv> 409"
abbreviation status_internal_server_error :: nat where "status_internal_server_error \<equiv> 500"

text \<open>\<open>res.set(name, value)\<close> and \<open>res.prepare_payload()\<close>\<close>

definition set_field :: "string \<Rightarrow> string \<Rightarrow> http_response \<Rightarrow> http_response" where
  "set_field name v res = res\<lparr>rs_fields := (rs_fields res)(name \<mapsto> v)\<rparr>"

definition prepare_payload :: "http_response \<Rightarrow> http_response" where
  "prepare_payload res = res\<lparr>rs_length := Some (length (rs_body res))\<rparr>"

definition new_response :: "nat \<Rightarrow> nat \<Rightarrow> http_response" where
  "new_response status version =
     \<lparr>rs_status = status, rs_version = version, rs_fields = Map.empty, rs_body = [],
      rs_length = None\<rparr>"

section \<open>\<open>JsonUtil\<close>\<close>

definition json_headers :: "http_response \<Rightarrow> http_response" where
  "json_headers res =
     set_field ''Server'' ''MusicPlayer-BackEnd''
       (set_field ''Content-Type'' ''application/json'' res)"

definition buildErrorResponse :: "json_lib \<Rightarrow> nat \<Rightarrow> nat \<Rightarrow> string \<Rightarrow> http_response outcome" where
  "buildErrorResponse lib status version message =
     (case dump_json lib (JObj [(''error'', JString message)]) of
        Ok body \<Rightarrow>
          Ok (prepare_payload ((json_headers (new_response status version))\<lparr>rs_body := body\<rparr>))
      | Raised e \<Rightarrow> Raised e
      | Undefined \<Rightarrow> Undefined)"

definition buildSuccessResponse :: "nat \<Rightarrow> string \<Rightarrow> http_response" where
  "buildSuccessResponse version json_msg =
     prepare_payload ((json_headers (new_response status_ok version))\<lparr>rs_body := json_msg\<rparr>)"

lemma buildErrorResponse_cases:
  obtains (built) res where "buildErrorResponse lib st v msg = Ok res" "rs_status res = st"
    "rs_version res = v"
  | (threw) "buildErrorResponse lib st v msg = Raised JsonException"
  by (cases "jl_dump lib (JObj [(''error'', JString msg)])")
    (auto simp: buildErrorResponse_def dump_json_def prepare_payload_def json_headers_def
      set_field_def new_response_def)

lemma buildErrorResponse_status:
  "buildErrorResponse lib st v msg = Ok res \<Longrightarrow>
   rs_status res = st \<and> rs_version res = v \<and> rs_length res = Some (length (rs_body res))"
  by (auto simp: buildErrorResponse_def prepare_payload_def json_headers_def set_field_def
      new_response_def split: outcome.splits)

lemma buildSuccessResponse_status [simp]: "rs_status (buildSuccessResponse v b) = 200"
  by (simp add: buildSuccessResponse_def prepare_payload_def json_headers_def set_field_def
      new_response_def)

lemma buildSuccessResponse_body [simp]: "rs_body (buildSuccessResponse v b) = b"
  by (simp add: buildSuccessResponse_def prepare_payload_def json_headers_def set_field_def
      new_response_def)

lemma buildSuccessResponse_version [simp]: "rs_version (buildSuccessResponse v b) = v"
  by (simp add: buildSuccessResponse_def prepare_payload_def json_headers_def set_field_def
      new_response_def)

lemma set_field_simps [simp]:
  "rs_status (set_field n v res) = rs_status res"
  "rs_body (set_field n v res) = rs_body res"
  "rs_fields (set_field n v res) n = Some v"
  by (simp_all add: set_field_def)

lemma buildErrorResponse_ascii:
  assumes "dumps_ascii lib" and "ascii msg"
  obtains res where "buildErrorResponse lib st v msg = Ok res" "rs_status res = st"
proof -
  have "\<exists>t. jl_dump lib (JObj [(''error'', JString msg)]) = Some t"
    using assms by (auto simp: dumps_ascii_def) (auto simp: ascii_def)
  then show ?thesis
    using that by (auto simp: buildErrorResponse_def dump_json_def prepare_payload_def
        json_headers_def set_field_def new_response_def)
qed

lemma contains_imp_object: "contains j k \<Longrightarrow> \<exists>kvs v. j = JObj kvs \<and> map_of kvs k = Some v"
  by (cases j) auto

lemma get_string_cases:
  obtains s where "get_string j k = Ok s" | "get_string j k = Raised JsonException"
proof (cases j)
  case (JObj kvs)
  then show ?thesis
    using that by (cases "map_of kvs k"; cases "the (map_of kvs k)") (auto simp: get_string_def)
qed (use that in \<open>auto simp: get_string_def\<close>)

end
