(* ===== verification/EmailSyntax.thy ===== *)
theory EmailSyntax
  imports CStrings
begin

text \<open>
  \<open>UserHandler::isValidEmail\<close> runs \<open>std::regex_match\<close> on a fixed pattern. The fragment of
  ECMAScript regular expressions that the pattern uses (character classes, sequences and \<open>+\<close>) is a
  datatype; what it denotes is the predicate \<open>in_re\<close>, and \<open>re_match\<close> decides it. The last section
  says which strings the pattern accepts, in terms of the parts of an address.
\<close>

section \<open>Regular expressions\<close>

datatype re = NoMatch | Eps | Class "char \<Rightarrow> bool" | Cat re re | Alt re re | Rep re

definition OneOrMore :: "re \<Rightarrow> re" where
  "OneOrMore r = Cat r (Rep r)"

inductive in_re :: "re \<Rightarrow> string \<Rightarrow> bool" where
  eps: "in_re Eps []"
| cls: "P c \<Longrightarrow> in_re (Class P) [c]"
| cat: "in_re r u \<Longrightarrow> in_re q v \<Longrightarrow> in_re (Cat r q) (u @ v)"
| alt_left: "in_re r u \<Longrightarrow> in_re (Alt r q) u"
| alt_right: "in_re q u \<Longrightarrow> in_re (Alt r q) u"
| rep_none: "in_re (Rep r) []"
| rep_more: "in_re r u \<Longrightarrow> in_re (Rep r) v \<Longrightarrow> in_re (Rep r) (u @ v)"

inductive_simps in_re_simps [simp]:
  "in_re NoMatch s"
  "in_re Eps s"
  "in_re (Class P) s"
  "in_re (Cat r q) s"
  "in_re (Alt r q) s"

inductive_cases in_re_RepE: "in_re (Rep r) s"

fun accepts_empty :: "re \<Rightarrow> bool" where
  "accepts_empty NoMatch = False"
| "accepts_empty Eps = True"
| "accepts_empty (Class P) = False"
| "accepts_empty (Cat r q) = (accepts_empty r \<and> accepts_empty q)"
| "accepts_empty (Alt r q) = (accepts_empty r \<or> accepts_empty q)"
| "accepts_empty (Rep r) = True"

text \<open>What is left to match after the character \<open>c\<close>.\<close>

fun after :: "char \<Rightarrow> re \<Rightarrow> re" where
  "after c NoMatch = NoMatch"
| "after c Eps = NoMatch"
| "after c (Class P) = (if P c then Eps else NoMatch)"
| "after c (Cat r q) =
     (if accepts_empty r then Alt (Cat (after c r) q) (after c q) else Cat (after c r) q)"
| "after c (Alt r q) = Alt (after c r) (after c q)"
| "after c (Rep r) = Cat (after c r) (Rep r)"

fun re_match :: "re \<Rightarrow> string \<Rightarrow> bool" where
  "re_match r [] = accepts_empty r"
| "re_match r (c # s) = re_match (after c r) s"

lemma accepts_empty_iff: "accepts_empty r \<longleftrightarrow> in_re r []"
  by (induction r) (auto intro: in_re.intros)

lemma in_re_Rep_Cons:
  assumes "in_re (Rep r) (c # s)"
  shows "\<exists>u v. s = u @ v \<and> in_re r (c # u) \<and> in_re (Rep r) v"
proof -
  have "in_re q w \<Longrightarrow> q = Rep r \<Longrightarrow> w = c # s \<Longrightarrow>
      \<exists>u v. s = u @ v \<and> in_re r (c # u) \<and> in_re (Rep r) v" for q w
  proof (induction rule: in_re.induct)
    case (rep_more r' u v)
    show ?case
    proof (cases u)
      case Nil
      with rep_more show ?thesis by simp
    next
      case (Cons a u')
      with rep_more show ?thesis by auto
    qed
  qed simp_all
  with assms show ?thesis by blast
qed

lemma in_re_after: "in_re (after c r) s \<longleftrightarrow> in_re r (c # s)"
proof (induction r arbitrary: s)
  case (Cat r q)
  show ?case
    by (auto simp: Cat.IH accepts_empty_iff append_eq_Cons_conv Cons_eq_append_conv)
next
  case (Rep r)
  show ?case
  proof
    assume "in_re (after c (Rep r)) s"
    then obtain u v where "s = u @ v" "in_re r (c # u)" "in_re (Rep r) v"
      by (auto simp: Rep.IH)
    then show "in_re (Rep r) (c # s)"
      using in_re.rep_more [of r "c # u" v] by simp
  next
    assume "in_re (Rep r) (c # s)"
    then show "in_re (after c (Rep r)) s"
      using in_re_Rep_Cons [of r c s] by (auto simp: Rep.IH)
  qed
qed auto

theorem re_match_iff: "re_match r s \<longleftrightarrow> in_re r s"
  by (induction s arbitrary: r) (simp_all add: accepts_empty_iff in_re_after)

lemma in_re_Rep_Class: "in_re (Rep (Class P)) s \<longleftrightarrow> (\<forall>c \<in> set s. P c)"
proof (induction s)
  case Nil
  then show ?case by (auto intro: in_re.intros)
next
  case (Cons c s)
  have "in_re (Rep (Class P)) (c # s) \<longleftrightarrow> in_re (after c (Rep (Class P))) s"
    by (simp only: in_re_after)
  also have "\<dots> \<longleftrightarrow> P c \<and> in_re (Rep (Class P)) s" by auto
  finally show ?case by (simp add: Cons.IH)
qed

lemma in_re_OneOrMore_Class:
  "in_re (OneOrMore (Class P)) s \<longleftrightarrow> s \<noteq> [] \<and> list_all P s"
proof -
  have "in_re (OneOrMore (Class P)) s \<longleftrightarrow> (\<exists>c u. s = c # u \<and> P c \<and> in_re (Rep (Class P)) u)"
    by (auto simp: OneOrMore_def) (metis append_Cons append_Nil)
  then show ?thesis
    by (cases s) (auto simp: in_re_Rep_Class list_all_iff)
qed

lemma in_re_Cat_Lit: "in_re (Cat (Class (\<lambda>c. c = a)) q) s \<longleftrightarrow> (\<exists>v. s = a # v \<and> in_re q v)"
proof
  assume "in_re (Cat (Class (\<lambda>c. c = a)) q) s"
  then show "\<exists>v. s = a # v \<and> in_re q v" by auto
next
  assume "\<exists>v. s = a # v \<and> in_re q v"
  then obtain v where "s = [a] @ v" "in_re q v" by auto
  then show "in_re (Cat (Class (\<lambda>c. c = a)) q) s"
    by (auto intro!: exI [of _ "[a]"])
qed

section \<open>The pattern of \<open>isValidEmail\<close>\<close>

definition between :: "char \<Rightarrow> char \<Rightarrow> char \<Rightarrow> bool" where
  "between a b c \<longleftrightarrow> (of_char a :: nat) \<le> of_char c \<and> (of_char c :: nat) \<le> of_char b"

definition alnum :: "char \<Rightarrow> bool" where
  "alnum c \<longleftrightarrow>
     between CHR ''a'' CHR ''z'' c \<or> between CHR ''A'' CHR ''Z'' c \<or> between CHR ''0'' CHR ''9'' c"

definition local_char :: "char \<Rightarrow> bool" where
  "local_char c \<longleftrightarrow> alnum c \<or> c \<in> set ''_.+-''"

definition domain_char :: "char \<Rightarrow> bool" where
  "domain_char c \<longleftrightarrow> alnum c \<or> c = CHR ''-''"

definition tail_char :: "char \<Rightarrow> bool" where
  "tail_char c \<longleftrightarrow> alnum c \<or> c \<in> set ''-.''"

abbreviation Lit :: "char \<Rightarrow> re" where
  "Lit a \<equiv> Class (\<lambda>c. c = a)"

text \<open>
  \<^verbatim>\<open>^[a-zA-Z0-9_.+-]+@[a-zA-Z0-9-]+\.[a-zA-Z0-9-.]+$\<close>; \<open>regex_match\<close> matches the whole string, so
  the two anchors add nothing.
\<close>

definition email_regex :: re where
  "email_regex =
     Cat (OneOrMore (Class local_char))
       (Cat (Lit CHR ''@'')
         (Cat (OneOrMore (Class domain_char))
           (Cat (Lit CHR ''.'') (OneOrMore (Class tail_char)))))"

definition isValidEmail :: "string \<Rightarrow> bool" where
  "isValidEmail email = re_match email_regex email"

lemma isValidEmail_split:
  "isValidEmail s \<longleftrightarrow>
     (\<exists>l d t. s = l @ ''@'' @ d @ ''.'' @ t \<and> l \<noteq> [] \<and> d \<noteq> [] \<and> t \<noteq> [] \<and>
        list_all local_char l \<and> list_all domain_char d \<and> list_all tail_char t)"
proof -
  have "isValidEmail s \<longleftrightarrow> in_re email_regex s"
    by (simp add: isValidEmail_def re_match_iff)
  also have "\<dots> \<longleftrightarrow> (\<exists>l u. s = l @ u \<and> in_re (OneOrMore (Class local_char)) l \<and>
      (\<exists>v. u = CHR ''@'' # v \<and> (\<exists>d w. v = d @ w \<and> in_re (OneOrMore (Class domain_char)) d \<and>
      (\<exists>t. w = CHR ''.'' # t \<and> in_re (OneOrMore (Class tail_char)) t))))"
    by (simp only: email_regex_def in_re_simps(4) [of "OneOrMore _"] in_re_Cat_Lit)
  also have "\<dots> \<longleftrightarrow> (\<exists>l d t. s = l @ ''@'' @ d @ ''.'' @ t \<and> l \<noteq> [] \<and> d \<noteq> [] \<and> t \<noteq> [] \<and>
        list_all local_char l \<and> list_all domain_char d \<and> list_all tail_char t)"
    unfolding in_re_OneOrMore_Class by (simp, blast)
  finally show ?thesis .
qed

text \<open>No character of a valid address is a control character, so it cannot end a header line.\<close>

lemma email_char_printable:
  "local_char c \<or> domain_char c \<or> tail_char c \<Longrightarrow> 32 < (of_char c :: nat) \<and> (of_char c :: nat) < 128"
  by (auto simp: local_char_def domain_char_def tail_char_def alnum_def between_def)

lemma isValidEmail_printable:
  assumes "isValidEmail s" and "c \<in> set s"
  shows "32 < (of_char c :: nat) \<and> (of_char c :: nat) < 128"
  using assms email_char_printable
  by (auto simp: isValidEmail_split list_all_iff)

lemma local_char_not_at: "\<not> local_char CHR ''@'' \<and> \<not> domain_char CHR ''@'' \<and> \<not> tail_char CHR ''@''"
  by (simp add: local_char_def domain_char_def tail_char_def alnum_def between_def)

lemma isValidEmail_one_at:
  assumes "isValidEmail s"
  shows "count_list s CHR ''@'' = 1"
  using assms local_char_not_at
  by (auto simp: isValidEmail_split list_all_iff count_list_0_iff) 

section \<open>Properties\<close>

text \<open>
  C31: \<open>isValidEmail\<close> accepts exactly the texts that are a non-empty local part, an at sign, a non-empty
  domain, a dot and a non-empty rest, each over its own characters; every accepted text has exactly
  one at sign and consists of printable ASCII characters.
\<close>

theorem isValidEmail_exact:
  "isValidEmail s \<longleftrightarrow>
     (\<exists>l d t. s = l @ ''@'' @ d @ ''.'' @ t \<and> l \<noteq> [] \<and> d \<noteq> [] \<and> t \<noteq> [] \<and>
        list_all local_char l \<and> list_all domain_char d \<and> list_all tail_char t) \<and>
     count_list s CHR ''@'' = 1 \<and> list_all (\<lambda>c. 32 < (of_char c :: nat) \<and> (of_char c :: nat) < 128) s"
  using isValidEmail_split [of s] isValidEmail_one_at [of s] isValidEmail_printable [of s]
  by (auto simp only: list_all_iff)

end
