(* ===== verification/Config.thy ===== *)
theory Config
  imports Http "HOL-Library.Word"
begin

text \<open>
  \<open>src/utils/Config.h\<close> and \<open>src/utils/Config.cpp\<close>: the configuration object and its loader. Every
  \<open>parse...Config\<close> assigns the fields one after the other and throws at the first that is missing
  or of the wrong type, so a failed load leaves the fields before it assigned. Integers are
  narrowed as \<open>json::get<T>()\<close> does, by a cast that wraps around.
\<close>

section \<open>The configuration object\<close>

record database_config =
  db_host :: string
  db_port :: "16 word"
  db_user :: string
  db_password :: string
  db_dbname :: string
  db_pool_size :: "64 word"
  db_timeout :: "32 word"

record server_config =
  sv_host :: string
  sv_port :: "16 word"
  sv_threads :: int
  sv_request_timeout :: "32 word"

record jwt_config =
  jc_secret :: string
  jc_expire_time :: "32 word"
  jc_issuer :: string

record log_config =
  lc_level :: string
  lc_path :: string

record verify_config =
  vc_smtp_server_url :: string
  vc_smtp_user :: string
  vc_smtp_password :: string
  vc_code_expiry :: int
  vc_email_from :: string

record config =
  m_db :: database_config
  m_server :: server_config
  m_jwt :: jwt_config
  m_log :: log_config
  m_verify :: verify_config

text \<open>\<open>new Config()\<close>: the member initialisers, zero and empty elsewhere.\<close>

definition default_config :: config where
  "default_config =
     \<lparr>m_db = \<lparr>db_host = ''localhost'', db_port = 3306, db_user = ''root'', db_password = [],
              db_dbname = [], db_pool_size = 5, db_timeout = 3\<rparr>,
      m_server = \<lparr>sv_host = ''0.0.0.0'', sv_port = 8080, sv_threads = 4,
                  sv_request_timeout = 30\<rparr>,
      m_jwt = \<lparr>jc_secret = [], jc_expire_time = 86400, jc_issuer = ''music-player-backend''\<rparr>,
      m_log = \<lparr>lc_level = ''info'', lc_path = ''logs/app.log''\<rparr>,
      m_verify = \<lparr>vc_smtp_server_url = [], vc_smtp_user = [], vc_smtp_password = [],
                  vc_code_expiry = 0, vc_email_from = []\<rparr>\<rparr>"

section \<open>Reading one member\<close>

text \<open>\<open>j.contains(key) && j[key].is_string()\<close> and the integer counterpart\<close>

definition str_member :: "json \<Rightarrow> string \<Rightarrow> string option" where
  "str_member j k =
     (case j of
        JObj kvs \<Rightarrow> (case map_of kvs k of Some (JString s) \<Rightarrow> Some s | _ \<Rightarrow> None)
      | _ \<Rightarrow> None)"

definition int_member :: "json \<Rightarrow> string \<Rightarrow> int option" where
  "int_member j k =
     (case j of
        JObj kvs \<Rightarrow> (case map_of kvs k of Some (JInt i) \<Rightarrow> Some i | _ \<Rightarrow> None)
      | _ \<Rightarrow> None)"

text \<open>\<open>static_cast<int>\<close> of a wider integer\<close>

definition to_int32 :: "int \<Rightarrow> int" where
  "to_int32 i = sint (word_of_int i :: 32 word)"

definition need :: "'v option \<Rightarrow> ('v \<Rightarrow> config \<Rightarrow> config) \<Rightarrow> string \<Rightarrow> (config, unit) prog" where
  "need v upd msg = (case v of Some x \<Rightarrow> modify (upd x) | None \<Rightarrow> raise (StdException msg))"

fun seq_all :: "('s, unit) prog list \<Rightarrow> ('s, unit) prog" where
  "seq_all [] = ret ()"
| "seq_all (m # ms) = and_then m (\<lambda>_. seq_all ms)"

section \<open>The five sections of the file\<close>

definition parseDatabaseConfig :: "json \<Rightarrow> (config, unit) prog" where
  "parseDatabaseConfig j = seq_all
     [need (str_member j ''host'') (\<lambda>v c. c\<lparr>m_db := (m_db c)\<lparr>db_host := v\<rparr>\<rparr>)
        ''Database host is required'',
      need (int_member j ''port'') (\<lambda>v c. c\<lparr>m_db := (m_db c)\<lparr>db_port := word_of_int v\<rparr>\<rparr>)
        ''Database port is required'',
      need (str_member j ''user'') (\<lambda>v c. c\<lparr>m_db := (m_db c)\<lparr>db_user := v\<rparr>\<rparr>)
        ''Database user is required'',
      need (str_member j ''password'') (\<lambda>v c. c\<lparr>m_db := (m_db c)\<lparr>db_password := v\<rparr>\<rparr>)
        ''Database password is required'',
      need (str_member j ''dbname'') (\<lambda>v c. c\<lparr>m_db := (m_db c)\<lparr>db_dbname := v\<rparr>\<rparr>)
        ''Database name is required'',
      need (int_member j ''connection_pool_size'')
        (\<lambda>v c. c\<lparr>m_db := (m_db c)\<lparr>db_pool_size := word_of_int v\<rparr>\<rparr>)
        ''Database connection pool size is required'',
      need (int_member j ''connection_timeout'')
        (\<lambda>v c. c\<lparr>m_db := (m_db c)\<lparr>db_timeout := word_of_int v\<rparr>\<rparr>)
        ''Database connection timeout is required'']"

definition parseServerConfig :: "json \<Rightarrow> (config, unit) prog" where
  "parseServerConfig j = seq_all
     [need (str_member j ''host'') (\<lambda>v c. c\<lparr>m_server := (m_server c)\<lparr>sv_host := v\<rparr>\<rparr>)
        ''Server host is required'',
      need (int_member j ''port'') (\<lambda>v c. c\<lparr>m_server := (m_server c)\<lparr>sv_port := word_of_int v\<rparr>\<rparr>)
        ''Server port is required'',
      need (int_member j ''threads'')
        (\<lambda>v c. c\<lparr>m_server := (m_server c)\<lparr>sv_threads := to_int32 v\<rparr>\<rparr>)
        ''Server threads is required'',
      need (int_member j ''request_timeout'')
        (\<lambda>v c. c\<lparr>m_server := (m_server c)\<lparr>sv_request_timeout := word_of_int v\<rparr>\<rparr>)
        ''Server request timeout is required'']"

definition parseJWTConfig :: "json \<Rightarrow> (config, unit) prog" where
  "parseJWTConfig j = seq_all
     [need (str_member j ''secret'') (\<lambda>v c. c\<lparr>m_jwt := (m_jwt c)\<lparr>jc_secret := v\<rparr>\<rparr>)
        ''JWT secret is required'',
      need (int_member j ''expire_time'')
        (\<lambda>v c. c\<lparr>m_jwt := (m_jwt c)\<lparr>jc_expire_time := word_of_int v\<rparr>\<rparr>)
        ''JWT expire time is required'',
      need (str_member j ''issuer'') (\<lambda>v c. c\<lparr>m_jwt := (m_jwt c)\<lparr>jc_issuer := v\<rparr>\<rparr>)
        ''JWT issuer is required'']"

definition parseLogConfig :: "json \<Rightarrow> (config, unit) prog" where
  "parseLogConfig j = seq_all
     [need (str_member j ''level'') (\<lambda>v c. c\<lparr>m_log := (m_log c)\<lparr>lc_level := v\<rparr>\<rparr>)
        ''Log level is required'',
      need (str_member j ''path'') (\<lambda>v c. c\<lparr>m_log := (m_log c)\<lparr>lc_path := v\<rparr>\<rparr>)
        ''Log path is required'']"

definition parseVerifyServiceConfig :: "json \<Rightarrow> (config, unit) prog" where
  "parseVerifyServiceConfig j = seq_all
     [need (str_member j ''smtp_server_url'')
        (\<lambda>v c. c\<lparr>m_verify := (m_verify c)\<lparr>vc_smtp_server_url := v\<rparr>\<rparr>) ''SMTP server is required'',
      need (str_member j ''smtp_user'')
        (\<lambda>v c. c\<lparr>m_verify := (m_verify c)\<lparr>vc_smtp_user := v\<rparr>\<rparr>) ''SMTP user is required'',
      need (str_member j ''smtp_password'')
        (\<lambda>v c. c\<lparr>m_verify := (m_verify c)\<lparr>vc_smtp_password := v\<rparr>\<rparr>) ''SMTP password is required'',
      need (int_member j ''verification_code_expiry'')
        (\<lambda>v c. c\<lparr>m_verify := (m_verify c)\<lparr>vc_code_expiry := to_int32 v\<rparr>\<rparr>)
        ''Verification code expiry is required'',
      need (str_member j ''email_from'')
        (\<lambda>v c. c\<lparr>m_verify := (m_verify c)\<lparr>vc_email_from := v\<rparr>\<rparr>) ''Email from is required'']"

section \<open>The loader\<close>

text \<open>
  \<open>file\<close> is the text of the file, \<open>None\<close> when it cannot be opened; \<open>read\<close> is the library's stream
  extraction \<open>ifs >> config_json\<close>, \<open>None\<close> for its \<open>parse_error\<close>. A missing \<open>verify_service\<close>
  section only runs the log statement of the last \<open>else\<close>.
\<close>

definition member :: "json \<Rightarrow> string \<Rightarrow> json" where
  "member j k = (case j of JObj kvs \<Rightarrow> (case map_of kvs k of Some v \<Rightarrow> v | None \<Rightarrow> JNull) | _ \<Rightarrow> JNull)"

definition load_sections :: "json \<Rightarrow> (config, bool) prog" where
  "load_sections j =
     (if contains j ''database'' then
        and_then (parseDatabaseConfig (member j ''database'')) (\<lambda>_.
        if contains j ''server'' then
          and_then (parseServerConfig (member j ''server'')) (\<lambda>_.
          if contains j ''jwt'' then
            and_then (parseJWTConfig (member j ''jwt'')) (\<lambda>_.
            if contains j ''log'' then
              and_then (parseLogConfig (member j ''log'')) (\<lambda>_.
              if contains j ''verify_service'' then
                and_then (parseVerifyServiceConfig (member j ''verify_service'')) (\<lambda>_. ret True)
              else ret True)
            else ret False)
          else ret False)
        else ret False)
      else ret False)"

definition loadFromFile :: "(string \<Rightarrow> json option) \<Rightarrow> string option \<Rightarrow> (config, bool) prog" where
  "loadFromFile read file =
     (case file of
        None \<Rightarrow> ret False
      | Some text \<Rightarrow>
          catch_exn
            (case read text of None \<Rightarrow> raise JsonException | Some j \<Rightarrow> load_sections j)
            (\<lambda>e. ret False))"

section \<open>What a successful load means\<close>

definition has_strs :: "json \<Rightarrow> string list \<Rightarrow> bool" where
  "has_strs j ks \<longleftrightarrow> (\<forall>k \<in> set ks. str_member j k \<noteq> None)"

definition has_ints :: "json \<Rightarrow> string list \<Rightarrow> bool" where
  "has_ints j ks \<longleftrightarrow> (\<forall>k \<in> set ks. int_member j k \<noteq> None)"

definition database_ok :: "json \<Rightarrow> bool" where
  "database_ok j \<longleftrightarrow> has_strs j [''host'', ''user'', ''password'', ''dbname''] \<and>
     has_ints j [''port'', ''connection_pool_size'', ''connection_timeout'']"

definition server_ok :: "json \<Rightarrow> bool" where
  "server_ok j \<longleftrightarrow> has_strs j [''host''] \<and> has_ints j [''port'', ''threads'', ''request_timeout'']"

definition jwt_ok :: "json \<Rightarrow> bool" where
  "jwt_ok j \<longleftrightarrow> has_strs j [''secret'', ''issuer''] \<and> has_ints j [''expire_time'']"

definition log_ok :: "json \<Rightarrow> bool" where
  "log_ok j \<longleftrightarrow> has_strs j [''level'', ''path'']"

definition verify_ok :: "json \<Rightarrow> bool" where
  "verify_ok j \<longleftrightarrow> has_strs j [''smtp_server_url'', ''smtp_user'', ''smtp_password'', ''email_from''] \<and>
     has_ints j [''verification_code_expiry'']"

definition sections_ok :: "json \<Rightarrow> bool" where
  "sections_ok j \<longleftrightarrow>
     contains j ''database'' \<and> database_ok (member j ''database'') \<and>
     contains j ''server'' \<and> server_ok (member j ''server'') \<and>
     contains j ''jwt'' \<and> jwt_ok (member j ''jwt'') \<and>
     contains j ''log'' \<and> log_ok (member j ''log'') \<and>
     (contains j ''verify_service'' \<longrightarrow> verify_ok (member j ''verify_service''))"

text \<open>The values that a well-formed document assigns.\<close>

definition database_of :: "json \<Rightarrow> database_config" where
  "database_of j =
     \<lparr>db_host = the (str_member j ''host''), db_port = word_of_int (the (int_member j ''port'')),
      db_user = the (str_member j ''user''), db_password = the (str_member j ''password''),
      db_dbname = the (str_member j ''dbname''),
      db_pool_size = word_of_int (the (int_member j ''connection_pool_size'')),
      db_timeout = word_of_int (the (int_member j ''connection_timeout''))\<rparr>"

definition server_of :: "json \<Rightarrow> server_config" where
  "server_of j =
     \<lparr>sv_host = the (str_member j ''host''), sv_port = word_of_int (the (int_member j ''port'')),
      sv_threads = to_int32 (the (int_member j ''threads'')),
      sv_request_timeout = word_of_int (the (int_member j ''request_timeout''))\<rparr>"

definition jwt_of :: "json \<Rightarrow> jwt_config" where
  "jwt_of j =
     \<lparr>jc_secret = the (str_member j ''secret''),
      jc_expire_time = word_of_int (the (int_member j ''expire_time'')),
      jc_issuer = the (str_member j ''issuer'')\<rparr>"

definition log_of :: "json \<Rightarrow> log_config" where
  "log_of j = \<lparr>lc_level = the (str_member j ''level''), lc_path = the (str_member j ''path'')\<rparr>"

definition verify_of :: "json \<Rightarrow> verify_config" where
  "verify_of j =
     \<lparr>vc_smtp_server_url = the (str_member j ''smtp_server_url''),
      vc_smtp_user = the (str_member j ''smtp_user''),
      vc_smtp_password = the (str_member j ''smtp_password''),
      vc_code_expiry = to_int32 (the (int_member j ''verification_code_expiry'')),
      vc_email_from = the (str_member j ''email_from'')\<rparr>"

definition config_of :: "json \<Rightarrow> verify_config \<Rightarrow> config" where
  "config_of j v =
     \<lparr>m_db = database_of (member j ''database''), m_server = server_of (member j ''server''),
      m_jwt = jwt_of (member j ''jwt''), m_log = log_of (member j ''log''),
      m_verify = (if contains j ''verify_service'' then verify_of (member j ''verify_service'')
                  else v)\<rparr>"

definition throws :: "('s, 'a) prog \<Rightarrow> 's \<Rightarrow> bool" where
  "throws m s \<longleftrightarrow> (\<exists>e. fst (m s) = Raised e)"

lemma need_Some [simp]: "need (Some x) upd msg = modify (upd x)"
  by (simp add: need_def)

lemma need_None [simp]: "need None upd msg = raise (StdException msg)"
  by (simp add: need_def)

lemma ret_apply: "ret x s = (Ok x, s)"
  by (simp add: ret_def)

lemma raise_apply: "raise e s = (Raised e, s)"
  by (simp add: raise_def)

lemma modify_apply: "modify f s = (Ok (), f s)"
  by (simp add: modify_def)

lemmas run_parser = prog_simps ret_apply raise_apply modify_apply has_strs_def has_ints_def

lemma parseDatabaseConfig_ok:
  "database_ok j \<Longrightarrow> parseDatabaseConfig j c = (Ok (), c\<lparr>m_db := database_of j\<rparr>)"
  by (auto simp: parseDatabaseConfig_def database_ok_def database_of_def run_parser)

lemma parseDatabaseConfig_throws: "\<not> database_ok j \<Longrightarrow> throws (parseDatabaseConfig j) c"
  by (auto simp: parseDatabaseConfig_def database_ok_def throws_def run_parser need_def
      split: option.split)

lemma parseServerConfig_ok:
  "server_ok j \<Longrightarrow> parseServerConfig j c = (Ok (), c\<lparr>m_server := server_of j\<rparr>)"
  by (auto simp: parseServerConfig_def server_ok_def server_of_def run_parser)

lemma parseServerConfig_throws: "\<not> server_ok j \<Longrightarrow> throws (parseServerConfig j) c"
  by (auto simp: parseServerConfig_def server_ok_def throws_def run_parser need_def
      split: option.split)

lemma parseJWTConfig_ok: "jwt_ok j \<Longrightarrow> parseJWTConfig j c = (Ok (), c\<lparr>m_jwt := jwt_of j\<rparr>)"
  by (auto simp: parseJWTConfig_def jwt_ok_def jwt_of_def run_parser)

lemma parseJWTConfig_throws: "\<not> jwt_ok j \<Longrightarrow> throws (parseJWTConfig j) c"
  by (auto simp: parseJWTConfig_def jwt_ok_def throws_def run_parser need_def
      split: option.split)

lemma parseLogConfig_ok: "log_ok j \<Longrightarrow> parseLogConfig j c = (Ok (), c\<lparr>m_log := log_of j\<rparr>)"
  by (auto simp: parseLogConfig_def log_ok_def log_of_def run_parser)

lemma parseLogConfig_throws: "\<not> log_ok j \<Longrightarrow> throws (parseLogConfig j) c"
  by (auto simp: parseLogConfig_def log_ok_def throws_def run_parser need_def
      split: option.split)

lemma parseVerifyServiceConfig_ok:
  "verify_ok j \<Longrightarrow> parseVerifyServiceConfig j c = (Ok (), c\<lparr>m_verify := verify_of j\<rparr>)"
  by (auto simp: parseVerifyServiceConfig_def verify_ok_def verify_of_def run_parser)

lemma parseVerifyServiceConfig_throws: "\<not> verify_ok j \<Longrightarrow> throws (parseVerifyServiceConfig j) c"
  by (auto simp: parseVerifyServiceConfig_def verify_ok_def throws_def run_parser need_def
      split: option.split)

lemma throws_and_then: "throws m s \<Longrightarrow> throws (and_then m f) s"
  by (auto simp: throws_def and_then_def split: prod.splits outcome.splits)

lemma throws_and_then_Ok: "m s = (Ok x, s') \<Longrightarrow> throws (f x) s' \<Longrightarrow> throws (and_then m f) s"
  by (simp add: throws_def and_then_def)

definition config_accepted :: "(string \<Rightarrow> json option) \<Rightarrow> string option \<Rightarrow> bool" where
  "config_accepted read file =
     (case file of None \<Rightarrow> False
      | Some text \<Rightarrow> (case read text of None \<Rightarrow> False | Some j \<Rightarrow> sections_ok j))"

lemma load_sections_ok:
  "sections_ok j \<Longrightarrow> load_sections j c = (Ok True, config_of j (m_verify c))"
  by (simp add: load_sections_def sections_ok_def config_of_def ret_apply
      and_then_eval parseDatabaseConfig_ok parseServerConfig_ok parseJWTConfig_ok
      parseLogConfig_ok parseVerifyServiceConfig_ok)

definition rejected :: "('s, bool) prog \<Rightarrow> 's \<Rightarrow> bool" where
  "rejected m s \<longleftrightarrow> throws m s \<or> fst (m s) = Ok False"

lemma rejected_guard:
  "(b \<Longrightarrow> rejected m s) \<Longrightarrow> rejected (if b then m else ret False) s"
  by (auto simp: rejected_def ret_apply)

lemma rejected_step:
  assumes "\<not> ok \<Longrightarrow> throws p s" and "ok \<Longrightarrow> p s = (Ok (), s')" and "ok \<Longrightarrow> rejected m s'"
  shows "rejected (and_then p (\<lambda>_. m)) s"
  using assms
  by (cases ok) (auto simp: rejected_def and_then_eval intro: throws_and_then throws_and_then_Ok)

lemma load_sections_not_ok:
  assumes "\<not> sections_ok j"
  shows "rejected (load_sections j) c"
  unfolding load_sections_def
  apply (rule rejected_guard)
  apply (rule rejected_step [OF parseDatabaseConfig_throws parseDatabaseConfig_ok], assumption+)
  apply (rule rejected_guard)
  apply (rule rejected_step [OF parseServerConfig_throws parseServerConfig_ok], assumption+)
  apply (rule rejected_guard)
  apply (rule rejected_step [OF parseJWTConfig_throws parseJWTConfig_ok], assumption+)
  apply (rule rejected_guard)
  apply (rule rejected_step [OF parseLogConfig_throws parseLogConfig_ok], assumption+)
  subgoal
    using assms
    by (auto simp: sections_ok_def rejected_def
        intro!: throws_and_then parseVerifyServiceConfig_throws)
  done

lemma loadFromFile_ok:
  "sections_ok j \<Longrightarrow> read text = Some j \<Longrightarrow>
   loadFromFile read (Some text) c = (Ok True, config_of j (m_verify c))"
  by (simp add: loadFromFile_def catch_exn_def load_sections_ok)

lemma loadFromFile_not_ok:
  assumes "\<not> config_accepted read file"
  shows "fst (loadFromFile read file c) = Ok False"
proof -
  consider "file = None" | t where "file = Some t" "read t = None"
    | t j where "file = Some t" "read t = Some j" "\<not> sections_ok j"
    using assms by (auto simp: config_accepted_def split: option.splits)
  then show ?thesis
  proof cases
    case (3 t j)
    from load_sections_not_ok [OF 3(3), of c] 3(1,2) show ?thesis
      by (auto simp: loadFromFile_def catch_exn_def rejected_def throws_def ret_apply
          split: prod.splits outcome.splits)
  qed (simp_all add: loadFromFile_def catch_exn_def raise_apply ret_apply)
qed

section \<open>Properties\<close>

text \<open>
  C30: \<open>loadFromFile\<close> never lets an exception out; it returns true exactly when the file opens, is
  JSON, and has the sections \<open>database\<close>, \<open>server\<close>, \<open>jwt\<close> and \<open>log\<close> (and \<open>verify_service\<close>, if there
  is one) with every member present and of its type. After a successful load the configuration
  holds exactly the values of the file, narrowed to the fields' types, whatever it held before.
\<close>

theorem loadFromFile_correct:
  "fst (loadFromFile read file c) = Ok (config_accepted read file) \<and>
   (\<forall>text j. file = Some text \<and> read text = Some j \<and> sections_ok j \<longrightarrow>
      snd (loadFromFile read file c) = config_of j (m_verify c))"
proof
  show "fst (loadFromFile read file c) = Ok (config_accepted read file)"
  proof (cases "config_accepted read file")
    case True
    then obtain t i where "file = Some t" "read t = Some i" "sections_ok i"
      by (auto simp: config_accepted_def split: option.splits)
    with True show ?thesis by (simp add: loadFromFile_ok)
  next
    case False
    then show ?thesis by (simp add: loadFromFile_not_ok)
  qed
qed (auto simp: loadFromFile_ok)

definition demo_config :: json where
  "demo_config = JObj
     [(''database'', JObj [(''host'', JString ''db''), (''port'', JInt 3306), (''user'', JString ''u''),
         (''password'', JString ''p''), (''dbname'', JString ''music''), (''connection_pool_size'', JInt 2),
         (''connection_timeout'', JInt 3)]),
      (''server'', JObj [(''host'', JString ''0.0.0.0''), (''port'', JInt 65616), (''threads'', JInt 4),
         (''request_timeout'', JInt 30)]),
      (''jwt'', JObj [(''secret'', JString ''key''), (''expire_time'', JInt 60), (''issuer'', JString ''me'')]),
      (''log'', JObj [(''level'', JString ''info''), (''path'', JString ''log'')])]"

lemma demo_config_ok: "sections_ok demo_config"
  by (simp add: sections_ok_def demo_config_def database_ok_def server_ok_def jwt_ok_def log_ok_def
      has_strs_def has_ints_def member_def str_member_def int_member_def)

theorem loadFromFile_correct_witness:
  "sv_port (m_server (snd (loadFromFile (\<lambda>t. Some demo_config) (Some ''file'') default_config))) = 80"
proof -
  have "snd (loadFromFile (\<lambda>t. Some demo_config) (Some ''file'') default_config) =
      config_of demo_config (m_verify default_config)"
    using loadFromFile_correct [of "\<lambda>t. Some demo_config" "Some ''file''" default_config] demo_config_ok
    by simp
  then show ?thesis
    by (simp add: config_of_def server_of_def demo_config_def member_def int_member_def)
qed

end
