(* ===== verification/EmailUtil.thy ===== *)
theory EmailUtil
  imports Config
begin

text \<open>
  \<open>src/utils/EmailUtil.cpp\<close>: verification codes and the message that carries them. libcurl is a
  parameter: whether \<open>curl_easy_init\<close> returns a handle, with which buffers it calls back for the
  text (each call asks for \<open>size * nmemb\<close> bytes, in \<open>size_t\<close> arithmetic), and whether the transfer
  it was configured for succeeds. What the code does with its resources is the state \<open>mail_state\<close>.
\<close>

section \<open>Verification codes\<close>

text \<open>\<open>draws i\<close> is the \<open>i\<close>-th value of \<open>dis(gen)\<close>.\<close>

function code_loop :: "(nat \<Rightarrow> int) \<Rightarrow> int \<Rightarrow> int \<Rightarrow> string \<Rightarrow> string" where
  "code_loop draws i len code =
     (if i < len then code_loop draws (i + 1) len (code @ to_string (draws (nat i))) else code)"
  by pat_completeness auto
termination
  by (relation "measure (\<lambda>(draws, i, len, code). nat (len - i))") auto

declare code_loop.simps [simp del]

definition generateVerificationCode :: "(nat \<Rightarrow> int) \<Rightarrow> int \<Rightarrow> string" where
  "generateVerificationCode draws len = code_loop draws 0 len []"

text \<open>\<open>uniform_int_distribution<>(0, 9)\<close> draws values from 0 to 9.\<close>

definition digit_draws :: "(nat \<Rightarrow> int) \<Rightarrow> bool" where
  "digit_draws draws \<longleftrightarrow> (\<forall>i. 0 \<le> draws i \<and> draws i \<le> 9)"

lemma to_string_digit: "0 \<le> d \<Longrightarrow> d \<le> 9 \<Longrightarrow> to_string d = [digit_char (nat d)]"
  by (simp add: to_string_def nat_text_def digits_in.simps [of 10 "nat d"])

lemma code_loop_eq:
  "digit_draws draws \<Longrightarrow> 0 \<le> i \<Longrightarrow>
   code_loop draws i len code =
     code @ map (\<lambda>k. digit_char (nat (draws k))) [nat i ..< nat len]"
proof (induction draws i len code rule: code_loop.induct)
  case (1 draws i len code)
  show ?case
  proof (cases "i < len")
    case True
    from 1(2) have "to_string (draws (nat i)) = [digit_char (nat (draws (nat i)))]"
      by (intro to_string_digit) (simp_all add: digit_draws_def)
    moreover have "[nat i ..< nat len] = nat i # [nat (i + 1) ..< nat len]"
      using True \<open>0 \<le> i\<close> by (simp add: upt_conv_Cons nat_add_distrib)
    ultimately show ?thesis
      using 1 True by (subst code_loop.simps) simp
  next
    case False
    then show ?thesis by (subst code_loop.simps) simp
  qed
qed

section \<open>The read callback\<close>

text \<open>\<open>data\<close> points \<open>ed_pos\<close> bytes into the text, \<open>size_left\<close> bytes are left.\<close>

record email_data =
  ed_pos :: nat
  ed_left :: "64 word"

text \<open>The value that the callback returns and the bytes that \<open>memcpy\<close> puts into the buffer.\<close>

definition readCallback ::
  "string \<Rightarrow> 64 word \<Rightarrow> 64 word \<Rightarrow> email_data \<Rightarrow> (64 word \<times> string) \<times> email_data" where
  "readCallback content sz nmemb ed =
     (let buffer_size = sz * nmemb in
      if ed_left ed = 0 then ((0, []), ed)
      else
        (let copy_size = min buffer_size (ed_left ed);
             bytes = take (unat copy_size) (drop (ed_pos ed) content)
         in ((copy_size, bytes),
             ed\<lparr>ed_pos := ed_pos ed + unat copy_size, ed_left := ed_left ed - copy_size\<rparr>)))"

definition email_data_of :: "string \<Rightarrow> email_data" where
  "email_data_of content = \<lparr>ed_pos = 0, ed_left = of_nat (length content)\<rparr>"

text \<open>libcurl calls until the callback returns 0; \<open>calls\<close> are the buffers that it offers.\<close>

fun uploaded :: "string \<Rightarrow> (64 word \<times> 64 word) list \<Rightarrow> email_data \<Rightarrow> string" where
  "uploaded content [] ed = []"
| "uploaded content ((sz, nmemb) # calls) ed =
     (case readCallback content sz nmemb ed of
        ((n, bytes), ed') \<Rightarrow> if n = 0 then [] else bytes @ uploaded content calls ed')"

text \<open>The same calls one by one: the size of the buffer, the value returned and the bytes written\<close>

fun callbacks :: "string \<Rightarrow> (64 word \<times> 64 word) list \<Rightarrow> email_data \<Rightarrow> (64 word \<times> 64 word \<times> string) list" where
  "callbacks content [] ed = []"
| "callbacks content ((sz, nmemb) # calls) ed =
     (case readCallback content sz nmemb ed of
        ((n, bytes), ed') \<Rightarrow> (sz * nmemb, n, bytes) # (if n = 0 then [] else callbacks content calls ed'))"

definition ed_inv :: "string \<Rightarrow> email_data \<Rightarrow> bool" where
  "ed_inv content ed \<longleftrightarrow> ed_pos ed + unat (ed_left ed) = length content"

lemma unat_of_length: "n < 2 ^ 64 \<Longrightarrow> unat (of_nat n :: 64 word) = n"
  by (simp add: unat_of_nat)

lemma ed_inv_init: "length content < 2 ^ 64 \<Longrightarrow> ed_inv content (email_data_of content)"
  by (simp add: ed_inv_def email_data_of_def unat_of_length)

lemma readCallback_inv:
  assumes "ed_inv content ed" and "readCallback content sz nmemb ed = ((n, bytes), ed')"
  shows "ed_inv content ed'"
    and "unat n \<le> unat (sz * nmemb)"
    and "length bytes = unat n"
    and "drop (ed_pos ed) content = bytes @ drop (ed_pos ed') content"
    and "sz * nmemb \<noteq> 0 \<Longrightarrow> n = 0 \<longleftrightarrow> ed_left ed = 0"
    and "unat (ed_left ed') = unat (ed_left ed) - unat n"
proof -
  let ?c = "min (sz * nmemb) (ed_left ed)"
  have le: "?c \<le> ed_left ed" by simp
  have sub: "unat (ed_left ed - ?c) = unat (ed_left ed) - unat ?c"
    using le by (simp add: unat_sub)
  have ule: "unat ?c \<le> unat (ed_left ed)"
    using le by (simp only: word_le_nat_alt)
  have ubuf: "unat ?c \<le> unat (sz * nmemb)"
    by (simp only: word_le_nat_alt [symmetric] min.cobounded1)
  have "drop (ed_pos ed) content =
      take (unat ?c) (drop (ed_pos ed) content) @ drop (ed_pos ed + unat ?c) content"
    by (metis add.commute append_take_drop_id drop_drop)
  note facts = this sub ule ubuf
  show "ed_inv content ed'" "unat n \<le> unat (sz * nmemb)" "length bytes = unat n"
    "drop (ed_pos ed) content = bytes @ drop (ed_pos ed') content"
    "unat (ed_left ed') = unat (ed_left ed) - unat n"
    using assms facts
    by (auto simp: readCallback_def Let_def ed_inv_def split: if_splits)
  show "sz * nmemb \<noteq> 0 \<Longrightarrow> n = 0 \<longleftrightarrow> ed_left ed = 0"
    using assms by (auto simp: readCallback_def Let_def min_def split: if_splits)
qed

lemma uploaded_prefix:
  "ed_inv content ed \<Longrightarrow> \<exists>rest. drop (ed_pos ed) content = uploaded content calls ed @ rest"
proof (induction calls arbitrary: ed)
  case Nil
  then show ?case by simp
next
  case (Cons c calls)
  obtain sz nmemb where c: "c = (sz, nmemb)" by fastforce
  obtain n bytes ed' where r: "readCallback content sz nmemb ed = ((n, bytes), ed')"
    by (metis prod.collapse)
  note inv = readCallback_inv [OF Cons.prems r]
  from Cons.IH [OF inv(1)] inv(4) c r show ?case by auto
qed

lemma uploaded_all:
  "ed_inv content ed \<Longrightarrow> \<forall>(sz, nmemb) \<in> set calls. sz * nmemb \<noteq> 0 \<Longrightarrow>
   unat (ed_left ed) \<le> length calls \<Longrightarrow> uploaded content calls ed = drop (ed_pos ed) content"
proof (induction calls arbitrary: ed)
  case Nil
  then show ?case by (simp add: ed_inv_def)
next
  case (Cons c calls)
  obtain sz nmemb where c: "c = (sz, nmemb)" by fastforce
  obtain n bytes ed' where r: "readCallback content sz nmemb ed = ((n, bytes), ed')"
    by (metis prod.collapse)
  note inv = readCallback_inv [OF Cons.prems(1) r]
  show ?case
  proof (cases "n = 0")
    case True
    with inv(5) Cons.prems c have "ed_left ed = 0" by simp
    with True Cons.prems c r show ?thesis by (simp add: ed_inv_def)
  next
    case False
    then have "0 < unat n" by (simp add: unat_gt_0)
    with inv(6) Cons.prems(3) have "unat (ed_left ed') \<le> length calls" by simp
    with Cons.IH [OF inv(1)] Cons.prems(2) have "uploaded content calls ed' = drop (ed_pos ed') content"
      by simp
    with False c r inv(4) show ?thesis by simp
  qed
qed

lemma uploaded_callbacks:
  "ed_inv content ed \<Longrightarrow> uploaded content calls ed = concat (map (\<lambda>(_, _, bytes). bytes) (callbacks content calls ed))"
proof (induction calls arbitrary: ed)
  case (Cons c calls)
  obtain sz nmemb where c: "c = (sz, nmemb)" by fastforce
  obtain n bytes ed' where r: "readCallback content sz nmemb ed = ((n, bytes), ed')"
    by (metis prod.collapse)
  note inv = readCallback_inv [OF Cons.prems r]
  from Cons.IH [OF inv(1)] inv(3) c r show ?case by auto
qed simp

lemma callbacks_fit:
  "ed_inv content ed \<Longrightarrow> (b, n, bytes) \<in> set (callbacks content calls ed) \<Longrightarrow>
   length bytes = unat n \<and> unat n \<le> unat b"
proof (induction calls arbitrary: ed)
  case (Cons c calls)
  obtain sz nmemb where c: "c = (sz, nmemb)" by fastforce
  obtain m bs ed' where r: "readCallback content sz nmemb ed = ((m, bs), ed')"
    by (metis prod.collapse)
  note inv = readCallback_inv [OF Cons.prems(1) r]
  from Cons.IH [OF inv(1)] Cons.prems(2) inv(2,3) c r show ?case by (auto split: if_splits)
qed simp

lemma callbacks_end:
  "ed_inv content ed \<Longrightarrow> \<forall>(sz, nmemb) \<in> set calls. sz * nmemb \<noteq> 0 \<Longrightarrow> unat (ed_left ed) < length calls \<Longrightarrow>
   length (callbacks content calls ed) \<le> Suc (unat (ed_left ed)) \<and>
   (\<exists>b. last (callbacks content calls ed) = (b, 0, []))"
proof (induction calls arbitrary: ed)
  case (Cons c calls)
  obtain sz nmemb where c: "c = (sz, nmemb)" by fastforce
  obtain n bytes ed' where r: "readCallback content sz nmemb ed = ((n, bytes), ed')"
    by (metis prod.collapse)
  note inv = readCallback_inv [OF Cons.prems(1) r]
  show ?case
  proof (cases "n = 0")
    case True
    with inv(3) have "bytes = []" by simp
    with True c r show ?thesis by simp
  next
    case False
    then have n: "0 < unat n" by (simp add: unat_gt_0)
    have "ed_left ed \<noteq> 0" using inv(5) False Cons.prems(2) c by auto
    then have "0 < unat (ed_left ed)" by (simp add: unat_gt_0)
    with n inv(6) Cons.prems(3) have left: "unat (ed_left ed') < length calls"
      "Suc (unat (ed_left ed')) \<le> unat (ed_left ed)" by simp_all
    note IH = Cons.IH [OF inv(1) _ left(1)]
    have "callbacks content calls ed' \<noteq> []" using left(1) by (cases calls) (auto split: prod.splits)
    with IH Cons.prems(2) left(2) False c r show ?thesis by auto
  qed
qed simp

section \<open>Sending a message\<close>

text \<open>What \<open>curl_easy_setopt\<close> configures, and the text that is uploaded.\<close>

record mail_request =
  mr_url :: string
  mr_user :: string
  mr_password :: string
  mr_from :: string
  mr_rcpt :: "string list"
  mr_upload :: string

record curl_lib =
  curl_init :: bool
  curl_calls :: "(64 word \<times> 64 word) list"
  curl_perform :: "mail_request \<Rightarrow> bool"

text \<open>Open easy handles, open recipient lists, and the transfers that were accepted.\<close>

record mail_state =
  ms_handles :: nat
  ms_slists :: nat
  ms_sent :: "mail_request list"

definition crlf :: string where
  "crlf = [char_of (13 :: nat), char_of (10 :: nat)]"

definition email_text :: "verify_config \<Rightarrow> string \<Rightarrow> string \<Rightarrow> string \<Rightarrow> string" where
  "email_text config to subject body =
     ''To: '' @ to @ crlf @ ''From: '' @ vc_email_from config @ crlf @
     ''Subject: '' @ subject @ crlf @ crlf @ body"

definition sendTextEmail ::
  "curl_lib \<Rightarrow> verify_config \<Rightarrow> string \<Rightarrow> string \<Rightarrow> string \<Rightarrow> mail_state \<Rightarrow> bool \<times> mail_state" where
  "sendTextEmail curl config to subject body ms =
     (if \<not> curl_init curl then (False, ms)
      else
        (let ms = ms\<lparr>ms_handles := ms_handles ms + 1\<rparr>;
             content = email_text config to subject body;
             ms = ms\<lparr>ms_slists := ms_slists ms + 1\<rparr>;
             request = \<lparr>mr_url = vc_smtp_server_url config, mr_user = vc_smtp_user config,
                        mr_password = vc_smtp_password config, mr_from = vc_email_from config,
                        mr_rcpt = [to],
                        mr_upload = uploaded content (curl_calls curl) (email_data_of content)\<rparr>
         in if \<not> curl_perform curl request
            then (False, ms\<lparr>ms_slists := ms_slists ms - 1\<rparr>)
            else (True, ms\<lparr>ms_slists := ms_slists ms - 1, ms_handles := ms_handles ms - 1,
                           ms_sent := ms_sent ms @ [request]\<rparr>)))"

lemma sendTextEmail_cases:
  obtains (no_handle) "\<not> curl_init curl" "sendTextEmail curl config to subject body ms = (False, ms)"
  | (failed) "curl_init curl" "sendTextEmail curl config to subject body ms =
      (False, ms\<lparr>ms_handles := ms_handles ms + 1\<rparr>)"
  | (sent) req where "curl_init curl" "curl_perform curl req" "mr_rcpt req = [to]"
      "mr_upload req = uploaded (email_text config to subject body) (curl_calls curl)
         (email_data_of (email_text config to subject body))"
      "sendTextEmail curl config to subject body ms = (True, ms\<lparr>ms_sent := ms_sent ms @ [req]\<rparr>)"
proof (cases "curl_init curl")
  case True
  let ?c = "email_text config to subject body"
  let ?r = "\<lparr>mr_url = vc_smtp_server_url config, mr_user = vc_smtp_user config,
     mr_password = vc_smtp_password config, mr_from = vc_email_from config, mr_rcpt = [to],
     mr_upload = uploaded ?c (curl_calls curl) (email_data_of ?c)\<rparr>"
  show ?thesis
    using True that(2) that(3) [of ?r]
    by (cases "curl_perform curl ?r") (simp_all add: sendTextEmail_def Let_def)
qed (use that(1) in \<open>simp add: sendTextEmail_def\<close>)

section \<open>Properties\<close>

text \<open>
  \<open>generateVerificationCode\<close> returns exactly \<open>length\<close> decimal digits (none for a negative
  length), one per draw and in the order of the draws; leading zeros are kept.
\<close>

theorem generateVerificationCode_digits:
  assumes "digit_draws draws"
  shows "generateVerificationCode draws len =
           map (\<lambda>k. digit_char (nat (draws k))) [0 ..< nat len] \<and>
         length (generateVerificationCode draws len) = nat len \<and>
         list_all is_digit (generateVerificationCode draws len)"
proof -
  have "nat (draws k) < 10" for k
  proof -
    have "0 \<le> draws k \<and> draws k \<le> 9" using assms by (simp add: digit_draws_def)
    then show ?thesis by linarith
  qed
  then show ?thesis
    using assms by (simp add: generateVerificationCode_def code_loop_eq list_all_iff)
qed

theorem generateVerificationCode_digits_witness:
  "digit_draws (\<lambda>k. if k = 0 then 0 else 7) \<and>
   generateVerificationCode (\<lambda>k. if k = 0 then 0 else 7) 3 = ''077''"
proof -
  have d: "digit_draws (\<lambda>k. if k = 0 then 0 else 7)" by (simp add: digit_draws_def)
  have "map (\<lambda>k :: nat. digit_char (nat (if k = 0 then 0 else 7))) [0 ..< nat 3] = ''077''"
    by code_simp
  with generateVerificationCode_digits [OF d, of 3] d show ?thesis by simp
qed

text \<open>
  C39: however libcurl slices the upload, no call of the callback writes more than the buffer that it
  was given holds, and each returns the number of bytes that it wrote; what the calls write, one after
  the other, is a prefix of the message; with non-empty buffers and more calls than there are bytes
  it is the whole message, and the loop ends by itself, with a call that returns 0, after at most one
  call more than there are bytes.
\<close>

theorem upload_complete:
  assumes "length content < 2 ^ 64"
  shows "uploaded content calls (email_data_of content) =
      concat (map (\<lambda>(_, _, bytes). bytes) (callbacks content calls (email_data_of content))) \<and>
    (\<forall>(b, n, bytes) \<in> set (callbacks content calls (email_data_of content)).
       length bytes = unat n \<and> unat n \<le> unat b) \<and>
    (\<exists>rest. content = uploaded content calls (email_data_of content) @ rest) \<and>
    ((\<forall>(sz, nmemb) \<in> set calls. sz * nmemb \<noteq> 0) \<and> length content < length calls \<longrightarrow>
       uploaded content calls (email_data_of content) = content \<and>
       length (callbacks content calls (email_data_of content)) \<le> Suc (length content) \<and>
       (\<exists>b. last (callbacks content calls (email_data_of content)) = (b, 0, [])))"
proof -
  have inv: "ed_inv content (email_data_of content)" using assms by (rule ed_inv_init)
  have left: "unat (ed_left (email_data_of content)) = length content"
    using assms by (simp add: email_data_of_def unat_of_length)
  have "\<exists>rest. content = uploaded content calls (email_data_of content) @ rest"
    using uploaded_prefix [OF inv, of calls] by (simp add: email_data_of_def)
  moreover have "uploaded content calls (email_data_of content) = content"
    if "\<forall>(sz, nmemb) \<in> set calls. sz * nmemb \<noteq> 0" "length content < length calls"
    using uploaded_all [OF inv that(1)] that(2) left by (simp add: email_data_of_def)
  ultimately show ?thesis
    using uploaded_callbacks [OF inv, of calls] callbacks_fit [OF inv, where calls = calls] callbacks_end [OF inv, of calls] left
    by auto
qed

theorem upload_complete_witness:
  "uploaded ''abc'' [(1, 2), (1, 2), (1, 1), (1, 5)] (email_data_of ''abc'') = ''abc'' \<and>
   length (callbacks ''abc'' [(1, 2), (1, 2), (1, 1), (1, 5)] (email_data_of ''abc'')) \<le> 4"
proof -
  let ?calls = "[(1, 2), (1, 2), (1, 1), (1, 5)] :: (64 word \<times> 64 word) list"
  have len: "length ''abc'' < 2 ^ 64" by simp
  have "(\<forall>(sz, nmemb) \<in> set ?calls. sz * nmemb \<noteq> 0) \<and> length ''abc'' < length ?calls" by simp
  note upload_complete [OF len, of ?calls, THEN conjunct2, THEN conjunct2, THEN conjunct2, THEN mp, OF this]
  then show ?thesis by (simp del: uploaded.simps callbacks.simps)
qed

text \<open>
  C37: \<open>sendTextEmail\<close> frees its list of recipients on every path; it has one transfer accepted, to the
  one recipient asked for, at the configured server, with the configured account, password and sender
  and the text that the callback handed over, exactly when it returns true, and none otherwise; but
  when \<open>curl_easy_perform\<close> fails it returns without \<open>curl_easy_cleanup\<close>, so each failure leaks a handle,
  as a success does not.
\<close>

theorem sendTextEmail_resources:
  assumes "sendTextEmail curl config to_addr subject body ms = (ok, ms')"
  shows "ms_slists ms' = ms_slists ms \<and>
    ms_handles ms' = ms_handles ms + (if curl_init curl \<and> \<not> ok then 1 else 0) \<and>
    (\<exists>sent. ms_sent ms' = ms_sent ms @ sent \<and> length sent = (if ok then 1 else 0) \<and>
       (\<forall>r \<in> set sent. mr_rcpt r = [to_addr] \<and> mr_url r = vc_smtp_server_url config \<and>
          mr_user r = vc_smtp_user config \<and> mr_password r = vc_smtp_password config \<and>
          mr_from r = vc_email_from config \<and>
          mr_upload r = uploaded (email_text config to_addr subject body) (curl_calls curl)
            (email_data_of (email_text config to_addr subject body)) \<and> curl_perform curl r))"
  using assms by (auto simp: sendTextEmail_def Let_def split: if_splits)

theorem sendTextEmail_resources_witness:
  "\<exists>ms'. sendTextEmail \<lparr>curl_init = True, curl_calls = [], curl_perform = (\<lambda>r. False)\<rparr>
     (m_verify default_config) ''a@b.cc'' ''s'' ''b'' \<lparr>ms_handles = 0, ms_slists = 0, ms_sent = []\<rparr> = (False, ms') \<and>
     ms_handles ms' = 1"
proof -
  obtain ok ms' where r: "sendTextEmail \<lparr>curl_init = True, curl_calls = [], curl_perform = (\<lambda>r. False)\<rparr>
     (m_verify default_config) ''a@b.cc'' ''s'' ''b'' \<lparr>ms_handles = 0, ms_slists = 0, ms_sent = []\<rparr> = (ok, ms')"
    by fastforce
  then have "\<not> ok" by (auto simp: sendTextEmail_def Let_def)
  with sendTextEmail_resources [OF r] r show ?thesis by auto
qed

end
