(* ===== verification/VerifyService.thy ===== *)
theory VerifyService
  imports EmailUtil "HOL-Library.AList"
begin

text \<open>
  \<open>src/server/VerifyService.cpp\<close>: the store of verification codes. This theory models the three
  operations as they run when nobody else touches the store; \<open>VerifyRace\<close> models what the locking
  of \<open>verifyCode\<close> allows when several threads do. Times are ticks of \<open>system_clock\<close>.
\<close>

text \<open>\<open>std::chrono::seconds\<close> as ticks (nanoseconds) of \<open>system_clock\<close>\<close>

definition seconds :: "int \<Rightarrow> int" where
  "seconds n = n * 1000000000"

record verify_info =
  vi_code :: string
  vi_expire :: int
  vi_action :: string

text \<open>\<open>std::map<std::string, VerifyInfo> m_codes\<close>: keys are distinct.\<close>

type_synonym codes = "(string \<times> verify_info) list"

text \<open>
  \<open>vs_changes\<close> is not a field of the code: it counts for every address how often its entry was erased or
  assigned anew. A pointer to the entry is good as long as this count stands, so that \<open>Requests\<close> can
  tell whether a thread that reads through it without the mutex reads what it found.
\<close>

record verify_state =
  vs_codes :: codes
  vs_mail :: mail_state
  vs_changes :: "string \<Rightarrow> nat"

text \<open>\<open>m_codes[to_email] = info\<close>: it makes an entry or assigns to the one that is there.\<close>

definition assign_code :: "string \<Rightarrow> verify_info \<Rightarrow> verify_state \<Rightarrow> verify_state" where
  "assign_code email info s = s\<lparr>vs_codes := AList.update email info (vs_codes s),
     vs_changes := (if map_of (vs_codes s) email = None then vs_changes s
                    else (vs_changes s)(email := Suc (vs_changes s email)))\<rparr>"

lemma assign_code_simps [simp]:
  "vs_codes (assign_code e i s) = AList.update e i (vs_codes s)" "vs_mail (assign_code e i s) = vs_mail s"
  by (simp_all add: assign_code_def)

definition code_message :: "string \<Rightarrow> string" where
  "code_message verify_code = ''Your verification code is: '' @ verify_code"

definition sendVerifyCode ::
  "curl_lib \<Rightarrow> verify_config \<Rightarrow> (nat \<Rightarrow> int) \<Rightarrow> int \<Rightarrow> string \<Rightarrow> string \<Rightarrow>
   verify_state \<Rightarrow> bool \<times> verify_state" where
  "sendVerifyCode curl config draws now to_email action s =
     (let verify_code = generateVerificationCode draws 6 in
      case sendTextEmail curl config to_email ''Verification Code'' (code_message verify_code)
             (vs_mail s) of
        (success, ms) \<Rightarrow>
          if \<not> success then (False, s\<lparr>vs_mail := ms\<rparr>)
          else
            (let expiry_time = seconds (vc_code_expiry config);
                 info = \<lparr>vi_code = verify_code, vi_expire = now + expiry_time, vi_action = action\<rparr>
             in (True, assign_code to_email info (s\<lparr>vs_mail := ms\<rparr>))))"

definition verifyCode :: "codes \<Rightarrow> string \<Rightarrow> string \<Rightarrow> string \<Rightarrow> int \<Rightarrow> bool" where
  "verifyCode m_codes email action verify_code now =
     (case map_of m_codes email of
        None \<Rightarrow> False
      | Some info \<Rightarrow>
          \<not> (vi_expire info < now \<or> vi_action info \<noteq> action \<or> vi_code info \<noteq> verify_code))"

text \<open>The loop of \<open>cleanupExpiredCodes\<close>: the iterator visits every entry once.\<close>

fun cleanup_loop :: "int \<Rightarrow> codes \<Rightarrow> nat \<times> codes" where
  "cleanup_loop now [] = (0, [])"
| "cleanup_loop now ((email, info) # rest) =
     (case cleanup_loop now rest of
        (count, kept) \<Rightarrow>
          if vi_expire info < now then (count + 1, kept) else (count, (email, info) # kept))"

definition cleanupExpiredCodes :: "int \<Rightarrow> codes \<Rightarrow> nat \<times> codes" where
  "cleanupExpiredCodes now m_codes = cleanup_loop now m_codes"

section \<open>The contract of a code store\<close>

text \<open>
  What the handlers and the server rely on, over any representation \<open>'s\<close> of the store: its content
  is a map \<open>entry\<close>; issuing a code replaces the entry of its address; checking looks at nothing
  else; a sweep removes exactly the entries that have expired.
\<close>

locale code_store =
  fixes entry :: "'s \<Rightarrow> string \<Rightarrow> verify_info option"
    and issue :: "string \<Rightarrow> verify_info \<Rightarrow> 's \<Rightarrow> 's"
    and check :: "'s \<Rightarrow> string \<Rightarrow> string \<Rightarrow> string \<Rightarrow> int \<Rightarrow> bool"
    and sweep :: "int \<Rightarrow> 's \<Rightarrow> nat \<times> 's"
    and invar :: "'s \<Rightarrow> bool"
  assumes entry_issue: "invar s \<Longrightarrow> entry (issue e i s) = (entry s)(e \<mapsto> i)"
    and check_entry: "check s e a c t \<longleftrightarrow>
      (\<exists>i. entry s e = Some i \<and> t \<le> vi_expire i \<and> vi_action i = a \<and> vi_code i = c)"
    and entry_sweep: "invar s \<Longrightarrow> entry (snd (sweep t s)) e =
      (case entry s e of None \<Rightarrow> None | Some i \<Rightarrow> if vi_expire i < t then None else Some i)"
    and invar_issue: "invar s \<Longrightarrow> invar (issue e i s)"
    and invar_sweep: "invar s \<Longrightarrow> invar (snd (sweep t s))"
begin

lemma check_issue:
  "invar s \<Longrightarrow> check (issue e i s) e' a c t \<longleftrightarrow>
     (if e' = e then t \<le> vi_expire i \<and> a = vi_action i \<and> c = vi_code i else check s e' a c t)"
  by (auto simp: check_entry entry_issue)

lemma check_sweep:
  "invar s \<Longrightarrow> t \<le> t' \<Longrightarrow> check (snd (sweep t s)) e a c t' \<longleftrightarrow> check s e a c t'"
  by (auto simp: check_entry entry_sweep split: option.splits)

lemma check_antimono: "check s e a c t' \<Longrightarrow> t \<le> t' \<Longrightarrow> check s e a c t"
  by (auto simp: check_entry)

lemma check_after_sweep_live:
  "invar s \<Longrightarrow> entry (snd (sweep t s)) e = Some i \<Longrightarrow> t \<le> vi_expire i"
  by (auto simp: entry_sweep split: option.splits if_splits)

lemma check_unique: "check s e a c t \<Longrightarrow> check s e a' c' t' \<Longrightarrow> a' = a \<and> c' = c"
  by (auto simp: check_entry)

end

section \<open>The model meets the contract\<close>

abbreviation codes_inv :: "codes \<Rightarrow> bool" where
  "codes_inv m \<equiv> distinct (map fst m)"

lemma cleanup_loop_eq:
  "cleanup_loop now m =
     (length (filter (\<lambda>x. vi_expire (snd x) < now) m),
      filter (\<lambda>x. \<not> vi_expire (snd x) < now) m)"
  by (induction now m rule: cleanup_loop.induct) (auto split: prod.splits)

lemma map_of_filter_snd:
  "distinct (map fst m) \<Longrightarrow> map_of (filter (\<lambda>x. P (snd x)) m) k =
     (case map_of m k of None \<Rightarrow> None | Some v \<Rightarrow> if P v then Some v else None)"
  by (induction m) (auto simp: map_of_eq_None_iff image_iff split: option.splits)

lemma codes_inv_filter: "codes_inv m \<Longrightarrow> codes_inv (filter P m)"
  by (rule distinct_map_filter)

interpretation codes: code_store map_of AList.update verifyCode cleanupExpiredCodes codes_inv
proof unfold_locales
  show "map_of (AList.update e i s) = (map_of s)(e \<mapsto> i)" for s e i
    by (rule update_conv')
  show "verifyCode s e a c t \<longleftrightarrow>
      (\<exists>i. map_of s e = Some i \<and> t \<le> vi_expire i \<and> vi_action i = a \<and> vi_code i = c)" for s e a c t
    by (auto simp: verifyCode_def split: option.splits)
  show "codes_inv s \<Longrightarrow> map_of (snd (cleanupExpiredCodes t s)) e =
      (case map_of s e of None \<Rightarrow> None | Some i \<Rightarrow> if vi_expire i < t then None else Some i)" for s t e
    using map_of_filter_snd [of s "\<lambda>i. \<not> vi_expire i < t" e]
    by (simp add: cleanupExpiredCodes_def cleanup_loop_eq split: option.splits)
  show "codes_inv s \<Longrightarrow> codes_inv (AList.update e i s)" for s e i
    by (rule distinct_update)
  show "codes_inv s \<Longrightarrow> codes_inv (snd (cleanupExpiredCodes t s))" for s t
    by (simp add: cleanupExpiredCodes_def cleanup_loop_eq codes_inv_filter)
qed

lemma sendVerifyCode_cases:
  obtains (refused) ms where
      "sendVerifyCode curl config draws now e a s = (False, s\<lparr>vs_mail := ms\<rparr>)"
  | (accepted) ms i where
      "sendVerifyCode curl config draws now e a s =
         (True, assign_code e i (s\<lparr>vs_mail := ms\<rparr>))"
      "vi_code i = generateVerificationCode draws 6"
      "vi_expire i = now + seconds (vc_code_expiry config)" "vi_action i = a"
proof -
  obtain ok ms where m: "sendTextEmail curl config e ''Verification Code''
      (code_message (generateVerificationCode draws 6)) (vs_mail s) = (ok, ms)"
    by fastforce
  let ?i = "\<lparr>vi_code = generateVerificationCode draws 6,
    vi_expire = now + seconds (vc_code_expiry config), vi_action = a\<rparr>"
  show ?thesis
    using refused [of ms] accepted [of ?i ms]
    by (cases ok) (simp_all add: sendVerifyCode_def m Let_def)
qed

lemma sendVerifyCode_inv:
  "codes_inv (vs_codes s) \<Longrightarrow>
   codes_inv (vs_codes (snd (sendVerifyCode curl config draws now e a s)))"
  by (rule sendVerifyCode_cases [of curl config draws now e a s]) (simp_all add: distinct_update)

section \<open>Properties\<close>

text \<open>
  when \<open>sendVerifyCode\<close> returns true, from then on \<open>verifyCode\<close> accepts for that address exactly
  the code that was drawn, only with the same action and only until the configured expiry; the
  answers for every other address are unchanged. When it returns false, no code is stored.
\<close>

theorem sendVerifyCode_correct:
  assumes "codes_inv (vs_codes s)"
    and "sendVerifyCode curl config draws now to_email action s = (ok, s')"
  shows "verifyCode (vs_codes s') e a c t \<longleftrightarrow>
           (if ok \<and> e = to_email
            then a = action \<and> c = generateVerificationCode draws 6 \<and>
                 t \<le> now + seconds (vc_code_expiry config)
            else verifyCode (vs_codes s) e a c t)"
  using assms
  by (cases rule: sendVerifyCode_cases
      [of curl config draws now to_email action s])
    (auto simp: codes.check_issue)

definition demo_curl :: curl_lib where
  "demo_curl = \<lparr>curl_init = True, curl_calls = [(1, 4096)], curl_perform = (\<lambda>r. mr_rcpt r \<noteq> [])\<rparr>"

definition demo_state :: verify_state where
  "demo_state = \<lparr>vs_codes = [], vs_mail = \<lparr>ms_handles = 0, ms_slists = 0, ms_sent = []\<rparr>, vs_changes = (\<lambda>_. 0)\<rparr>"

lemma demo_send_accepted:
  "fst (sendVerifyCode demo_curl (m_verify default_config) draws now e a demo_state)"
  by (simp add: sendVerifyCode_def sendTextEmail_def demo_curl_def Let_def)

theorem sendVerifyCode_correct_witness:
  "verifyCode (vs_codes (snd (sendVerifyCode demo_curl (m_verify default_config) (\<lambda>_. 4) 100
     ''a@b.c'' ''register'' demo_state))) ''a@b.c'' ''register'' (generateVerificationCode (\<lambda>_. 4) 6) 100"
proof -
  obtain ok s' where r: "sendVerifyCode demo_curl (m_verify default_config) (\<lambda>_. 4) 100
      ''a@b.c'' ''register'' demo_state = (ok, s')" by fastforce
  have ok using demo_send_accepted [of "\<lambda>_. 4" 100 "''a@b.c''" "''register''"] r by simp
  have "codes_inv (vs_codes demo_state)" by (simp add: demo_state_def)
  from sendVerifyCode_correct [OF this r, of "''a@b.c''" "''register''" _ 100] \<open>ok\<close> r
  show ?thesis by (simp add: default_config_def seconds_def)
qed

text \<open>
  \<open>cleanupExpiredCodes\<close> removes exactly the expired entries, returns how many there were, keeps
  the keys distinct, and is invisible to \<open>verifyCode\<close>: a verification at the time of the sweep or
  later has the same answer with and without it.
\<close>

theorem cleanupExpiredCodes_correct:
  assumes "codes_inv m" and "cleanupExpiredCodes now m = (n, m')"
  shows "codes_inv m' \<and> set m' = {(e, i) \<in> set m. now \<le> vi_expire i} \<and>
         n + length m' = length m \<and>
         (\<forall>t \<ge> now. \<forall>e a c. verifyCode m' e a c t \<longleftrightarrow> verifyCode m e a c t)"
proof (intro conjI allI impI)
  have m': "m' = snd (cleanupExpiredCodes now m)" using assms(2) by simp
  show "codes_inv m'" unfolding m' using assms(1) by (rule codes.invar_sweep)
  show "verifyCode m' e a c t \<longleftrightarrow> verifyCode m e a c t" if "now \<le> t" for t e a c
    unfolding m' using assms(1) that by (rule codes.check_sweep)
  show "set m' = {(e, i) \<in> set m. now \<le> vi_expire i}"
    using assms(2) by (auto simp: cleanupExpiredCodes_def cleanup_loop_eq)
  show "n + length m' = length m"
    using assms(2) sum_length_filter_compl [of "\<lambda>x. vi_expire (snd x) < now" m]
    by (simp add: cleanupExpiredCodes_def cleanup_loop_eq)
qed

definition demo_info :: "int \<Rightarrow> verify_info" where
  "demo_info t = \<lparr>vi_code = ''123456'', vi_expire = t, vi_action = ''register''\<rparr>"

theorem cleanupExpiredCodes_correct_witness:
  "cleanupExpiredCodes 5 [(''a'', demo_info 3), (''b'', demo_info 9)] = (1, [(''b'', demo_info 9)]) \<and>
   codes_inv [(''b'', demo_info 9)]"
proof -
  have "cleanupExpiredCodes 5 [(''a'', demo_info 3), (''b'', demo_info 9)] =
      (1, [(''b'', demo_info 9)])"
    by (simp add: cleanupExpiredCodes_def demo_info_def)
  with cleanupExpiredCodes_correct [OF _ this] show ?thesis by simp
qed

end
