(* ===== verification/VerifyRace.thy ===== *)
theory VerifyRace
  imports VerifyService
begin

text \<open>
  \<open>verifyCode\<close> of \<open>src/server/VerifyService.cpp\<close> as several threads run it. The lookup holds the mutex,
  but the entry it found is read after the mutex is released, through a pointer into the map. The
  entries of the map are nodes of a heap here, so that a pointer can outlive its node: the sweep of
  the main thread erases nodes.
\<close>

text \<open>
  Where a thread is in \<open>verifyCode\<close>: with its arguments, the pointer it holds (the node, and how often
  this had been assigned to) and the time; \<open>Broken\<close>: it has read a node that was erased or assigned to.
\<close>

datatype verifier = Outside | Pointing string nat nat string string |
  Timed string nat nat string string int | Answered bool | Broken

record race =
  rc_node :: "nat \<Rightarrow> verify_info option"
  rc_stamp :: "nat \<Rightarrow> nat"
  rc_index :: "string \<Rightarrow> nat option"
  rc_next :: nat
  rc_thread :: "nat \<Rightarrow> verifier"

text \<open>
  \<open>Lookup t e a c\<close>: thread \<open>t\<close> calls \<open>verifyCode(e, a, c)\<close>; \<open>Clock t now\<close>: its \<open>system_clock::now()\<close>; \<open>Compare t\<close>:
  the last reading of its comparison.
\<close>

datatype race_label = Lookup nat string string string | Clock nat int | Compare nat | Leave nat
  | Store string verify_info | Sweep int

definition accepts :: "verify_info \<Rightarrow> string \<Rightarrow> string \<Rightarrow> int \<Rightarrow> bool" where
  "accepts info action code now \<longleftrightarrow>
     \<not> (vi_expire info < now \<or> vi_action info \<noteq> action \<or> vi_code info \<noteq> code)"

definition set_thread :: "nat \<Rightarrow> verifier \<Rightarrow> race \<Rightarrow> race" where
  "set_thread t v s = s\<lparr>rc_thread := (rc_thread s)(t := v)\<rparr>"

definition live_node :: "race \<Rightarrow> int \<Rightarrow> nat \<Rightarrow> bool" where
  "live_node s now n \<longleftrightarrow> (\<exists>i. rc_node s n = Some i \<and> \<not> vi_expire i < now)"

text \<open>
  \<open>m_codes[to_email] = info\<close> assigns to the node of the address, or makes a new one. \<open>Sweep\<close> is
  \<open>cleanupExpiredCodes\<close>, which erases the expired nodes under the mutex. The members are read one by one
  up to \<open>Compare\<close>; an assignment to the node, or its erasure, before that reading makes it undefined, as
  nothing orders the two. As long as there was none, all readings saw what the lookup found.
\<close>

inductive race_step :: "race \<Rightarrow> race_label \<Rightarrow> race \<Rightarrow> bool" where
  absent: "rc_thread s t = Outside \<Longrightarrow> rc_index s e = None \<Longrightarrow>
    race_step s (Lookup t e a c) (set_thread t (Answered False) s)"
| found: "rc_thread s t = Outside \<Longrightarrow> rc_index s e = Some n \<Longrightarrow>
    race_step s (Lookup t e a c) (set_thread t (Pointing e n (rc_stamp s n) a c) s)"
| clock: "rc_thread s t = Pointing e n v a c \<Longrightarrow> race_step s (Clock t now) (set_thread t (Timed e n v a c now) s)"
| compare: "rc_thread s t = Timed e n v a c now \<Longrightarrow> rc_node s n = Some i \<Longrightarrow> rc_stamp s n = v \<Longrightarrow>
    race_step s (Compare t) (set_thread t (Answered (accepts i a c now)) s)"
| broken: "rc_thread s t = Timed e n v a c now \<Longrightarrow> rc_node s n = None \<or> rc_stamp s n \<noteq> v \<Longrightarrow>
    race_step s (Compare t) (set_thread t Broken s)"
| leave: "rc_thread s t = Answered b \<Longrightarrow> race_step s (Leave t) (set_thread t Outside s)"
| assign: "rc_index s e = Some n \<Longrightarrow> race_step s (Store e i)
    (s\<lparr>rc_node := (rc_node s)(n \<mapsto> i), rc_stamp := (rc_stamp s)(n := Suc (rc_stamp s n))\<rparr>)"
| insert: "rc_index s e = None \<Longrightarrow>
    race_step s (Store e i) (s\<lparr>rc_node := (rc_node s)(rc_next s \<mapsto> i),
      rc_index := (rc_index s)(e \<mapsto> rc_next s), rc_next := Suc (rc_next s)\<rparr>)"
| sweep: "race_step s (Sweep now)
    (s\<lparr>rc_node := (\<lambda>n. if live_node s now n then rc_node s n else None),
       rc_index := (\<lambda>e. case rc_index s e of None \<Rightarrow> None
                    | Some n \<Rightarrow> if live_node s now n then Some n else None)\<rparr>)"

definition race_start :: race where
  "race_start = \<lparr>rc_node = Map.empty, rc_stamp = (\<lambda>_. 0), rc_index = Map.empty, rc_next = 0,
     rc_thread = (\<lambda>_. Outside)\<rparr>"

inductive race_run :: "race_label list \<Rightarrow> race \<Rightarrow> bool" where
  none: "race_run [] race_start"
| more: "race_run ls s \<Longrightarrow> race_step s l s' \<Longrightarrow> race_run (ls @ [l]) s'"

inductive_simps race_run_Nil: "race_run [] s"

lemma set_thread_simps [simp]:
  "rc_node (set_thread t v s) = rc_node s" "rc_index (set_thread t v s) = rc_index s"
  "rc_next (set_thread t v s) = rc_next s" "rc_stamp (set_thread t v s) = rc_stamp s"
  "rc_thread (set_thread t v s) = (rc_thread s)(t := v)"
  by (simp_all add: set_thread_def)

section \<open>The operations one after the other\<close>

text \<open>
  The specification: the store as \<open>VerifyService\<close> has it, when every operation runs alone.
\<close>

fun alone :: "race_label \<Rightarrow> codes \<Rightarrow> codes" where
  "alone (Store e i) m = AList.update e i m"
| "alone (Sweep now) m = snd (cleanupExpiredCodes now m)"
| "alone _ m = m"

definition contents :: "race_label list \<Rightarrow> codes" where
  "contents ls = fold alone ls []"

lemma contents_simps [simp]: "contents [] = []" "contents (ls @ [l]) = alone l (contents ls)"
  by (simp_all add: contents_def)

definition store_of :: "race \<Rightarrow> string \<Rightarrow> verify_info option" where
  "store_of s e = (case rc_index s e of None \<Rightarrow> None | Some n \<Rightarrow> rc_node s n)"

lemma store_of_set_thread [simp]: "store_of (set_thread t v s) = store_of s"
  by (simp add: fun_eq_iff store_of_def cong: option.case_cong)

lemma contents_inv: "codes_inv (contents ls)"
proof (induction ls rule: rev_induct)
  case (snoc l ls)
  then show ?case by (cases l) (simp_all add: codes.invar_issue codes.invar_sweep)
qed simp

lemma verifyCode_accepts:
  "map_of m e = Some i \<Longrightarrow> verifyCode m e a c now = accepts i a c now"
  "map_of m e = None \<Longrightarrow> \<not> verifyCode m e a c now"
  by (simp_all add: verifyCode_def accepts_def)

text \<open>The heap of nodes: every entry of the index has its node, below the next one to be made, and its own.\<close>

definition heap_ok :: "race \<Rightarrow> bool" where
  "heap_ok s \<longleftrightarrow> (\<forall>e n. rc_index s e = Some n \<longrightarrow> rc_node s n \<noteq> None \<and> n < rc_next s) \<and>
     (\<forall>e e' n. rc_index s e = Some n \<and> rc_index s e' = Some n \<longrightarrow> e = e')"

lemma heap_step: "race_step s l s' \<Longrightarrow> heap_ok s \<Longrightarrow> heap_ok s'"
  by (induction rule: race_step.induct)
    (fastforce simp: heap_ok_def live_node_def split: option.splits if_splits)+

text \<open>The store follows the specification: each step is its operation, at that moment.\<close>

lemma store_step:
  assumes "race_step s l s'" and "heap_ok s" and "store_of s = map_of (contents ls)"
  shows "store_of s' = map_of (contents (ls @ [l]))"
  using assms
proof (induction rule: race_step.induct)
  case (assign s e n i)
  have other: "rc_index s x \<noteq> Some n" if "x \<noteq> e" for x using assign that by (auto simp: heap_ok_def)
  let ?s = "s\<lparr>rc_node := (rc_node s)(n \<mapsto> i), rc_stamp := (rc_stamp s)(n := Suc (rc_stamp s n))\<rparr>"
  have "store_of ?s x = ((store_of s)(e \<mapsto> i)) x" for x
    using assign.hyps other [of x] by (cases "x = e"; cases "rc_index s x") (auto simp: store_of_def)
  then have "store_of ?s = (store_of s)(e \<mapsto> i)" ..
  with assign show ?case by (simp add: update_conv')
next
  case (insert s e i)
  have "rc_index s x \<noteq> Some (rc_next s)" for x using insert by (auto simp: heap_ok_def)
  then have "store_of (s\<lparr>rc_node := (rc_node s)(rc_next s \<mapsto> i), rc_index := (rc_index s)(e \<mapsto> rc_next s),
      rc_next := Suc (rc_next s)\<rparr>) = (store_of s)(e \<mapsto> i)"
    by (auto simp: fun_eq_iff store_of_def split: option.splits)
  with insert show ?case by (simp add: update_conv')
next
  case (sweep s now)
  let ?s = "s\<lparr>rc_node := (\<lambda>n. if live_node s now n then rc_node s n else None),
       rc_index := (\<lambda>e. case rc_index s e of None \<Rightarrow> None
                    | Some n \<Rightarrow> if live_node s now n then Some n else None)\<rparr>"
  have "store_of ?s e = (case store_of s e of None \<Rightarrow> None | Some i \<Rightarrow> if vi_expire i < now then None else Some i)" for e
    by (cases "rc_index s e") (auto simp: store_of_def live_node_def split: option.splits)
  then show ?case
    by (intro ext) (simp add: codes.entry_sweep [OF contents_inv] sweep.prems)
qed simp_all

section \<open>What a thread has called\<close>

text \<open>
  The last call of \<open>verifyCode\<close> by \<open>t\<close> in the history \<open>ls\<close> had these arguments; \<open>ps\<close> is what happened before
  it, and \<open>qs\<close> what happened after it.
\<close>

definition called :: "nat \<Rightarrow> string \<Rightarrow> string \<Rightarrow> string \<Rightarrow> race_label list \<Rightarrow> race_label list \<Rightarrow> race_label list \<Rightarrow> bool" where
  "called t e a c ls ps qs \<longleftrightarrow> ls = ps @ Lookup t e a c # qs \<and> (\<forall>e a c. Lookup t e a c \<notin> set qs)"

lemma called_snoc: "called t e a c ls ps qs \<Longrightarrow> (\<And>e a c. l \<noteq> Lookup t e a c) \<Longrightarrow> called t e a c (ls @ [l]) ps (qs @ [l])"
  by (auto simp: called_def)

lemma called_now: "called t e a c (ls @ [Lookup t e a c]) ls []"
  by (simp add: called_def)

text \<open>What can come between a lookup and its readings\<close>

definition disturbed :: "string \<Rightarrow> race_label list \<Rightarrow> bool" where
  "disturbed e qs \<longleftrightarrow> (\<exists>now. Sweep now \<in> set qs) \<or> (\<exists>i. Store e i \<in> set qs)"

lemma disturbed_snoc [simp]:
  "disturbed e (qs @ [l]) \<longleftrightarrow> disturbed e qs \<or> (\<exists>now. l = Sweep now) \<or> (\<exists>i. l = Store e i)"
  by (auto simp: disturbed_def)

text \<open>A pointer to the node \<open>n\<close> that was found with the content \<open>i\<close>\<close>

definition holds :: "race \<Rightarrow> string \<Rightarrow> nat \<Rightarrow> nat \<Rightarrow> verify_info \<Rightarrow> race_label list \<Rightarrow> bool" where
  "holds s e n v i qs \<longleftrightarrow> n < rc_next s \<and> v \<le> rc_stamp s n \<and>
     (if rc_node s n \<noteq> None \<and> rc_stamp s n = v then rc_index s e = Some n \<and> rc_node s n = Some i
      else disturbed e qs)"

lemma holds_step:
  assumes "race_step s l s'" and "heap_ok s" and "holds s e n v i qs"
  shows "holds s' e n v i (qs @ [l])"
  using assms
proof (induction rule: race_step.induct)
  case (assign s x m j)
  show ?case
  proof (cases "m = n")
    case True
    have "x = e" if "rc_index s e = Some n" using assign True that by (auto simp: heap_ok_def)
    moreover have "rc_node s n \<noteq> None" using assign True by (auto simp: heap_ok_def)
    ultimately show ?thesis using assign True by (auto simp: holds_def split: if_splits)
  qed (use assign in \<open>auto simp: holds_def split: if_splits\<close>)
next
  case (sweep s now)
  then show ?case by (auto simp: holds_def live_node_def split: if_splits)
qed (auto simp: holds_def split: if_splits)

text \<open>The entry that the call finds, when there is one, and the answer that it gives then\<close>

definition pointing :: "race_label list \<Rightarrow> race \<Rightarrow> nat \<Rightarrow> string \<Rightarrow> nat \<Rightarrow> nat \<Rightarrow> string \<Rightarrow> string \<Rightarrow>
    race_label list \<Rightarrow> race_label list \<Rightarrow> bool" where
  "pointing ls s t e n v a c ps qs \<longleftrightarrow> called t e a c ls ps qs \<and>
     (\<exists>i. map_of (contents ps) e = Some i \<and> holds s e n v i qs)"

definition answers :: "nat \<Rightarrow> bool \<Rightarrow> race_label list \<Rightarrow> bool" where
  "answers t b ls \<longleftrightarrow> (\<exists>e a c ps qs. called t e a c ls ps qs \<and>
     (map_of (contents ps) e = None \<and> \<not> b \<or>
      (\<exists>xs now ys zs. qs = xs @ Clock t now # ys @ Compare t # zs \<and> b = verifyCode (contents ps) e a c now \<and>
         b = verifyCode (contents (ps @ Lookup t e a c # xs @ Clock t now # ys)) e a c now)))"

lemma answers_absent: "called t e a c ls ps qs \<Longrightarrow> map_of (contents ps) e = None \<Longrightarrow> answers t False ls"
  unfolding answers_def by (intro exI [of _ e] exI [of _ a] exI [of _ c] exI [of _ ps] exI [of _ qs]) simp

definition breaks :: "nat \<Rightarrow> race_label list \<Rightarrow> bool" where
  "breaks t ls \<longleftrightarrow> (\<exists>e a c ps xs zs. called t e a c ls ps (xs @ Compare t # zs) \<and> disturbed e xs)"

fun thread_ok :: "race_label list \<Rightarrow> race \<Rightarrow> nat \<Rightarrow> verifier \<Rightarrow> bool" where
  "thread_ok ls s t Outside = True"
| "thread_ok ls s t (Pointing e n v a c) \<longleftrightarrow> (\<exists>ps qs. pointing ls s t e n v a c ps qs)"
| "thread_ok ls s t (Timed e n v a c now) \<longleftrightarrow> (\<exists>ps xs ys. pointing ls s t e n v a c ps (xs @ Clock t now # ys))"
| "thread_ok ls s t (Answered b) \<longleftrightarrow> answers t b ls"
| "thread_ok ls s t Broken \<longleftrightarrow> breaks t ls"

lemma pointing_step:
  assumes "pointing ls s t e n v a c ps qs" and "race_step s l s'" and "heap_ok s" and "\<And>e a c. l \<noteq> Lookup t e a c"
  shows "pointing (ls @ [l]) s' t e n v a c ps (qs @ [l])"
  using assms called_snoc holds_step unfolding pointing_def by blast

lemma answers_snoc:
  assumes "answers t b ls" and "\<And>e a c. l \<noteq> Lookup t e a c"
  shows "answers t b (ls @ [l])"
proof -
  obtain e a c ps qs where h: "called t e a c ls ps qs"
    "map_of (contents ps) e = None \<and> \<not> b \<or>
      (\<exists>xs now ys zs. qs = xs @ Clock t now # ys @ Compare t # zs \<and> b = verifyCode (contents ps) e a c now \<and>
         b = verifyCode (contents (ps @ Lookup t e a c # xs @ Clock t now # ys)) e a c now)"
    using assms(1) unfolding answers_def by blast
  note later = called_snoc [OF h(1) assms(2)]
  from h(2) show ?thesis
  proof (elim disjE exE conjE)
    fix xs now ys zs
    assume "qs = xs @ Clock t now # ys @ Compare t # zs" "b = verifyCode (contents ps) e a c now"
      "b = verifyCode (contents (ps @ Lookup t e a c # xs @ Clock t now # ys)) e a c now"
    with later show ?thesis unfolding answers_def by (metis append.assoc append_Cons)
  qed (use answers_absent [OF later] in simp)
qed

lemma thread_ok_other:
  assumes "thread_ok ls s t v" and "race_step s l s'" and "heap_ok s" and l: "\<And>e a c. l \<noteq> Lookup t e a c"
  shows "thread_ok (ls @ [l]) s' t v"
proof (cases v)
  case (Pointing e n w a c)
  then obtain ps qs where "pointing ls s t e n w a c ps qs" using assms(1) by auto
  from pointing_step [OF this assms(2,3) l] Pointing show ?thesis by auto
next
  case (Timed e n w a c now)
  then obtain ps xs ys where "pointing ls s t e n w a c ps (xs @ Clock t now # ys)" using assms(1) by auto
  from pointing_step [OF this assms(2,3) l] Timed show ?thesis by auto
next
  case Broken
  then obtain e a c ps xs zs where "called t e a c ls ps (xs @ Compare t # zs)" "disturbed e xs"
    using assms(1) by (auto simp: breaks_def)
  with called_snoc [OF this(1) l] have "called t e a c (ls @ [l]) ps (xs @ Compare t # (zs @ [l])) \<and> disturbed e xs" by simp
  then have "breaks t (ls @ [l])" unfolding breaks_def by blast
  then show ?thesis using Broken by simp
qed (use assms(1) answers_snoc [OF _ l] in auto)

lemma thread_ok_mine:
  assumes "thread_ok ls s t (rc_thread s t)" and "race_step s l s'" and "rc_thread s' t \<noteq> rc_thread s t"
    and heap: "heap_ok s" and store: "store_of s = map_of (contents ls)"
  shows "thread_ok (ls @ [l]) s' t (rc_thread s' t)"
  using assms(2,1,3-)
proof (cases rule: race_step.cases)
  case (absent u e a c)
  then have [simp]: "u = t" using assms(3) by (cases "u = t") simp_all
  have "map_of (contents ls) e = None" using absent by (simp add: store [symmetric] store_of_def)
  with answers_absent [OF called_now] have "answers t False (ls @ [l])" using absent by simp
  then show ?thesis using absent by simp
next
  case (found u e n a c)
  then have [simp]: "u = t" using assms(3) by (cases "u = t") simp_all
  obtain i where i: "n < rc_next s" "rc_node s n = Some i" using heap found unfolding heap_ok_def by blast
  then have "map_of (contents ls) e = Some i" using found by (simp add: store [symmetric] store_of_def)
  then have "pointing (ls @ [l]) s' t e n (rc_stamp s n) a c ls []"
    using called_now [of t e a c ls] found i by (simp add: pointing_def holds_def)
  then show ?thesis using found by auto
next
  case (clock u e n v a c now)
  then have [simp]: "u = t" using assms(3) by (cases "u = t") simp_all
  obtain ps qs where "pointing ls s t e n v a c ps qs" using assms(1) clock by auto
  then have "pointing (ls @ [l]) s' t e n v a c ps (qs @ [l])"
    by (rule pointing_step [OF _ assms(2) heap]) (use clock in simp)
  then show ?thesis using clock by auto
next
  case (compare u e n v a c now i)
  then have [simp]: "u = t" using assms(3) by (cases "u = t") simp_all
  obtain ps xs ys where p: "pointing ls s t e n v a c ps (xs @ Clock t now # ys)" using assms(1) compare by auto
  then have i: "map_of (contents ps) e = Some i" "rc_index s e = Some n"
    using compare by (auto simp: pointing_def holds_def)
  have now: "map_of (contents ls) e = Some i" using i(2) compare by (simp add: store [symmetric] store_of_def)
  have ls: "ls = ps @ Lookup t e a c # xs @ Clock t now # ys" using p by (simp add: pointing_def called_def)
  have "called t e a c (ls @ [l]) ps (xs @ Clock t now # ys @ Compare t # [])"
    using called_snoc [of t e a c ls ps "xs @ Clock t now # ys" l] p compare by (simp add: pointing_def)
  moreover have "accepts i a c now = verifyCode (contents ps) e a c now"
    "accepts i a c now = verifyCode (contents (ps @ Lookup t e a c # xs @ Clock t now # ys)) e a c now"
    using i(1) now ls by (simp_all add: verifyCode_accepts)
  ultimately have "answers t (accepts i a c now) (ls @ [l])" unfolding answers_def by blast
  then show ?thesis using compare by simp
next
  case (broken u e n v a c now)
  then have [simp]: "u = t" using assms(3) by (cases "u = t") simp_all
  obtain ps xs ys where p: "pointing ls s t e n v a c ps (xs @ Clock t now # ys)" using assms(1) broken by auto
  then have "disturbed e (xs @ Clock t now # ys)" using broken by (auto simp: pointing_def holds_def)
  moreover have "called t e a c (ls @ [l]) ps ((xs @ Clock t now # ys) @ Compare t # [])"
    using called_snoc [of t e a c ls ps "xs @ Clock t now # ys" l] p broken by (simp add: pointing_def)
  ultimately have "breaks t (ls @ [l])" unfolding breaks_def by blast
  then show ?thesis using broken by simp
next
  case (leave u b)
  then have [simp]: "u = t" using assms(3) by (cases "u = t") simp_all
  show ?thesis using leave by simp
qed simp_all

definition race_ok :: "race_label list \<Rightarrow> race \<Rightarrow> bool" where
  "race_ok ls s \<longleftrightarrow> heap_ok s \<and> store_of s = map_of (contents ls) \<and> (\<forall>t. thread_ok ls s t (rc_thread s t))"

lemma race_ok_step:
  assumes "race_step s l s'" and "race_ok ls s"
  shows "race_ok (ls @ [l]) s'"
proof -
  have heap: "heap_ok s" and store: "store_of s = map_of (contents ls)" and threads: "thread_ok ls s t (rc_thread s t)" for t
    using assms(2) by (simp_all add: race_ok_def)
  have "thread_ok (ls @ [l]) s' t (rc_thread s' t)" for t
  proof (cases "rc_thread s' t = rc_thread s t")
    case False
    with thread_ok_mine [OF threads assms(1) _ heap store] show ?thesis by simp
  next
    case True
    have "l \<noteq> Lookup t e a c" for e a c
      using assms(1) True by (cases rule: race_step.cases) auto
    with thread_ok_other [OF threads assms(1) heap] True show ?thesis by simp
  qed
  with heap_step [OF assms(1) heap] store_step [OF assms(1) heap store] show ?thesis by (simp add: race_ok_def)
qed

lemma race_run_ok: "race_run ls s \<Longrightarrow> race_ok ls s"
proof (induction rule: race_run.induct)
  case none
  show ?case by (simp add: race_ok_def heap_ok_def race_start_def fun_eq_iff store_of_def)
qed (rule race_ok_step)

lemma run_threads:
  assumes "race_run ls s"
  shows "rc_thread s t = Answered b \<Longrightarrow> answers t b ls" and "rc_thread s t = Broken \<Longrightarrow> breaks t ls"
  using race_run_ok [OF assms] by (auto simp: race_ok_def dest: spec [of _ t])

section \<open>Properties\<close>

text \<open>
  C34: the store is linearizable as far as nobody disturbs a check: whatever calls, sweeps and new codes
  interleave, its content is that of the operations of \<open>VerifyService\<close> running one after the other in the
  order in which they took the mutex; a call of \<open>verifyCode\<close> for an address without an entry answers
  false, and every other answer is, for the time that the thread read from its clock, both the one
  \<open>verifyCode\<close> would have given alone at its lookup and the one at the end of its comparison; and if the
  comparison is undefined, a sweep or the storing of a code for the same address came between the two.
\<close>

theorem verifyCode_linearizable:
  assumes "race_run ls s"
  shows "store_of s = map_of (contents ls) \<and>
    (\<forall>t b. rc_thread s t = Answered b \<longrightarrow> (\<exists>e a c ps qs.
       ls = ps @ Lookup t e a c # qs \<and> (\<forall>e a c. Lookup t e a c \<notin> set qs) \<and>
       (map_of (contents ps) e = None \<and> \<not> b \<or>
        (\<exists>xs now ys zs. qs = xs @ Clock t now # ys @ Compare t # zs \<and> b = verifyCode (contents ps) e a c now \<and>
           b = verifyCode (contents (ps @ Lookup t e a c # xs @ Clock t now # ys)) e a c now)))) \<and>
    (\<forall>t. rc_thread s t = Broken \<longrightarrow> (\<exists>e a c ps xs zs. ls = ps @ Lookup t e a c # xs @ Compare t # zs \<and>
       (\<forall>e a c. Lookup t e a c \<notin> set (xs @ zs)) \<and> ((\<exists>now. Sweep now \<in> set xs) \<or> (\<exists>i. Store e i \<in> set xs))))"
proof (intro conjI allI impI)
  show "store_of s = map_of (contents ls)" using race_run_ok [OF assms] by (simp add: race_ok_def)
next
  fix t b assume "rc_thread s t = Answered b"
  from run_threads(1) [OF assms this] show "\<exists>e a c ps qs.
       ls = ps @ Lookup t e a c # qs \<and> (\<forall>e a c. Lookup t e a c \<notin> set qs) \<and>
       (map_of (contents ps) e = None \<and> \<not> b \<or>
        (\<exists>xs now ys zs. qs = xs @ Clock t now # ys @ Compare t # zs \<and> b = verifyCode (contents ps) e a c now \<and>
           b = verifyCode (contents (ps @ Lookup t e a c # xs @ Clock t now # ys)) e a c now))"
    by (simp add: answers_def called_def conj_assoc)
next
  fix t assume "rc_thread s t = Broken"
  from run_threads(2) [OF assms this] obtain e a c ps xs zs where
    "called t e a c ls ps (xs @ Compare t # zs)" "disturbed e xs" by (auto simp: breaks_def)
  then show "\<exists>e a c ps xs zs. ls = ps @ Lookup t e a c # xs @ Compare t # zs \<and>
       (\<forall>e a c. Lookup t e a c \<notin> set (xs @ zs)) \<and> ((\<exists>now. Sweep now \<in> set xs) \<or> (\<exists>i. Store e i \<in> set xs))"
    by (intro exI [of _ e] exI [of _ a] exI [of _ c] exI [of _ ps] exI [of _ xs] exI [of _ zs])
      (simp add: called_def disturbed_def)
qed

text \<open>A code is stored, and a thread checks it in time.\<close>

definition demo_first :: verify_info where
  "demo_first = \<lparr>vi_code = ''111111'', vi_expire = 9, vi_action = ''register''\<rparr>"

definition demo_stored :: race where
  "demo_stored = race_start\<lparr>rc_node := [0 \<mapsto> demo_first], rc_index := [''a@b.cc'' \<mapsto> 0], rc_next := 1\<rparr>"

lemma demo_stored_run: "race_run [Store ''a@b.cc'' demo_first] demo_stored"
  using race_run.more [OF race_run.none race_step.insert [of race_start "''a@b.cc''" demo_first]]
  by (simp add: race_start_def demo_stored_def)

definition demo_history :: "race_label list" where
  "demo_history = [Store ''a@b.cc'' demo_first, Lookup 1 ''a@b.cc'' ''register'' ''111111'', Clock 1 5, Compare 1]"

theorem verifyCode_linearizable_witness:
  "\<exists>s e a c ps xs now ys zs. race_run demo_history s \<and> rc_thread s 1 = Answered True \<and>
     demo_history = ps @ Lookup 1 e a c # xs @ Clock 1 now # ys @ Compare 1 # zs \<and>
     verifyCode (contents ps) e a c now"
proof -
  let ?s2 = "set_thread 1 (Pointing ''a@b.cc'' 0 0 ''register'' ''111111'') demo_stored"
  let ?s3 = "set_thread 1 (Timed ''a@b.cc'' 0 0 ''register'' ''111111'' 5) ?s2"
  let ?s4 = "set_thread 1 (Answered (accepts demo_first ''register'' ''111111'' 5)) ?s3"
  have i: "rc_thread demo_stored 1 = Outside" "rc_index demo_stored ''a@b.cc'' = Some 0" "rc_stamp demo_stored 0 = 0"
    "rc_thread ?s2 1 = Pointing ''a@b.cc'' 0 0 ''register'' ''111111''"
    "rc_thread ?s3 1 = Timed ''a@b.cc'' 0 0 ''register'' ''111111'' 5"
    "rc_node ?s3 0 = Some demo_first" "rc_stamp ?s3 0 = 0"
    by (simp_all add: demo_stored_def race_start_def)
  note r2 = race_run.more [OF demo_stored_run race_step.found [OF i(1,2)], of "''register''" "''111111''", unfolded i(3)]
  note r3 = race_run.more [OF r2 race_step.clock [OF i(4)], of 5]
  have run: "race_run demo_history ?s4"
    using race_run.more [OF r3 race_step.compare [OF i(5-7)]] by (simp add: demo_history_def)
  have t: "rc_thread ?s4 1 = Answered True" by (simp add: accepts_def demo_first_def)
  from verifyCode_linearizable [OF run, THEN conjunct2, THEN conjunct1, rule_format, OF t]
  obtain e a c ps xs now ys zs where "demo_history = ps @ Lookup 1 e a c # xs @ Clock 1 now # ys @ Compare 1 # zs"
    "verifyCode (contents ps) e a c now" by (elim exE conjE disjE) simp_all
  with run t show ?thesis by metis
qed

text \<open>
  a check can be disturbed: a code is stored, a thread looks it up, the sweep erases it after it has
  expired, or another code for the address is stored, and the thread reads the erased or overwritten
  node, whatever it asked for.
\<close>

theorem verifyCode_use_after_free:
  assumes "vi_expire i < now"
  shows "(\<exists>s. race_run [Store e i, Lookup t e a c, Sweep now, Clock t later, Compare t] s \<and> rc_thread s t = Broken) \<and>
    (\<exists>s. race_run [Store e i, Lookup t e a c, Store e i', Clock t later, Compare t] s \<and> rc_thread s t = Broken)"
proof
  let ?s1 = "race_start\<lparr>rc_node := (rc_node race_start)(rc_next race_start \<mapsto> i),
      rc_index := (rc_index race_start)(e \<mapsto> rc_next race_start), rc_next := Suc (rc_next race_start)\<rparr>"
  let ?s2 = "set_thread t (Pointing e 0 0 a c) ?s1"
  let ?s3 = "?s2\<lparr>rc_node := (\<lambda>n. if live_node ?s2 now n then rc_node ?s2 n else None),
       rc_index := (\<lambda>e. case rc_index ?s2 e of None \<Rightarrow> None
                    | Some n \<Rightarrow> if live_node ?s2 now n then Some n else None)\<rparr>"
  let ?u3 = "?s2\<lparr>rc_node := (rc_node ?s2)(0 \<mapsto> i'), rc_stamp := (rc_stamp ?s2)(0 := Suc (rc_stamp ?s2 0))\<rparr>"
  have r1: "race_run [Store e i] ?s1"
    using race_run.more [OF race_run.none race_step.insert [of race_start e i]]
    by (simp add: race_start_def)
  have r2: "race_run [Store e i, Lookup t e a c] ?s2"
    using race_run.more [OF r1 race_step.found [of ?s1 t e 0 a c]]
    by (simp add: race_start_def)
  have r3: "race_run [Store e i, Lookup t e a c, Sweep now] ?s3"
    using race_run.more [OF r2 race_step.sweep [of ?s2 now]] by simp
  have u3: "race_run [Store e i, Lookup t e a c, Store e i'] ?u3"
    using race_run.more [OF r2 race_step.assign [of ?s2 e 0 i']] by (simp add: race_start_def)
  have finish: "race_run (ls @ [Clock t later, Compare t]) (set_thread t Broken (set_thread t (Timed e 0 0 a c later) s))"
    if "race_run ls s" "rc_thread s t = Pointing e 0 0 a c" "rc_node s 0 = None \<or> rc_stamp s 0 \<noteq> 0" for ls s
  proof -
    from race_run.more [OF that(1) race_step.clock [OF that(2)]]
    have "race_run (ls @ [Clock t later]) (set_thread t (Timed e 0 0 a c later) s)" .
    from race_run.more [OF this race_step.broken [of _ t e 0 0 a c later]] that(3) show ?thesis by simp
  qed
  have "race_run ([Store e i, Lookup t e a c, Sweep now] @ [Clock t later, Compare t])
      (set_thread t Broken (set_thread t (Timed e 0 0 a c later) ?s3))"
    by (rule finish [OF r3]) (use assms in \<open>simp_all add: live_node_def race_start_def\<close>)
  then show "\<exists>s. race_run [Store e i, Lookup t e a c, Sweep now, Clock t later, Compare t] s \<and> rc_thread s t = Broken"
    by (intro exI conjI) (simp, simp)
  have "race_run ([Store e i, Lookup t e a c, Store e i'] @ [Clock t later, Compare t])
      (set_thread t Broken (set_thread t (Timed e 0 0 a c later) ?u3))"
    by (rule finish [OF u3]) simp_all
  then show "\<exists>s. race_run [Store e i, Lookup t e a c, Store e i', Clock t later, Compare t] s \<and> rc_thread s t = Broken"
    by (intro exI conjI) (simp, simp)
qed

theorem verifyCode_use_after_free_witness:
  "\<exists>s. race_run [Store ''a@b.cc'' demo_first, Lookup 1 ''a@b.cc'' ''register'' ''111111'', Sweep 10, Clock 1 11, Compare 1] s \<and>
     rc_thread s 1 = Broken"
  using verifyCode_use_after_free [of demo_first 10 "''a@b.cc''" 1 "''register''" "''111111''" 11]
  by (simp add: demo_first_def)

end
