(* ===== verification/ConnPool.thy ===== *)
theory ConnPool
  imports Prelude
begin

text \<open>
  \<open>src/database/DBManager.cpp\<close>: the pool of database connections. The first part models its
  operations as functions on the deque; the second models the threads that compete for it, with the
  mutex and the condition variable: every section that holds the mutex is one step.

  A connection is an object with an identity and a flag that says whether statements on it can
  reach the server with the schema selected. The driver is a parameter: which connection attempts
  succeed, which connections answer \<open>isValid()\<close>, which \<open>reconnect()\<close>/\<open>setSchema()\<close> succeed.
\<close>

record conn =
  c_id :: nat
  c_live :: bool

record driver =
  dr_connect :: "nat \<Rightarrow> bool"
  dr_valid :: "nat \<Rightarrow> nat \<Rightarrow> bool"
  dr_reconnect :: "nat \<Rightarrow> nat \<Rightarrow> bool"

section \<open>The operations\<close>

text \<open>
  The loop of the constructor. An \<open>SQLException\<close> of the \<open>i\<close>-th attempt leaves the loop and is only
  logged: the connections made so far stay in the pool.
\<close>

fun fill_pool :: "driver \<Rightarrow> nat \<Rightarrow> nat \<Rightarrow> conn list" where
  "fill_pool dr i 0 = []"
| "fill_pool dr i (Suc n) =
     (if dr_connect dr i then \<lparr>c_id = i, c_live = True\<rparr> # fill_pool dr (Suc i) n else [])"

definition new_pool :: "driver \<Rightarrow> nat \<Rightarrow> conn list" where
  "new_pool dr pool_size = fill_pool dr 0 pool_size"

text \<open>\<open>DBManager::init\<close> and \<open>DBManager::getInstance\<close>\<close>

definition init_instance :: "driver \<Rightarrow> nat \<Rightarrow> conn list option \<Rightarrow> conn list option" where
  "init_instance dr pool_size inst =
     (case inst of None \<Rightarrow> Some (new_pool dr pool_size) | Some p \<Rightarrow> Some p)"

definition get_instance :: "conn list option \<Rightarrow> conn list outcome" where
  "get_instance inst =
     (case inst of
        None \<Rightarrow> Raised (StdException ''DBManager not initialized'')
      | Some p \<Rightarrow> Ok p)"

text \<open>
  The check after the pop: a connection that does not answer is reconnected; a failure to do so is
  only logged, and the connection is handed out as it is. \<open>k\<close> tells apart the uses of the driver.
\<close>

definition refresh :: "driver \<Rightarrow> nat \<Rightarrow> conn \<Rightarrow> conn" where
  "refresh dr k c =
     (if dr_valid dr k (c_id c) then c else c\<lparr>c_live := dr_reconnect dr k (c_id c)\<rparr>)"

text \<open>\<open>getConnection\<close> with nobody to release a connection during the wait: \<open>None\<close> is \<open>nullptr\<close>.\<close>

definition getConnection :: "driver \<Rightarrow> nat \<Rightarrow> conn list \<Rightarrow> conn option \<times> conn list" where
  "getConnection dr k m_connections =
     (case m_connections of
        [] \<Rightarrow> (None, [])
      | c # rest \<Rightarrow> (Some (refresh dr k c), rest))"

definition releaseConnection :: "conn \<Rightarrow> conn list \<Rightarrow> conn list" where
  "releaseConnection c m_connections = m_connections @ [c]"

definition available :: "conn list \<Rightarrow> nat" where
  "available m_connections = length m_connections"

section \<open>The contract of a pool of resources\<close>

text \<open>
  What \<open>SqlConnGuard\<close> relies on, over any representation \<open>'p\<close> of the pool: \<open>ids\<close> are the resources
  in it, in the order in which they will be handed out.
\<close>

locale resource_pool =
  fixes take :: "'p \<Rightarrow> 'c option \<times> 'p"
    and give :: "'c \<Rightarrow> 'p \<Rightarrow> 'p"
    and ids :: "'p \<Rightarrow> nat list"
    and res_id :: "'c \<Rightarrow> nat"
  assumes take_empty: "ids p = [] \<Longrightarrow> take p = (None, p)"
    and take_next: "ids p = i # is \<Longrightarrow> \<exists>c p'. take p = (Some c, p') \<and> res_id c = i \<and> ids p' = is"
    and ids_give: "ids (give c p) = ids p @ [res_id c]"
begin

lemma take_Some:
  assumes "take p = (Some c, p')"
  shows "ids p = res_id c # ids p'"
proof (cases "ids p")
  case Nil
  with assms show ?thesis by (simp add: take_empty)
next
  case (Cons i "is")
  with take_next [OF Cons] assms show ?thesis by auto
qed

lemma take_None_iff: "fst (take p) = None \<longleftrightarrow> ids p = []"
  using take_next by (cases "ids p") (fastforce simp: take_empty)+

text \<open>Using one resource and giving it back rotates the pool, whatever happened to the resource.\<close>

lemma take_give:
  "take p = (Some c, p') \<Longrightarrow> ids p'' = ids p' \<Longrightarrow> res_id c' = res_id c \<Longrightarrow>
   ids (give c' p'') = rotate1 (ids p)"
  by (simp add: take_Some ids_give)

end

abbreviation pool_ids :: "conn list \<Rightarrow> nat list" where
  "pool_ids p \<equiv> map c_id p"

lemma c_id_refresh [simp]: "c_id (refresh dr k c) = c_id c"
  by (simp add: refresh_def)

interpretation pool: resource_pool "getConnection dr k" releaseConnection pool_ids c_id
  for dr k
proof unfold_locales
  show "pool_ids p = [] \<Longrightarrow> getConnection dr k p = (None, p)" for p
    by (simp add: getConnection_def)
  show "pool_ids p = i # is \<Longrightarrow>
      \<exists>c p'. getConnection dr k p = (Some c, p') \<and> c_id c = i \<and> pool_ids p' = is" for p i "is"
    by (cases p) (auto simp: getConnection_def)
  show "pool_ids (releaseConnection c p) = pool_ids p @ [c_id c]" for c p
    by (simp add: releaseConnection_def)
qed

lemma refresh_live:
  "c_live (refresh dr k c) \<longleftrightarrow>
     (if dr_valid dr k (c_id c) then c_live c else dr_reconnect dr k (c_id c))"
  by (simp add: refresh_def)

lemma fill_pool_ids:
  "\<exists>m \<le> n. map c_id (fill_pool dr i n) = [i ..< i + m] \<and>
     (\<forall>j. i \<le> j \<and> j < i + m \<longrightarrow> dr_connect dr j) \<and> (m < n \<longrightarrow> \<not> dr_connect dr (i + m))"
proof (induction n arbitrary: i)
  case 0
  show ?case by (auto dest: leD)
next
  case (Suc n)
  show ?case
  proof (cases "dr_connect dr i")
    case True
    obtain m where "m \<le> n" "map c_id (fill_pool dr (Suc i) n) = [Suc i ..< Suc i + m]"
      "\<forall>j. Suc i \<le> j \<and> j < Suc i + m \<longrightarrow> dr_connect dr j" "m < n \<longrightarrow> \<not> dr_connect dr (Suc i + m)"
      using Suc.IH [of "Suc i"] by blast
    with True show ?thesis
      by (intro exI [of _ "Suc m"]) (auto simp: upt_conv_Cons less_Suc_eq_le Suc_le_eq
          dest: le_neq_implies_less)
  next
    case False
    have "\<forall>j. i \<le> j \<and> j < i + 0 \<longrightarrow> dr_connect dr j" using leD by fastforce
    with False show ?thesis by (intro exI [of _ 0]) simp
  qed
qed

section \<open>Threads that compete for the pool\<close>

text \<open>
  Where a thread is: not in a data access object, inside \<open>wait_for\<close>, past \<open>getConnection\<close> with a
  connection, or past it with \<open>nullptr\<close>.
\<close>

datatype thread = Idle | Waiting | Using conn | NullConn

record pool_sys =
  ps_free :: "conn list"
  ps_thread :: "nat \<Rightarrow> thread"

datatype pool_label = Take nat | Block nat | Wake nat | Timeout nat | Give nat | Return nat

text \<open>
  \<open>wait_for\<close> with a predicate returns when the predicate holds (\<open>Wake\<close>) or when the time is up;
  the code then looks at the deque again, so that a late connection is still taken (\<open>Wake\<close>) and
  \<open>nullptr\<close> is returned only when the deque is empty (\<open>Timeout\<close>). A null guard releases nothing.
\<close>

inductive pool_step :: "driver \<Rightarrow> pool_sys \<Rightarrow> pool_label \<Rightarrow> pool_sys \<Rightarrow> bool" for dr where
  take: "ps_thread s t = Idle \<Longrightarrow> ps_free s = c # cs \<Longrightarrow>
    pool_step dr s (Take t)
      (s\<lparr>ps_free := cs, ps_thread := (ps_thread s)(t := Using (refresh dr k c))\<rparr>)"
| block: "ps_thread s t = Idle \<Longrightarrow> ps_free s = [] \<Longrightarrow>
    pool_step dr s (Block t) (s\<lparr>ps_thread := (ps_thread s)(t := Waiting)\<rparr>)"
| wake: "ps_thread s t = Waiting \<Longrightarrow> ps_free s = c # cs \<Longrightarrow>
    pool_step dr s (Wake t)
      (s\<lparr>ps_free := cs, ps_thread := (ps_thread s)(t := Using (refresh dr k c))\<rparr>)"
| timeout: "ps_thread s t = Waiting \<Longrightarrow> ps_free s = [] \<Longrightarrow>
    pool_step dr s (Timeout t) (s\<lparr>ps_thread := (ps_thread s)(t := NullConn)\<rparr>)"
| give: "ps_thread s t = Using c \<Longrightarrow>
    pool_step dr s (Give t)
      (s\<lparr>ps_free := releaseConnection c (ps_free s), ps_thread := (ps_thread s)(t := Idle)\<rparr>)"
| return: "ps_thread s t = NullConn \<Longrightarrow>
    pool_step dr s (Return t) (s\<lparr>ps_thread := (ps_thread s)(t := Idle)\<rparr>)"

inductive_cases pool_step_TimeoutE: "pool_step dr s (Timeout t) s'"
inductive_simps pool_step_Wake: "pool_step dr s (Wake t) s'"

inductive pool_reach :: "driver \<Rightarrow> nat \<Rightarrow> pool_sys \<Rightarrow> bool" for dr n where
  start: "pool_reach dr n \<lparr>ps_free = new_pool dr n, ps_thread = (\<lambda>_. Idle)\<rparr>"
| step: "pool_reach dr n s \<Longrightarrow> pool_step dr s l s' \<Longrightarrow> pool_reach dr n s'"

text \<open>Which connection a thread uses.\<close>

definition uses :: "pool_sys \<Rightarrow> nat \<Rightarrow> nat option" where
  "uses s t = (case ps_thread s t of Using c \<Rightarrow> Some (c_id c) | _ \<Rightarrow> None)"

text \<open>
  The invariant, over the identities of the free connections and the users: the free connections
  are distinct, a connection in use is not free and has one user, nothing is lost or invented.
\<close>

definition pool_ok :: "nat list \<Rightarrow> nat list \<Rightarrow> (nat \<Rightarrow> nat option) \<Rightarrow> bool" where
  "pool_ok all F U \<longleftrightarrow>
     distinct F \<and> (\<forall>t i. U t = Some i \<longrightarrow> i \<notin> set F) \<and>
     (\<forall>t u i. U t = Some i \<and> U u = Some i \<longrightarrow> t = u) \<and> set F \<union> ran U = set all"

lemma pool_ok_take: "pool_ok all (i # F) U \<Longrightarrow> U t = None \<Longrightarrow> pool_ok all F (U(t \<mapsto> i))"
  by (auto simp: pool_ok_def)

lemma pool_ok_give:
  assumes "pool_ok all F U" and "U t = Some i"
  shows "pool_ok all (F @ [i]) (U(t := None))"
proof -
  have "ran U = insert i (ran (U(t := None)))"
  proof (intro set_eqI iffI)
    fix x assume "x \<in> ran U"
    then obtain a where a: "U a = Some x" by (auto simp: ran_def)
    show "x \<in> insert i (ran (U(t := None)))"
    proof (cases "a = t")
      case False
      with a have "(U(t := None)) a = Some x" by simp
      then show ?thesis by (blast intro: ranI)
    qed (use a assms(2) in simp)
  qed (use assms(2) in \<open>auto simp: ran_def split: if_splits\<close>)
  with assms show ?thesis by (auto simp: pool_ok_def)
qed

lemma uses_update [simp]:
  "uses (s\<lparr>ps_free := fr, ps_thread := (ps_thread s)(t := st)\<rparr>) =
     (uses s)(t := (case st of Using c \<Rightarrow> Some (c_id c) | _ \<Rightarrow> None))"
  "uses (s\<lparr>ps_thread := (ps_thread s)(t := st)\<rparr>) =
     (uses s)(t := (case st of Using c \<Rightarrow> Some (c_id c) | _ \<Rightarrow> None))"
  by (auto simp: uses_def)

lemma uses_None: "ps_thread s t \<in> {Idle, Waiting, NullConn} \<Longrightarrow> uses s t = None"
  by (auto simp: uses_def)

lemma uses_None_upd: "uses s t = None \<Longrightarrow> (uses s)(t := None) = uses s"
  by (simp add: fun_upd_idem)

definition pool_inv :: "nat list \<Rightarrow> pool_sys \<Rightarrow> bool" where
  "pool_inv all s \<longleftrightarrow> pool_ok all (pool_ids (ps_free s)) (uses s)"

lemma pool_step_inv: "pool_step dr s l s' \<Longrightarrow> pool_inv all s \<Longrightarrow> pool_inv all s'"
proof (induction rule: pool_step.induct)
  case (give s t c)
  then have "uses s t = Some (c_id c)" by (simp add: uses_def)
  with give(2) show ?case by (simp add: pool_inv_def releaseConnection_def pool_ok_give)
qed (simp_all add: pool_inv_def pool_ok_take uses_None uses_None_upd)

lemma new_pool_distinct: "distinct (pool_ids (new_pool dr n))"
  using fill_pool_ids [of n dr 0] by (auto simp: new_pool_def)

lemma pool_reach_inv: "pool_reach dr n s \<Longrightarrow> pool_inv (pool_ids (new_pool dr n)) s"
proof (induction rule: pool_reach.induct)
  case start
  have "uses \<lparr>ps_free = new_pool dr n, ps_thread = (\<lambda>_. Idle)\<rparr> = Map.empty"
    by (rule ext) (simp add: uses_def)
  then show ?case by (simp add: pool_inv_def pool_ok_def new_pool_distinct)
next
  case (step s l s')
  then show ?case by (blast intro: pool_step_inv)
qed

section \<open>Properties\<close>

text \<open>
  C22: mutual exclusion of connections. In every state that any number of threads can reach, a
  connection is used by at most one thread and is then not in the pool, and the connections in the
  pool together with those in use are exactly the ones that the constructor made.
\<close>

theorem pool_exclusive:
  assumes "pool_reach dr n s"
  shows "(ps_thread s t = Using c \<and> ps_thread s u = Using d \<and> c_id c = c_id d \<longrightarrow> t = u) \<and>
         (ps_thread s t = Using c \<longrightarrow> c_id c \<notin> set (pool_ids (ps_free s))) \<and>
         set (pool_ids (ps_free s)) \<union> ran (uses s) = set (pool_ids (new_pool dr n))"
proof -
  have use: "uses s v = Some (c_id e)" if "ps_thread s v = Using e" for v e
    using that by (simp add: uses_def)
  from pool_reach_inv [OF assms] show ?thesis
    unfolding pool_inv_def pool_ok_def using use by metis
qed

definition demo_driver :: driver where
  "demo_driver = \<lparr>dr_connect = (\<lambda>i. i < 2), dr_valid = (\<lambda>k i. True), dr_reconnect = (\<lambda>k i. True)\<rparr>"

lemma demo_pool:
  "new_pool demo_driver 2 = [\<lparr>c_id = 0, c_live = True\<rparr>, \<lparr>c_id = 1, c_live = True\<rparr>]"
  by (simp add: new_pool_def demo_driver_def numeral_2_eq_2)

lemma demo_reach:
  "pool_reach demo_driver 2 \<lparr>ps_free = [\<lparr>c_id = 1, c_live = True\<rparr>],
     ps_thread = (\<lambda>_. Idle)(7 := Using \<lparr>c_id = 0, c_live = True\<rparr>)\<rparr>"
proof -
  let ?s = "\<lparr>ps_free = new_pool demo_driver 2, ps_thread = (\<lambda>_. Idle)\<rparr>"
  have r: "refresh demo_driver 0 \<lparr>c_id = 0, c_live = True\<rparr> = \<lparr>c_id = 0, c_live = True\<rparr>"
    by (simp add: refresh_def demo_driver_def)
  have "pool_step demo_driver ?s (Take 7) (?s\<lparr>ps_free := [\<lparr>c_id = 1, c_live = True\<rparr>],
      ps_thread := (ps_thread ?s)(7 := Using (refresh demo_driver 0 \<lparr>c_id = 0, c_live = True\<rparr>))\<rparr>)"
    by (rule pool_step.take) (simp_all add: demo_pool)
  with pool_reach.start [of demo_driver 2] show ?thesis
    unfolding r by (auto dest: pool_reach.step)
qed

theorem pool_exclusive_witness:
  "(0 :: nat) \<notin> set (pool_ids [\<lparr>c_id = 1, c_live = True\<rparr>])"
  using pool_exclusive [OF demo_reach, of 7 "\<lparr>c_id = 0, c_live = True\<rparr>"] by simp

text \<open>
  a thread gets \<open>nullptr\<close> only when no connection could be had: at the moment of the timeout
  every connection of the pool is in use by some other thread; as soon as one is in the deque, a
  waiting thread can take it.
\<close>

theorem pool_timeout_justified:
  assumes "pool_reach dr n s"
  shows "(pool_step dr s (Timeout t) s' \<longrightarrow>
            (\<forall>i \<in> set (pool_ids (new_pool dr n)). \<exists>u. u \<noteq> t \<and> uses s u = Some i)) \<and>
         (ps_thread s t = Waiting \<and> ps_free s \<noteq> [] \<longrightarrow> (\<exists>s''. pool_step dr s (Wake t) s''))"
proof (intro conjI impI)
  assume "pool_step dr s (Timeout t) s'"
  then have "ps_thread s t = Waiting" "ps_free s = []" by (auto elim: pool_step_TimeoutE)
  with pool_reach_inv [OF assms] have "uses s t = None"
    and "ran (uses s) = set (pool_ids (new_pool dr n))"
    by (simp_all add: uses_None pool_inv_def pool_ok_def)
  note free = this
  show "\<forall>i \<in> set (pool_ids (new_pool dr n)). \<exists>u. u \<noteq> t \<and> uses s u = Some i"
  proof
    fix i assume "i \<in> set (pool_ids (new_pool dr n))"
    with free(2) have "i \<in> ran (uses s)" by simp
    then obtain u where "uses s u = Some i" by (auto simp: ran_def)
    with free(1) show "\<exists>u. u \<noteq> t \<and> uses s u = Some i" by (intro exI [of _ u]) auto
  qed
next
  assume w: "ps_thread s t = Waiting \<and> ps_free s \<noteq> []"
  then obtain c cs where "ps_free s = c # cs" by (auto simp: neq_Nil_conv)
  with w show "\<exists>s''. pool_step dr s (Wake t) s''" by (blast intro: pool_step.wake)
qed

theorem pool_timeout_justified_witness:
  "\<not> (\<exists>s''. pool_step demo_driver \<lparr>ps_free = new_pool demo_driver 2, ps_thread = (\<lambda>_. Idle)\<rparr>
      (Timeout 0) s'')"
proof
  let ?s = "\<lparr>ps_free = new_pool demo_driver 2, ps_thread = (\<lambda>_. Idle)\<rparr>"
  assume "\<exists>s''. pool_step demo_driver ?s (Timeout 0) s''"
  then obtain s'' where step: "pool_step demo_driver ?s (Timeout 0) s''" by blast
  have "\<forall>i \<in> set (pool_ids (new_pool demo_driver 2)). \<exists>u. u \<noteq> 0 \<and> uses ?s u = Some i"
    using pool_timeout_justified [OF pool_reach.start, of demo_driver 2 0 s''] step by blast
  moreover have "0 \<in> set (pool_ids (new_pool demo_driver 2))" by (simp add: demo_pool)
  ultimately show False by (auto simp: uses_def)
qed

end
