(* ===== verification/Tables.thy ===== *)
theory Tables
  imports ConnPool CStrings "HOL-Library.Multiset"
begin

text \<open>
  The tables of \<open>sql/MusicPlayer.sql\<close> and what the SQL statements in the data access objects do to
  them. Every statement of the three classes is one definition here, over the four tables, with the
  constraints of the schema: column widths, \<open>UNIQUE\<close> keys, foreign keys with \<open>ON DELETE CASCADE\<close>,
  \<open>AUTO_INCREMENT\<close>, \<open>ON UPDATE CURRENT_TIMESTAMP\<close>.

  What SQL leaves to the server and its configuration is a parameter (\<open>server\<close>): the collation,
  which texts a column accepts, the order in which unordered rows come back, the clock, which calls
  fail, what \<open>executeUpdate\<close> counts.
\<close>

section \<open>Tables\<close>

record user_row =
  ur_id :: int
  ur_username :: string
  ur_passwd_hash :: string
  ur_email :: string
  ur_qq_id :: "string option"
  ur_netease_id :: "string option"
  ur_create_at :: nat
  ur_update_at :: nat

record playlist_row =
  pr_id :: int
  pr_user_id :: int
  pr_name :: string
  pr_cover :: "string option"
  pr_create_at :: nat
  pr_update_at :: nat

record song_row =
  sr_id :: int
  sr_playlist_id :: int
  sr_song_id :: string
  sr_song_name :: string
  sr_song_singer :: string
  sr_song_pic :: "string option"
  sr_song_where :: string
  sr_added_at :: nat

record history_row =
  hr_id :: int
  hr_user_id :: int
  hr_song_id :: string
  hr_song_name :: string
  hr_song_singer :: string
  hr_song_pic :: "string option"
  hr_song_where :: string
  hr_song_count :: int
  hr_played_at :: nat

text \<open>\<open>ai_...\<close> are the \<open>AUTO_INCREMENT\<close> counters, \<open>last_insert\<close> is \<open>LAST_INSERT_ID()\<close> of a connection.\<close>

record db =
  users :: "user_row list"
  playlists :: "playlist_row list"
  playlist_songs :: "song_row list"
  play_history :: "history_row list"
  ai_users :: int
  ai_playlists :: int
  ai_songs :: int
  ai_history :: int
  last_insert :: "nat \<Rightarrow> int"

definition empty_db :: db where
  "empty_db =
     \<lparr>users = [], playlists = [], playlist_songs = [], play_history = [], ai_users = 1,
      ai_playlists = 1, ai_songs = 1, ai_history = 1, last_insert = (\<lambda>_. 0)\<rparr>"

text \<open>The two values of the column type \<open>ENUM('QQ','NetEase')\<close>, also in \<open>common/constants.h\<close>\<close>

definition song_sources :: "string list" where
  "song_sources = [''QQ'', ''NetEase'']"

section \<open>The server\<close>

datatype sql_error =
    Duplicate_entry
  | Data_too_long
  | Data_truncated
  | Column_count
  | No_referenced_row
  | Autoinc_failed
  | Wrong_arguments
  | Not_implemented

text \<open>
  How a call fails for reasons outside the statement: not at all, before the server ran it, or
  after it (the reply is lost).
\<close>

datatype fault = NoFault | FailBefore | FailAfter

text \<open>
  The calls are numbered. \<open>my_key\<close> is the collation: two texts are equal for the server when their
  keys are. \<open>my_fits n s\<close>: a \<open>VARCHAR(n)\<close> column accepts \<open>s\<close> and stores it as it is (in strict mode, the
  default, any other value is an error; that MySQL cuts off spaces in excess at the end of a text is
  not modelled). \<open>my_scan k n\<close> is the order in which call \<open>k\<close> visits a table of \<open>n\<close> rows.
  \<open>my_burn\<close>: a failed insert uses up an identifier. \<open>my_found_rows\<close>: \<open>executeUpdate\<close> counts matching
  rows instead of changed ones. \<open>my_text_query\<close>: the driver implements
  \<open>PreparedStatement::executeQuery(text)\<close>. \<open>my_sum_int\<close> is \<open>getInt\<close> of a decimal sum.
  \<open>my_since k d\<close> is \<open>NOW() - INTERVAL d DAY\<close>, \<open>None\<close> when it is \<open>NULL\<close>. \<open>my_neg_limit\<close>: a negative
  number in a \<open>LIMIT\<close> clause is read as a large unsigned one instead of being refused.
\<close>

record server =
  my_driver :: driver
  my_key :: "string \<Rightarrow> string"
  my_fits :: "nat \<Rightarrow> string \<Rightarrow> bool"
  my_scan :: "nat \<Rightarrow> nat \<Rightarrow> nat list"
  my_now :: "nat \<Rightarrow> nat"
  my_ts :: "nat \<Rightarrow> string"
  my_fault :: "nat \<Rightarrow> fault"
  my_burn :: bool
  my_found_rows :: bool
  my_text_query :: bool
  my_sum_int :: "int \<Rightarrow> int"
  my_since :: "nat \<Rightarrow> int \<Rightarrow> int option"
  my_neg_limit :: bool

definition same :: "server \<Rightarrow> string \<Rightarrow> string \<Rightarrow> bool" where
  "same srv a b \<longleftrightarrow> my_key srv a = my_key srv b"

definition fits_opt :: "server \<Rightarrow> nat \<Rightarrow> string option \<Rightarrow> bool" where
  "fits_opt srv n v = (case v of None \<Rightarrow> True | Some s \<Rightarrow> my_fits srv n s)"

text \<open>The largest \<open>INT\<close>\<close>

definition max_int :: int where
  "max_int = 2147483647"

text \<open>Reading a table: all its rows, in an order that the server chooses.\<close>

definition scan :: "server \<Rightarrow> nat \<Rightarrow> 'r list \<Rightarrow> 'r list" where
  "scan srv k rows =
     (let p = my_scan srv k (length rows) in
      if sort p = [0 ..< length rows] then map ((!) rows) p else rows)"

text \<open>
  A text as a member of the \<open>ENUM\<close>; that MySQL also takes the index of a member, as \<open>'1'\<close>, for it is not
  modelled; no code under \<open>src/\<close> passes one.
\<close>

definition enum_value :: "server \<Rightarrow> string \<Rightarrow> string option" where
  "enum_value srv s = find (\<lambda>m. same srv m s) song_sources"

definition burn :: "server \<Rightarrow> int" where
  "burn srv = (if my_burn srv then 1 else 0)"

text \<open>A statement run as call \<open>k\<close>: an error or a result, and the tables after it.\<close>

type_synonym 'a stmt = "nat \<Rightarrow> db \<Rightarrow> (sql_error + 'a) \<times> db"

text \<open>
  \<open>UPDATE ... SET ... WHERE\<close> on one table: the rows that match get the new values, those that
  change also the new time stamp.
\<close>

definition update_rows :: "('r \<Rightarrow> bool) \<Rightarrow> ('r \<Rightarrow> 'r) \<Rightarrow> ('r \<Rightarrow> 'r) \<Rightarrow> 'r list \<Rightarrow> 'r list" where
  "update_rows P f stamp rows = map (\<lambda>r. if P r \<and> f r \<noteq> r then stamp (f r) else r) rows"

definition affected :: "server \<Rightarrow> ('r \<Rightarrow> bool) \<Rightarrow> ('r \<Rightarrow> 'r) \<Rightarrow> 'r list \<Rightarrow> int" where
  "affected srv P f rows =
     int (length (filter (\<lambda>r. P r \<and> (my_found_rows srv \<or> f r \<noteq> r)) rows))"

section \<open>Statements on \<open>users\<close>\<close>

text \<open>\<^verbatim>\<open>INSERT INTO users (username, passwd_hash, email) VALUES (?, ?, ?)\<close>\<close>

definition insert_user :: "server \<Rightarrow> nat \<Rightarrow> string \<Rightarrow> string \<Rightarrow> string \<Rightarrow> int stmt" where
  "insert_user srv cid username passwd_hash email k d =
     (if \<not> (my_fits srv 50 username \<and> my_fits srv 255 passwd_hash \<and> my_fits srv 50 email)
      then (Inl Data_too_long, d)
      else if max_int < ai_users d then (Inl Autoinc_failed, d)
      else if (\<exists>r \<in> set (users d). same srv (ur_username r) username \<or> same srv (ur_email r) email)
      then (Inl Duplicate_entry, d\<lparr>ai_users := ai_users d + burn srv\<rparr>)
      else
        (Inr 1,
         d\<lparr>users := users d @
             [\<lparr>ur_id = ai_users d, ur_username = username, ur_passwd_hash = passwd_hash,
               ur_email = email, ur_qq_id = None, ur_netease_id = None,
               ur_create_at = my_now srv k, ur_update_at = my_now srv k\<rparr>],
           ai_users := ai_users d + 1,
           last_insert := (last_insert d)(cid := ai_users d)\<rparr>))"

text \<open>\<^verbatim>\<open>SELECT LAST_INSERT_ID() AS id\<close>\<close>

definition select_last_insert_id :: "nat \<Rightarrow> int list stmt" where
  "select_last_insert_id cid k d = (Inr [last_insert d cid], d)"

text \<open>\<^verbatim>\<open>SELECT * FROM users WHERE id = ?\<close> and \<^verbatim>\<open>... WHERE username = ?\<close>\<close>

definition select_users_by_id :: "server \<Rightarrow> int \<Rightarrow> user_row list stmt" where
  "select_users_by_id srv i k d = (Inr (filter (\<lambda>r. ur_id r = i) (scan srv k (users d))), d)"

definition select_users_by_username :: "server \<Rightarrow> string \<Rightarrow> user_row list stmt" where
  "select_users_by_username srv username k d =
     (Inr (filter (\<lambda>r. same srv (ur_username r) username) (scan srv k (users d))), d)"

text \<open>
  \<open>PreparedStatement::executeQuery(text)\<close>: JDBC does not allow it on a prepared statement; a driver
  either refuses it or runs the text.
\<close>

definition text_query :: "server \<Rightarrow> 'a stmt \<Rightarrow> 'a stmt" where
  "text_query srv st k d = (if my_text_query srv then st k d else (Inl Not_implemented, d))"

text \<open>An \<open>UPDATE users ... WHERE i = ?\<close> whose new values have the widths \<open>ok\<close> asks for.\<close>

definition update_users ::
  "server \<Rightarrow> bool \<Rightarrow> (user_row \<Rightarrow> user_row) \<Rightarrow> int \<Rightarrow> int stmt" where
  "update_users srv ok f i k d =
     (let P = (\<lambda>r. ur_id r = i);
          rows = update_rows P f (\<lambda>r. r\<lparr>ur_update_at := my_now srv k\<rparr>) (users d)
      in if (\<exists>r \<in> set (users d). P r) \<and> \<not> ok then (Inl Data_too_long, d)
         else if \<not> (distinct (map (my_key srv \<circ> ur_username) rows) \<and>
                    distinct (map (my_key srv \<circ> ur_email) rows))
         then (Inl Duplicate_entry, d)
         else (Inr (affected srv P f (users d)), d\<lparr>users := rows\<rparr>))"

text \<open>\<^verbatim>\<open>UPDATE users SET username = ?, email = ?, qq_id = ?, netease_id = ? WHERE id = ?\<close>\<close>

definition update_user_row ::
  "server \<Rightarrow> string \<Rightarrow> string \<Rightarrow> string option \<Rightarrow> string option \<Rightarrow> int \<Rightarrow> int stmt" where
  "update_user_row srv username email qq netease =
     update_users srv
       (my_fits srv 50 username \<and> my_fits srv 50 email \<and> fits_opt srv 50 qq \<and> fits_opt srv 50 netease)
       (\<lambda>r. r\<lparr>ur_username := username, ur_email := email, ur_qq_id := qq, ur_netease_id := netease\<rparr>)"

text \<open>\<^verbatim>\<open>UPDATE users SET passwd_hash = ? WHERE id = ?\<close>, and the same for the two platforms\<close>

definition update_passwd_hash :: "server \<Rightarrow> string \<Rightarrow> int \<Rightarrow> int stmt" where
  "update_passwd_hash srv h = update_users srv (my_fits srv 255 h) (\<lambda>r. r\<lparr>ur_passwd_hash := h\<rparr>)"

definition update_qq_id :: "server \<Rightarrow> string \<Rightarrow> int \<Rightarrow> int stmt" where
  "update_qq_id srv q = update_users srv (my_fits srv 50 q) (\<lambda>r. r\<lparr>ur_qq_id := Some q\<rparr>)"

definition update_netease_id :: "server \<Rightarrow> string \<Rightarrow> int \<Rightarrow> int stmt" where
  "update_netease_id srv q = update_users srv (my_fits srv 50 q) (\<lambda>r. r\<lparr>ur_netease_id := Some q\<rparr>)"

text \<open>\<^verbatim>\<open>DELETE FROM users WHERE id = ?\<close> with its cascade\<close>

definition delete_user_row :: "int \<Rightarrow> int stmt" where
  "delete_user_row i k d =
     (let gone = map pr_id (filter (\<lambda>p. pr_user_id p = i) (playlists d)) in
      (Inr (int (length (filter (\<lambda>r. ur_id r = i) (users d)))),
       if (\<exists>r \<in> set (users d). ur_id r = i) then
         d\<lparr>users := filter (\<lambda>r. ur_id r \<noteq> i) (users d),
           playlists := filter (\<lambda>p. pr_user_id p \<noteq> i) (playlists d),
           playlist_songs := filter (\<lambda>s. sr_playlist_id s \<notin> set gone) (playlist_songs d),
           play_history := filter (\<lambda>h. hr_user_id h \<noteq> i) (play_history d)\<rparr>
       else d))"

section \<open>Statements on \<open>playlists\<close> and \<open>playlist_songs\<close>\<close>

text \<open>\<^verbatim>\<open>INSERT INTO playlists (name, user_id, cover) VALUES (?, ?, ?)\<close>\<close>

definition insert_playlist :: "server \<Rightarrow> nat \<Rightarrow> string \<Rightarrow> int \<Rightarrow> string option \<Rightarrow> int stmt" where
  "insert_playlist srv cid name user_id cover k d =
     (if \<not> (my_fits srv 50 name \<and> fits_opt srv 255 cover) then (Inl Data_too_long, d)
      else if max_int < ai_playlists d then (Inl Autoinc_failed, d)
      else if \<not> (\<exists>r \<in> set (users d). ur_id r = user_id)
      then (Inl No_referenced_row, d\<lparr>ai_playlists := ai_playlists d + burn srv\<rparr>)
      else
        (Inr 1,
         d\<lparr>playlists := playlists d @
             [\<lparr>pr_id = ai_playlists d, pr_user_id = user_id, pr_name = name, pr_cover = cover,
               pr_create_at = my_now srv k, pr_update_at = my_now srv k\<rparr>],
           ai_playlists := ai_playlists d + 1,
           last_insert := (last_insert d)(cid := ai_playlists d)\<rparr>))"

text \<open>\<^verbatim>\<open>SELECT * FROM playlists WHERE id = ?\<close> and \<^verbatim>\<open>... WHERE user_id = ?\<close>\<close>

definition select_playlists :: "server \<Rightarrow> (playlist_row \<Rightarrow> bool) \<Rightarrow> playlist_row list stmt" where
  "select_playlists srv P k d = (Inr (filter P (scan srv k (playlists d))), d)"

text \<open>\<^verbatim>\<open>UPDATE playlists SET name = ?, cover = ? WHERE id = ?\<close>\<close>

definition update_playlist_row :: "server \<Rightarrow> string \<Rightarrow> string option \<Rightarrow> int \<Rightarrow> int stmt" where
  "update_playlist_row srv name cover i k d =
     (let P = (\<lambda>r. pr_id r = i); f = (\<lambda>r. r\<lparr>pr_name := name, pr_cover := cover\<rparr>)
      in if (\<exists>r \<in> set (playlists d). P r) \<and> \<not> (my_fits srv 50 name \<and> fits_opt srv 255 cover)
         then (Inl Data_too_long, d)
         else (Inr (affected srv P f (playlists d)),
               d\<lparr>playlists := update_rows P f (\<lambda>r. r\<lparr>pr_update_at := my_now srv k\<rparr>) (playlists d)\<rparr>))"

text \<open>\<^verbatim>\<open>DELETE FROM playlists WHERE id = ?\<close> with its cascade\<close>

definition delete_playlist_row :: "int \<Rightarrow> int stmt" where
  "delete_playlist_row i k d =
     (Inr (int (length (filter (\<lambda>p. pr_id p = i) (playlists d)))),
      if (\<exists>p \<in> set (playlists d). pr_id p = i) then
        d\<lparr>playlists := filter (\<lambda>p. pr_id p \<noteq> i) (playlists d),
          playlist_songs := filter (\<lambda>s. sr_playlist_id s \<noteq> i) (playlist_songs d)\<rparr>
      else d)"

definition song_is :: "server \<Rightarrow> int \<Rightarrow> string \<Rightarrow> string \<Rightarrow> song_row \<Rightarrow> bool" where
  "song_is srv playlist_id song_id song_where r \<longleftrightarrow>
     sr_playlist_id r = playlist_id \<and> same srv (sr_song_id r) song_id \<and>
     same srv (sr_song_where r) song_where"

text \<open>
  \<^verbatim>\<open>SELECT COUNT(*) as count FROM playlist_songs WHERE playlist_id = ? AND song_id = ? AND
  song_where = ?\<close>, and the count of one playlist
\<close>

definition count_songs :: "(song_row \<Rightarrow> bool) \<Rightarrow> int list stmt" where
  "count_songs P k d = (Inr [int (length (filter P (playlist_songs d)))], d)"

text \<open>
  \<^verbatim>\<open>INSERT INTO playlist_songs (playlist_id, song_id, song_name, song_singer, song_pic, song_where)
  VALUES (?, ?, ?, ?, ?, ?)\<close>
\<close>

definition insert_song ::
  "server \<Rightarrow> nat \<Rightarrow> int \<Rightarrow> string \<Rightarrow> string \<Rightarrow> string \<Rightarrow> string option \<Rightarrow> string \<Rightarrow> int stmt" where
  "insert_song srv cid playlist_id song_id name singer pic song_where k d =
     (if \<not> (my_fits srv 50 song_id \<and> my_fits srv 255 name \<and> my_fits srv 255 singer \<and>
            fits_opt srv 255 pic)
      then (Inl Data_too_long, d)
      else case enum_value srv song_where of
        None \<Rightarrow> (Inl Data_truncated, d)
      | Some w \<Rightarrow>
          if max_int < ai_songs d then (Inl Autoinc_failed, d)
          else if \<not> (\<exists>p \<in> set (playlists d). pr_id p = playlist_id)
          then (Inl No_referenced_row, d\<lparr>ai_songs := ai_songs d + burn srv\<rparr>)
          else if (\<exists>r \<in> set (playlist_songs d). sr_playlist_id r = playlist_id \<and>
                     same srv (sr_song_id r) song_id \<and> sr_song_where r = w)
          then (Inl Duplicate_entry, d\<lparr>ai_songs := ai_songs d + burn srv\<rparr>)
          else
            (Inr 1,
             d\<lparr>playlist_songs := playlist_songs d @
                 [\<lparr>sr_id = ai_songs d, sr_playlist_id = playlist_id, sr_song_id = song_id,
                   sr_song_name = name, sr_song_singer = singer, sr_song_pic = pic,
                   sr_song_where = w, sr_added_at = my_now srv k\<rparr>],
               ai_songs := ai_songs d + 1,
               last_insert := (last_insert d)(cid := ai_songs d)\<rparr>))"

text \<open>
  \<^verbatim>\<open>DELETE FROM playlist_songs WHERE playlist_id = ? AND song_id = ? && song_where = ?\<close> and
  \<^verbatim>\<open>SELECT * FROM playlist_songs WHERE playlist_id = ?\<close>
\<close>

definition delete_songs :: "(song_row \<Rightarrow> bool) \<Rightarrow> int stmt" where
  "delete_songs P k d =
     (Inr (int (length (filter P (playlist_songs d)))),
      d\<lparr>playlist_songs := filter (\<lambda>s. \<not> P s) (playlist_songs d)\<rparr>)"

definition select_songs :: "server \<Rightarrow> (song_row \<Rightarrow> bool) \<Rightarrow> song_row list stmt" where
  "select_songs srv P k d = (Inr (filter P (scan srv k (playlist_songs d))), d)"

section \<open>Statements on \<open>play_history\<close>\<close>

text \<open>
  \<^verbatim>\<open>SELECT id, song_count FROM play_history WHERE user_id = ? AND song_id = ?\<close>
\<close>

definition select_history_of :: "server \<Rightarrow> int \<Rightarrow> string \<Rightarrow> history_row list stmt" where
  "select_history_of srv user_id song_id k d =
     (Inr (filter (\<lambda>h. hr_user_id h = user_id \<and> same srv (hr_song_id h) song_id)
             (scan srv k (play_history d))), d)"

text \<open>\<^verbatim>\<open>UPDATE play_history SET song_count = ? WHERE id = ?\<close>\<close>

definition update_song_count :: "server \<Rightarrow> int \<Rightarrow> int \<Rightarrow> int stmt" where
  "update_song_count srv n i k d =
     (let P = (\<lambda>h. hr_id h = i); f = (\<lambda>h. h\<lparr>hr_song_count := n\<rparr>) in
      (Inr (affected srv P f (play_history d)),
       d\<lparr>play_history := update_rows P f (\<lambda>h. h) (play_history d)\<rparr>))"

text \<open>
  \<^verbatim>\<open>INSERT INTO play_history (user_id, song_id, song_name, song_singer, song_pic, song_where,
  played_at) VALUES (?, ?, ?, ?, ?, ?)\<close>: the columns that the statement names and the number of
  values it gives are those of the text; the server refuses a statement in which they differ.
\<close>

definition history_columns :: "string list" where
  "history_columns =
     [''user_id'', ''song_id'', ''song_name'', ''song_singer'', ''song_pic'', ''song_where'', ''played_at'']"

definition history_placeholders :: nat where
  "history_placeholders = 6"

definition insert_history ::
  "server \<Rightarrow> nat \<Rightarrow> int \<Rightarrow> string \<Rightarrow> string \<Rightarrow> string \<Rightarrow> string option \<Rightarrow> string \<Rightarrow> int stmt" where
  "insert_history srv cid user_id song_id name singer pic song_where k d =
     (if length history_columns \<noteq> history_placeholders then (Inl Column_count, d)
      else if \<not> (my_fits srv 50 song_id \<and> my_fits srv 255 name \<and> my_fits srv 255 singer \<and>
                 fits_opt srv 255 pic)
      then (Inl Data_too_long, d)
      else case enum_value srv song_where of
        None \<Rightarrow> (Inl Data_truncated, d)
      | Some w \<Rightarrow>
          if max_int < ai_history d then (Inl Autoinc_failed, d)
          else if \<not> (\<exists>r \<in> set (users d). ur_id r = user_id)
          then (Inl No_referenced_row, d\<lparr>ai_history := ai_history d + burn srv\<rparr>)
          else
            (Inr 1,
             d\<lparr>play_history := play_history d @
                 [\<lparr>hr_id = ai_history d, hr_user_id = user_id, hr_song_id = song_id,
                   hr_song_name = name, hr_song_singer = singer, hr_song_pic = pic,
                   hr_song_where = w, hr_song_count = 0, hr_played_at = my_now srv k\<rparr>],
               ai_history := ai_history d + 1,
               last_insert := (last_insert d)(cid := ai_history d)\<rparr>))"

text \<open>
  \<^verbatim>\<open>... ORDER BY key DESC LIMIT ? OFFSET ?\<close>: rows with equal keys stay in the order in which the
  server visits them.
\<close>

definition order_desc :: "('r \<Rightarrow> int) \<Rightarrow> 'r list \<Rightarrow> 'r list" where
  "order_desc key rows = sort_key (\<lambda>r. - key r) rows"

definition limit_rows :: "server \<Rightarrow> int \<Rightarrow> int \<Rightarrow> 'r list \<Rightarrow> sql_error + 'r list" where
  "limit_rows srv limit offset rows =
     (if limit < 0 \<or> offset < 0 then
        if my_neg_limit srv
        then Inr (let rest = (if offset < 0 then [] else drop (nat offset) rows)
                  in if limit < 0 then rest else take (nat limit) rest)
        else Inl Wrong_arguments
      else Inr (take (nat limit) (drop (nat offset) rows)))"

definition select_history ::
  "server \<Rightarrow> int \<Rightarrow> (history_row \<Rightarrow> int) \<Rightarrow> int \<Rightarrow> int \<Rightarrow> history_row list stmt" where
  "select_history srv user_id key limit offset k d =
     (limit_rows srv limit offset
        (order_desc key (filter (\<lambda>h. hr_user_id h = user_id) (scan srv k (play_history d)))), d)"

text \<open>
  \<^verbatim>\<open>SELECT song_singer, SUM(song_count) AS total_plays FROM play_history WHERE user_id = ? GROUP BY
  song_singer ORDER BY total_plays DESC LIMIT ?\<close>: one group for each singer that the collation
  tells apart, shown by the spelling met first.
\<close>

fun group_singers :: "server \<Rightarrow> history_row list \<Rightarrow> (string \<times> int) list" where
  "group_singers srv [] = []"
| "group_singers srv (h # hs) =
     (let mine = (\<lambda>g. same srv (hr_song_singer g) (hr_song_singer h)) in
      (hr_song_singer h, hr_song_count h + sum_list (map hr_song_count (filter mine hs))) #
        group_singers srv (filter (\<lambda>g. \<not> mine g) hs))"

definition select_top_artists :: "server \<Rightarrow> int \<Rightarrow> int \<Rightarrow> (string \<times> int) list stmt" where
  "select_top_artists srv user_id limit k d =
     (limit_rows srv limit 0
        (order_desc snd (group_singers srv
           (filter (\<lambda>h. hr_user_id h = user_id) (scan srv k (play_history d))))), d)"

text \<open>\<^verbatim>\<open>SELECT COUNT(*) AS count FROM play_history WHERE ...\<close> and \<^verbatim>\<open>DELETE FROM play_history WHERE ...\<close>\<close>

definition count_history :: "(history_row \<Rightarrow> bool) \<Rightarrow> int list stmt" where
  "count_history P k d = (Inr [int (length (filter P (play_history d)))], d)"

definition count_recent :: "server \<Rightarrow> int \<Rightarrow> int \<Rightarrow> int list stmt" where
  "count_recent srv user_id days k d =
     (Inr [case my_since srv k days of
             None \<Rightarrow> 0
           | Some t \<Rightarrow> int (length (filter (\<lambda>h. hr_user_id h = user_id \<and> t \<le> int (hr_played_at h))
               (play_history d)))], d)"

definition delete_history :: "(history_row \<Rightarrow> bool) \<Rightarrow> int stmt" where
  "delete_history P k d =
     (Inr (int (length (filter P (play_history d)))),
      d\<lparr>play_history := filter (\<lambda>h. \<not> P h) (play_history d)\<rparr>)"

section \<open>What every read returns\<close>

lemma mset_scan [simp]: "mset (scan srv k rows) = mset rows"
proof (cases "sort (my_scan srv k (length rows)) = [0 ..< length rows]")
  case True
  then have "mset (my_scan srv k (length rows)) = mset [0 ..< length rows]"
    by (metis mset_sort)
  then have "mset (map ((!) rows) (my_scan srv k (length rows))) = mset (map ((!) rows) [0 ..< length rows])"
    by (simp only: mset_map)
  with True show ?thesis by (simp add: scan_def Let_def map_nth)
qed (simp add: scan_def Let_def)

lemma set_scan [simp]: "set (scan srv k rows) = set rows"
  by (metis mset_scan set_mset_mset)

lemma length_scan [simp]: "length (scan srv k rows) = length rows"
  by (metis mset_scan size_mset)

lemma distinct_map_scan: "distinct (map f rows) \<Longrightarrow> distinct (map f (scan srv k rows))"
  by (metis mset_eq_imp_distinct_iff mset_map mset_scan)

lemma same_refl [simp]: "same srv a a"
  by (simp add: same_def)

lemma same_sym: "same srv a b \<longleftrightarrow> same srv b a"
  by (auto simp: same_def)

lemma enum_value_member: "enum_value srv s = Some w \<Longrightarrow> w \<in> set song_sources \<and> same srv w s"
  by (auto simp: enum_value_def find_Some_iff)

end
