(* ===== verification/Schema.thy ===== *)
theory Schema
  imports Tables
begin

text \<open>
  The constraints of \<open>sql/MusicPlayer.sql\<close> as a predicate on the four tables, and the proof that
  every statement of the program keeps them. \<open>stmt_keeps\<close> is the rule format, \<open>stmt_intros\<close> the
  collection of the rules, one per statement.
\<close>

named_theorems stmt_intros \<open>statements keep the constraints of the schema\<close>

text \<open>Identifiers are distinct and were handed out by the counter, which stays within \<open>INT\<close>.\<close>

definition ids_ok :: "int list \<Rightarrow> int \<Rightarrow> bool" where
  "ids_ok xs ai \<longleftrightarrow> distinct xs \<and> (\<forall>i \<in> set xs. 1 \<le> i \<and> i < ai) \<and> 1 \<le> ai \<and> ai \<le> max_int + 1"

definition users_ok :: "server \<Rightarrow> db \<Rightarrow> bool" where
  "users_ok srv d \<longleftrightarrow>
     ids_ok (map ur_id (users d)) (ai_users d) \<and>
     distinct (map (my_key srv \<circ> ur_username) (users d)) \<and>
     distinct (map (my_key srv \<circ> ur_email) (users d))"

definition playlists_ok :: "db \<Rightarrow> bool" where
  "playlists_ok d \<longleftrightarrow>
     ids_ok (map pr_id (playlists d)) (ai_playlists d) \<and>
     pr_user_id ` set (playlists d) \<subseteq> ur_id ` set (users d)"

definition song_key :: "server \<Rightarrow> song_row \<Rightarrow> int \<times> string \<times> string" where
  "song_key srv s = (sr_playlist_id s, my_key srv (sr_song_id s), sr_song_where s)"

definition songs_ok :: "server \<Rightarrow> db \<Rightarrow> bool" where
  "songs_ok srv d \<longleftrightarrow>
     ids_ok (map sr_id (playlist_songs d)) (ai_songs d) \<and>
     sr_playlist_id ` set (playlist_songs d) \<subseteq> pr_id ` set (playlists d) \<and>
     distinct (map (song_key srv) (playlist_songs d)) \<and>
     sr_song_where ` set (playlist_songs d) \<subseteq> set song_sources"

definition history_ok :: "db \<Rightarrow> bool" where
  "history_ok d \<longleftrightarrow>
     ids_ok (map hr_id (play_history d)) (ai_history d) \<and>
     hr_user_id ` set (play_history d) \<subseteq> ur_id ` set (users d) \<and>
     hr_song_where ` set (play_history d) \<subseteq> set song_sources"

definition schema_ok :: "server \<Rightarrow> db \<Rightarrow> bool" where
  "schema_ok srv d \<longleftrightarrow> users_ok srv d \<and> playlists_ok d \<and> songs_ok srv d \<and> history_ok d"

lemmas schema_defs = schema_ok_def users_ok_def playlists_ok_def songs_ok_def history_ok_def

lemma schema_ok_empty: "schema_ok srv empty_db"
  by (simp add: schema_defs empty_db_def ids_ok_def max_int_def)

definition stmt_keeps :: "(db \<Rightarrow> bool) \<Rightarrow> 'a stmt \<Rightarrow> bool" where
  "stmt_keeps I st \<longleftrightarrow> (\<forall>k d. I d \<longrightarrow> I (snd (st k d)))"

lemma stmt_keepsI: "(\<And>k d. I d \<Longrightarrow> I (snd (st k d))) \<Longrightarrow> stmt_keeps I st"
  by (simp add: stmt_keeps_def)

lemma stmt_keepsD: "stmt_keeps I st \<Longrightarrow> I d \<Longrightarrow> I (snd (st k d))"
  by (simp add: stmt_keeps_def)

section \<open>Identifiers\<close>

lemma ids_ok_snoc:
  "ids_ok xs ai \<Longrightarrow> ai \<le> max_int \<Longrightarrow> ids_ok (xs @ [ai]) (ai + 1)"
  by (auto simp: ids_ok_def)

lemma ids_ok_burn: "ids_ok xs ai \<Longrightarrow> ai \<le> max_int \<Longrightarrow> ids_ok xs (ai + burn srv)"
  by (auto simp: ids_ok_def burn_def)

lemma ids_ok_filter: "ids_ok (map f rows) ai \<Longrightarrow> ids_ok (map f (filter P rows)) ai"
  by (auto simp: ids_ok_def distinct_map_filter)

lemma map_update_rows:
  "(\<And>r. g (f r) = g r) \<Longrightarrow> (\<And>r. g (stamp r) = g r) \<Longrightarrow> map g (update_rows P f stamp rows) = map g rows"
  by (simp add: update_rows_def)

lemma image_update_rows:
  "(\<And>r. g (f r) = g r) \<Longrightarrow> (\<And>r. g (stamp r) = g r) \<Longrightarrow>
   g ` set (update_rows P f stamp rows) = g ` set rows"
  by (metis list.set_map map_update_rows)

lemma schema_id_range:
  "schema_ok srv d \<Longrightarrow> r \<in> set (users d) \<Longrightarrow> 1 \<le> ur_id r \<and> ur_id r \<le> max_int"
  by (force simp: schema_defs ids_ok_def)

lemma schema_unique_id:
  "schema_ok srv d \<Longrightarrow> r \<in> set (users d) \<Longrightarrow> r' \<in> set (users d) \<Longrightarrow> ur_id r = ur_id r' \<Longrightarrow> r = r'"
  by (auto simp: schema_defs ids_ok_def dest: distinct_map_unique)

lemma schema_unique_username:
  "schema_ok srv d \<Longrightarrow> r \<in> set (users d) \<Longrightarrow> r' \<in> set (users d) \<Longrightarrow>
   same srv (ur_username r) (ur_username r') \<Longrightarrow> r = r'"
  by (auto simp: schema_defs same_def dest: distinct_map_unique)

section \<open>Statements on \<open>users\<close>\<close>

lemma insert_user_keeps [stmt_intros]:
  "stmt_keeps (schema_ok srv) (insert_user srv cid username h email)"
proof (rule stmt_keepsI)
  fix k d assume ok: "schema_ok srv d"
  have snoc: "ai_users d \<le> max_int \<Longrightarrow> ids_ok (map ur_id (users d) @ [ai_users d]) (ai_users d + 1)"
    using ok by (intro ids_ok_snoc) (simp_all add: schema_defs)
  have burn: "ai_users d \<le> max_int \<Longrightarrow> ids_ok (map ur_id (users d)) (ai_users d + burn srv)"
    using ok by (intro ids_ok_burn) (simp_all add: schema_defs)
  show "schema_ok srv (snd (insert_user srv cid username h email k d))"
    using ok snoc burn unfolding insert_user_def
    by (auto simp: schema_defs same_def)
qed

lemma select_last_insert_id_keeps [stmt_intros]: "stmt_keeps I (select_last_insert_id cid)"
  by (simp add: stmt_keeps_def select_last_insert_id_def)

lemma text_query_keeps [stmt_intros]: "stmt_keeps I st \<Longrightarrow> stmt_keeps I (text_query srv st)"
  by (simp add: stmt_keeps_def text_query_def)

lemma select_users_by_id_keeps [stmt_intros]: "stmt_keeps I (select_users_by_id srv i)"
  by (simp add: stmt_keeps_def select_users_by_id_def)

lemma select_users_by_username_keeps [stmt_intros]:
  "stmt_keeps I (select_users_by_username srv username)"
  by (simp add: stmt_keeps_def select_users_by_username_def)

lemma update_users_keeps:
  assumes "\<And>r. ur_id (f r) = ur_id r"
  shows "stmt_keeps (schema_ok srv) (update_users srv ok f i)"
proof (rule stmt_keepsI)
  fix k d assume d: "schema_ok srv d"
  let ?rows = "update_rows (\<lambda>r. ur_id r = i) f (\<lambda>r. r\<lparr>ur_update_at := my_now srv k\<rparr>) (users d)"
  have "map ur_id ?rows = map ur_id (users d)" and "ur_id ` set ?rows = ur_id ` set (users d)"
    using assms by (simp_all add: map_update_rows image_update_rows)
  with d show "schema_ok srv (snd (update_users srv ok f i k d))"
    by (auto simp: update_users_def schema_defs Let_def)
qed

lemma update_user_row_keeps [stmt_intros]:
  "stmt_keeps (schema_ok srv) (update_user_row srv username email qq netease i)"
  unfolding update_user_row_def by (rule update_users_keeps) simp

lemma update_passwd_hash_keeps [stmt_intros]:
  "stmt_keeps (schema_ok srv) (update_passwd_hash srv h i)"
  unfolding update_passwd_hash_def by (rule update_users_keeps) simp

lemma update_qq_id_keeps [stmt_intros]: "stmt_keeps (schema_ok srv) (update_qq_id srv q i)"
  unfolding update_qq_id_def by (rule update_users_keeps) simp

lemma update_netease_id_keeps [stmt_intros]: "stmt_keeps (schema_ok srv) (update_netease_id srv q i)"
  unfolding update_netease_id_def by (rule update_users_keeps) simp

text \<open>The cascade of a deleted user leaves no row that refers to it, directly or through a playlist.\<close>

lemma delete_user_row_keeps [stmt_intros]: "stmt_keeps (schema_ok srv) (delete_user_row i)"
proof (rule stmt_keepsI)
  fix k d assume d: "schema_ok srv d"
  have pid: "\<And>p q. p \<in> set (playlists d) \<Longrightarrow> q \<in> set (playlists d) \<Longrightarrow> pr_id p = pr_id q \<Longrightarrow> p = q"
    using d by (auto simp: schema_defs ids_ok_def dest: distinct_map_unique)
  let ?d = "snd (delete_user_row i k d)"
  have "users_ok srv ?d"
    using d by (auto simp: delete_user_row_def schema_defs ids_ok_filter distinct_map_filter)
  moreover have "playlists_ok ?d"
    using d by (auto simp: delete_user_row_def schema_defs ids_ok_filter)
  moreover have "history_ok ?d"
    using d by (auto simp: delete_user_row_def schema_defs ids_ok_filter)
  moreover have "songs_ok srv ?d"
  proof -
    have "sr_playlist_id s \<in> pr_id ` {p \<in> set (playlists d). pr_user_id p \<noteq> i}"
      if "s \<in> set (playlist_songs d)"
        "sr_playlist_id s \<notin> pr_id ` {p \<in> set (playlists d). pr_user_id p = i}" for s
    proof -
      have "sr_playlist_id s \<in> pr_id ` set (playlists d)"
        using d that(1) by (auto simp: schema_defs)
      with that(2) show ?thesis by blast
    qed
    with d show ?thesis
      by (auto simp: delete_user_row_def schema_defs ids_ok_filter distinct_map_filter)
  qed
  ultimately show "schema_ok srv ?d" by (simp add: schema_ok_def)
qed

section \<open>Statements on playlists\<close>

lemma insert_playlist_keeps [stmt_intros]:
  "stmt_keeps (schema_ok srv) (insert_playlist srv cid name user_id cover)"
proof (rule stmt_keepsI)
  fix k d assume ok: "schema_ok srv d"
  have snoc: "ai_playlists d \<le> max_int \<Longrightarrow>
      ids_ok (map pr_id (playlists d) @ [ai_playlists d]) (ai_playlists d + 1)"
    using ok by (intro ids_ok_snoc) (simp_all add: schema_defs)
  have burn: "ai_playlists d \<le> max_int \<Longrightarrow> ids_ok (map pr_id (playlists d)) (ai_playlists d + burn srv)"
    using ok by (intro ids_ok_burn) (simp_all add: schema_defs)
  show "schema_ok srv (snd (insert_playlist srv cid name user_id cover k d))"
    using ok snoc burn unfolding insert_playlist_def
    by (auto simp: schema_defs)
qed

lemma select_playlists_keeps [stmt_intros]: "stmt_keeps I (select_playlists srv P)"
  by (simp add: stmt_keeps_def select_playlists_def)

lemma update_playlist_row_keeps [stmt_intros]:
  "stmt_keeps (schema_ok srv) (update_playlist_row srv name cover i)"
  by (rule stmt_keepsI)
    (auto simp: update_playlist_row_def schema_defs Let_def map_update_rows image_update_rows)

lemma delete_playlist_row_keeps [stmt_intros]: "stmt_keeps (schema_ok srv) (delete_playlist_row i)"
  by (rule stmt_keepsI)
    (auto simp: delete_playlist_row_def schema_defs ids_ok_filter distinct_map_filter)

lemma count_songs_keeps [stmt_intros]: "stmt_keeps I (count_songs P)"
  by (simp add: stmt_keeps_def count_songs_def)

lemma insert_song_keeps [stmt_intros]:
  "stmt_keeps (schema_ok srv) (insert_song srv cid pid song_id name singer pic w)"
proof (rule stmt_keepsI)
  fix k d assume ok: "schema_ok srv d"
  have snoc: "ai_songs d \<le> max_int \<Longrightarrow>
      ids_ok (map sr_id (playlist_songs d) @ [ai_songs d]) (ai_songs d + 1)"
    using ok by (intro ids_ok_snoc) (simp_all add: schema_defs)
  have burn: "ai_songs d \<le> max_int \<Longrightarrow> ids_ok (map sr_id (playlist_songs d)) (ai_songs d + burn srv)"
    using ok by (intro ids_ok_burn) (simp_all add: schema_defs)
  show "schema_ok srv (snd (insert_song srv cid pid song_id name singer pic w k d))"
  proof (cases "enum_value srv w")
    case None
    with ok show ?thesis by (simp add: insert_song_def)
  next
    case (Some v)
    with ok snoc burn enum_value_member [OF Some] show ?thesis
      unfolding insert_song_def
      by (auto simp: schema_defs song_key_def same_def)
  qed
qed

lemma delete_songs_keeps [stmt_intros]: "stmt_keeps (schema_ok srv) (delete_songs P)"
  by (rule stmt_keepsI)
    (auto simp: delete_songs_def schema_defs ids_ok_filter distinct_map_filter)

lemma select_songs_keeps [stmt_intros]: "stmt_keeps I (select_songs srv P)"
  by (simp add: stmt_keeps_def select_songs_def)

section \<open>Statements on \<open>play_history\<close>\<close>

lemma insert_history_refused: "insert_history srv cid u i n s p w k d = (Inl Column_count, d)"
  by (simp add: insert_history_def history_columns_def history_placeholders_def)

lemma insert_history_keeps [stmt_intros]: "stmt_keeps I (insert_history srv cid u i n s p w)"
  by (simp add: stmt_keeps_def insert_history_refused)

lemma select_history_of_keeps [stmt_intros]: "stmt_keeps I (select_history_of srv u i)"
  by (simp add: stmt_keeps_def select_history_of_def)

lemma select_history_keeps [stmt_intros]: "stmt_keeps I (select_history srv u key l off)"
  by (simp add: stmt_keeps_def select_history_def)

lemma select_top_artists_keeps [stmt_intros]: "stmt_keeps I (select_top_artists srv u l)"
  by (simp add: stmt_keeps_def select_top_artists_def)

lemma count_history_keeps [stmt_intros]: "stmt_keeps I (count_history P)"
  by (simp add: stmt_keeps_def count_history_def)

lemma count_recent_keeps [stmt_intros]: "stmt_keeps I (count_recent srv u n)"
  by (simp add: stmt_keeps_def count_recent_def)

lemma update_song_count_keeps [stmt_intros]: "stmt_keeps (schema_ok srv) (update_song_count srv n i)"
  by (rule stmt_keepsI)
    (auto simp: update_song_count_def schema_defs Let_def map_update_rows image_update_rows)

lemma delete_history_keeps [stmt_intros]: "stmt_keeps (schema_ok srv) (delete_history P)"
  by (rule stmt_keepsI) (auto simp: delete_history_def schema_defs ids_ok_filter)

section \<open>The empty history\<close>

text \<open>No statement adds a row to \<open>play_history\<close>: an empty table stays empty.\<close>

definition no_history :: "db \<Rightarrow> bool" where
  "no_history d \<longleftrightarrow> play_history d = []"

lemma no_history_empty: "no_history empty_db"
  by (simp add: no_history_def empty_db_def)

lemma user_stmts_no_history [stmt_intros]:
  "stmt_keeps no_history (insert_user srv cid n h m)"
  "stmt_keeps no_history (update_user_row srv n m q' e i)"
  "stmt_keeps no_history (update_passwd_hash srv h i)"
  "stmt_keeps no_history (update_qq_id srv q i)"
  "stmt_keeps no_history (update_netease_id srv q i)"
  "stmt_keeps no_history (delete_user_row i)"
  by (auto simp: stmt_keeps_def no_history_def insert_user_def update_users_def update_user_row_def
      update_passwd_hash_def update_qq_id_def update_netease_id_def delete_user_row_def Let_def)

lemma list_stmts_no_history [stmt_intros]:
  "stmt_keeps no_history (insert_playlist srv cid name u c)"
  "stmt_keeps no_history (update_playlist_row srv name c i)"
  "stmt_keeps no_history (delete_playlist_row i)"
  "stmt_keeps no_history (insert_song srv cid p x name a pic w)"
  "stmt_keeps no_history (delete_songs P)"
  by (auto simp: stmt_keeps_def no_history_def insert_playlist_def update_playlist_row_def
      delete_playlist_row_def insert_song_def delete_songs_def Let_def split: option.splits)

lemma history_stmts_no_history [stmt_intros]:
  "stmt_keeps no_history (update_song_count srv n i)"
  "stmt_keeps no_history (delete_history H)"
  by (simp_all add: stmt_keeps_def no_history_def update_song_count_def delete_history_def
      update_rows_def Let_def)

end
