(* ===== verification/Dao.thy ===== *)
theory Dao
  imports Schema
begin

text \<open>
  What the data access objects share: a call of the JDBC driver, and \<open>SqlConnGuard\<close>, which takes a
  connection from the pool and gives it back when the scope is left, by \<open>return\<close> or by an exception.

  The state of a data access object is the pool, the database behind it and the number of calls
  made, which indexes the server's parameters.
\<close>

record dao_state =
  ds_pool :: "conn list"
  ds_db :: db
  ds_tick :: nat

text \<open>
  One statement: \<open>prepareStatement\<close>, the parameters, and \<open>executeQuery\<close> or \<open>executeUpdate\<close>. Any of
  these calls throws \<open>SQLException\<close> when the connection is dead, when the server reports an error,
  or for a reason of its own; the last may come after the statement took effect.
\<close>

definition jdbc :: "server \<Rightarrow> conn \<Rightarrow> 'a stmt \<Rightarrow> (dao_state, 'a) prog" where
  "jdbc srv c st s =
     (let k = ds_tick s; s = s\<lparr>ds_tick := Suc k\<rparr> in
      if \<not> c_live c \<or> my_fault srv k = FailBefore then (Raised SqlException, s)
      else
        (case st k (ds_db s) of
           (Inl e, d) \<Rightarrow> (Raised SqlException, s\<lparr>ds_db := d\<rparr>)
         | (Inr x, d) \<Rightarrow>
             (if my_fault srv k = FailAfter then Raised SqlException else Ok x, s\<lparr>ds_db := d\<rparr>)))"

text \<open>
  \<open>SqlConnGuard guard(db_manager->getConnection())\<close> around \<open>body\<close>. A guard that holds \<open>nullptr\<close>
  releases nothing, and the first \<open>guard->\<close> dereferences the null pointer: undefined behaviour.
\<close>

definition with_connection :: "server \<Rightarrow> (conn \<Rightarrow> (dao_state, 'a) prog) \<Rightarrow> (dao_state, 'a) prog" where
  "with_connection srv body s =
     (let k = ds_tick s in
      case getConnection (my_driver srv) k (ds_pool s) of
        (None, p) \<Rightarrow> (Undefined, s\<lparr>ds_pool := p, ds_tick := Suc k\<rparr>)
      | (Some c, p) \<Rightarrow>
          (case body c (s\<lparr>ds_pool := p, ds_tick := Suc k\<rparr>) of
             (r, s') \<Rightarrow> (r, s'\<lparr>ds_pool := releaseConnection c (ds_pool s')\<rparr>)))"

section \<open>Invariants of the database\<close>

abbreviation on_db :: "(db \<Rightarrow> bool) \<Rightarrow> dao_state \<Rightarrow> bool" where
  "on_db I \<equiv> (\<lambda>s. I (ds_db s))"

lemma jdbc_preserves [preserve_intros]:
  assumes "stmt_keeps I st"
  shows "preserves (on_db I) (jdbc srv c st)"
proof (rule preservesI)
  fix s :: dao_state assume "I (ds_db s)"
  then have "I (snd (st (ds_tick s) (ds_db s)))" by (rule stmt_keepsD [OF assms])
  with \<open>I (ds_db s)\<close> show "I (ds_db (snd (jdbc srv c st s)))"
    by (auto simp: jdbc_def Let_def split: prod.splits sum.splits)
qed

lemma with_connection_preserves [preserve_intros]:
  assumes "\<And>c. preserves (on_db I) (body c)"
  shows "preserves (on_db I) (with_connection srv body)"
proof (rule preservesI)
  fix s :: dao_state assume I: "I (ds_db s)"
  show "I (ds_db (snd (with_connection srv body s)))"
  proof (cases "ds_pool s")
    case (Cons c cs)
    let ?c = "refresh (my_driver srv) (ds_tick s) c"
    have "I (ds_db (snd (body ?c (s\<lparr>ds_pool := cs, ds_tick := Suc (ds_tick s)\<rparr>))))"
      using preservesD [OF assms, of "s\<lparr>ds_pool := cs, ds_tick := Suc (ds_tick s)\<rparr>" ?c] I by simp
    with Cons show ?thesis
      by (simp add: with_connection_def getConnection_def Let_def case_prod_beta)
  qed (simp add: with_connection_def getConnection_def I)
qed

section \<open>Invariants of the pool\<close>

text \<open>
  A body that leaves the pool alone, as all do: every data access object uses one connection at a
  time. The guard then rotates the pool, whether the body returns or throws.
\<close>

definition pool_fixed :: "(dao_state, 'a) prog \<Rightarrow> bool" where
  "pool_fixed m \<longleftrightarrow> (\<forall>s. ds_pool (snd (m s)) = ds_pool s)"

named_theorems pool_intros \<open>programs that leave the pool alone\<close>

lemma pool_fixed_jdbc [pool_intros]: "pool_fixed (jdbc srv c st)"
  by (auto simp: pool_fixed_def jdbc_def Let_def split: prod.splits sum.splits)

lemma pool_fixed_ret [pool_intros]: "pool_fixed (ret x)"
  by (simp add: pool_fixed_def ret_def)

lemma pool_fixed_raise [pool_intros]: "pool_fixed (raise e)"
  by (simp add: pool_fixed_def raise_def)

lemma pool_fixed_undef [pool_intros]: "pool_fixed undef"
  by (simp add: pool_fixed_def undef_def)

lemma pool_fixed_and_then [pool_intros]:
  "pool_fixed m \<Longrightarrow> (\<And>x. pool_fixed (f x)) \<Longrightarrow> pool_fixed (and_then m f)"
  by (auto simp: pool_fixed_def and_then_def split: prod.splits outcome.splits) (metis snd_conv)+

lemma pool_fixed_case_list [pool_intros]:
  "pool_fixed a \<Longrightarrow> (\<And>x xs. pool_fixed (f x xs)) \<Longrightarrow>
   pool_fixed (case v of [] \<Rightarrow> a | x # xs \<Rightarrow> f x xs)"
  by (cases v) auto

lemma pool_fixed_if [pool_intros]:
  "pool_fixed a \<Longrightarrow> pool_fixed b \<Longrightarrow> pool_fixed (if c then a else b)"
  by simp

lemma preserves_case_list [preserve_intros]:
  "preserves P a \<Longrightarrow> (\<And>x xs. preserves P (f x xs)) \<Longrightarrow>
   preserves P (case v of [] \<Rightarrow> a | x # xs \<Rightarrow> f x xs)"
  by (cases v) auto

lemma with_connection_ids:
  assumes "\<And>c. pool_fixed (body c)"
  shows "pool_ids (ds_pool (snd (with_connection srv body s))) = rotate1 (pool_ids (ds_pool s))"
proof (cases "getConnection (my_driver srv) (ds_tick s) (ds_pool s)")
  case (Pair v p)
  show ?thesis
  proof (cases v)
    case None
    then have "pool_ids (ds_pool s) = []"
      using pool.take_None_iff [of "my_driver srv" "ds_tick s" "ds_pool s"] Pair by simp
    with Pair None show ?thesis by (simp add: with_connection_def getConnection_def)
  next
    case (Some c)
    let ?s = "s\<lparr>ds_pool := p, ds_tick := Suc (ds_tick s)\<rparr>"
    have "ds_pool (snd (body c ?s)) = p" using assms by (simp add: pool_fixed_def)
    with Pair Some pool.take_give [of "my_driver srv" "ds_tick s" "ds_pool s" c p p c]
    show ?thesis by (simp add: with_connection_def Let_def case_prod_beta)
  qed
qed

text \<open>Undefined behaviour comes from an empty pool or from the body.\<close>

definition never_undefined :: "('s, 'a) prog \<Rightarrow> bool" where
  "never_undefined m \<longleftrightarrow> (\<forall>s. fst (m s) \<noteq> Undefined)"

lemma never_undefined_jdbc [pool_intros]: "never_undefined (jdbc srv c st)"
  by (auto simp: never_undefined_def jdbc_def Let_def split: prod.splits sum.splits)

lemma never_undefined_ret [pool_intros]: "never_undefined (ret x)"
  by (simp add: never_undefined_def ret_def)

lemma never_undefined_raise [pool_intros]: "never_undefined (raise e)"
  by (simp add: never_undefined_def raise_def)

lemma never_undefined_and_then [pool_intros]:
  assumes "never_undefined m" and "\<And>x. never_undefined (f x)"
  shows "never_undefined (and_then m f)"
  unfolding never_undefined_def
proof
  fix s
  show "fst (and_then m f s) \<noteq> Undefined"
    using assms by (cases "m s"; cases "fst (m s)") (auto simp: never_undefined_def and_then_def
        split: outcome.splits prod.splits dest: spec [of _ s])
qed

lemma never_undefined_case_list [pool_intros]:
  "never_undefined a \<Longrightarrow> (\<And>x xs. never_undefined (f x xs)) \<Longrightarrow>
   never_undefined (case v of [] \<Rightarrow> a | x # xs \<Rightarrow> f x xs)"
  by (cases v) auto

lemma never_undefined_if [pool_intros]:
  "never_undefined a \<Longrightarrow> never_undefined b \<Longrightarrow> never_undefined (if c then a else b)"
  by simp

lemma with_connection_undefined:
  assumes "\<And>c. never_undefined (body c)"
  shows "fst (with_connection srv body s) = Undefined \<longleftrightarrow> ds_pool s = []"
  using assms
  by (cases "ds_pool s")
    (auto simp: with_connection_def getConnection_def Let_def never_undefined_def
      split: prod.splits dest: spec, metis fst_conv)

section \<open>The structure of every data access operation\<close>

text \<open>
  \<open>dao_call\<close> is the shape that all of them have: a guard and statements inside a \<open>try\<close>, and a
  fixed result for \<open>catch (sql::SQLException& e)\<close>.
\<close>

definition dao_call :: "server \<Rightarrow> 'a \<Rightarrow> (conn \<Rightarrow> (dao_state, 'a) prog) \<Rightarrow> (dao_state, 'a) prog" where
  "dao_call srv failed body = catch_sql (with_connection srv body) (ret failed)"

lemma dao_call_preserves [preserve_intros]:
  "(\<And>c. preserves (on_db I) (body c)) \<Longrightarrow> preserves (on_db I) (dao_call srv failed body)"
  unfolding dao_call_def by (intro preserve_intros)

lemma catch_sql_snd: "snd (catch_sql m (ret x) s) = snd (m s)"
  by (auto simp: catch_sql_def catch_exn_def ret_def raise_def split: prod.splits outcome.splits)

lemma dao_call_ids:
  "(\<And>c. pool_fixed (body c)) \<Longrightarrow>
   pool_ids (ds_pool (snd (dao_call srv failed body s))) = rotate1 (pool_ids (ds_pool s))"
  by (simp add: dao_call_def catch_sql_snd with_connection_ids)

lemma dao_call_undefined:
  "(\<And>c. never_undefined (body c)) \<Longrightarrow>
   fst (dao_call srv failed body s) = Undefined \<longleftrightarrow> ds_pool s = []"
  using with_connection_undefined [of body srv s]
  by (auto simp: dao_call_def catch_sql_def catch_exn_def ret_def raise_def
      split: prod.splits outcome.splits)

text \<open>What a finished operation tells about its body, on any server.\<close>

lemma dao_call_cases:
  assumes "dao_call srv failed body s = (r, s')"
  obtains (no_connection) "ds_pool s = []" "r = Undefined" "ds_db s' = ds_db s"
  | (ran) c p r' t where "body c (s\<lparr>ds_pool := p, ds_tick := Suc (ds_tick s)\<rparr>) = (r', t)"
      "ds_db s' = ds_db t" "r = (if r' = Raised SqlException then Ok failed else r')"
      "ds_pool s \<noteq> []"
proof (cases "ds_pool s")
  case Nil
  then show ?thesis using assms
    by (intro no_connection)
      (auto simp: dao_call_def with_connection_def getConnection_def catch_sql_def catch_exn_def)
next
  case (Cons c cs)
  let ?c = "refresh (my_driver srv) (ds_tick s) c" and ?s = "s\<lparr>ds_pool := cs, ds_tick := Suc (ds_tick s)\<rparr>"
  obtain r' t where b: "body ?c ?s = (r', t)" by fastforce
  with Cons assms show ?thesis
    by (intro ran [OF b])
      (auto simp: dao_call_def with_connection_def getConnection_def catch_sql_def catch_exn_def
        ret_def raise_def Let_def split: outcome.splits if_splits)
qed

lemma jdbc_cases:
  assumes "jdbc srv c st s = (r, s')"
  obtains (ok) x d where "r = Ok x" "st (ds_tick s) (ds_db s) = (Inr x, d)"
      "s' = s\<lparr>ds_tick := Suc (ds_tick s), ds_db := d\<rparr>"
  | (not_run) "r = Raised SqlException" "s' = s\<lparr>ds_tick := Suc (ds_tick s)\<rparr>"
  | (refused) e d where "r = Raised SqlException" "st (ds_tick s) (ds_db s) = (Inl e, d)"
      "s' = s\<lparr>ds_tick := Suc (ds_tick s), ds_db := d\<rparr>"
  | (lost) x d where "r = Raised SqlException" "st (ds_tick s) (ds_db s) = (Inr x, d)"
      "s' = s\<lparr>ds_tick := Suc (ds_tick s), ds_db := d\<rparr>"
  using assms by (auto simp: jdbc_def Let_def split: if_splits prod.splits sum.splits)

text \<open>Only SQL exceptions are thrown, so no exception leaves the operation.\<close>

definition raises_sql :: "('s, 'a) prog \<Rightarrow> bool" where
  "raises_sql m \<longleftrightarrow> (\<forall>s e. fst (m s) = Raised e \<longrightarrow> e = SqlException)"

lemma raises_sql_jdbc [pool_intros]: "raises_sql (jdbc srv c st)"
  by (auto simp: raises_sql_def jdbc_def Let_def split: prod.splits sum.splits if_splits)

lemma raises_sql_ret [pool_intros]: "raises_sql (ret x)"
  by (simp add: raises_sql_def ret_def)

lemma raises_sql_undef [pool_intros]: "raises_sql undef"
  by (simp add: raises_sql_def undef_def)

lemma raises_sql_raise [pool_intros]: "raises_sql (raise SqlException)"
  by (simp add: raises_sql_def raise_def)

lemma raises_sql_and_then [pool_intros]:
  "raises_sql m \<Longrightarrow> (\<And>x. raises_sql (f x)) \<Longrightarrow> raises_sql (and_then m f)"
  by (auto simp: raises_sql_def and_then_def split: prod.splits outcome.splits) (metis fst_conv)

lemma raises_sql_case_list [pool_intros]:
  "raises_sql a \<Longrightarrow> (\<And>x xs. raises_sql (f x xs)) \<Longrightarrow>
   raises_sql (case v of [] \<Rightarrow> a | x # xs \<Rightarrow> f x xs)"
  by (cases v) auto

lemma raises_sql_if [pool_intros]: "raises_sql a \<Longrightarrow> raises_sql b \<Longrightarrow> raises_sql (if c then a else b)"
  by simp

lemma dao_call_no_exn:
  assumes "\<And>c. raises_sql (body c)"
  shows "fst (dao_call srv failed body s) \<noteq> Raised e"
proof -
  have "fst (with_connection srv body s) = Raised e' \<Longrightarrow> e' = SqlException" for e'
    using assms
    by (auto simp: with_connection_def Let_def raises_sql_def split: prod.splits option.splits)
      (metis fst_conv)
  then show ?thesis
    by (auto simp: dao_call_def catch_sql_def catch_exn_def ret_def raise_def
        split: prod.splits outcome.splits)
qed

text \<open>The outcome of one operation: undefined exactly on an empty pool, a value otherwise.\<close>

lemma dao_call_outcome:
  assumes "\<And>c. never_undefined (body c)" and "\<And>c. raises_sql (body c)"
  obtains (crash) "ds_pool s = []" "fst (dao_call srv failed body s) = Undefined"
  | (finished) x where "ds_pool s \<noteq> []" "fst (dao_call srv failed body s) = Ok x"
proof -
  have undefined: "fst (dao_call srv failed body s) = Undefined \<longleftrightarrow> ds_pool s = []"
    by (rule dao_call_undefined) (rule assms(1))
  have no_exn: "fst (dao_call srv failed body s) \<noteq> Raised e" for e
    by (rule dao_call_no_exn) (rule assms(2))
  show thesis
  proof (cases "fst (dao_call srv failed body s)")
    case (Ok x)
    with undefined show ?thesis by (intro finished [of x]) auto
  qed (use undefined no_exn crash in auto)
qed

section \<open>A working server\<close>

text \<open>
  No call fails for a reason of its own, every connection answers; the pool has a connection and
  all its connections are live. Single operations keep this.
\<close>

definition healthy :: "server \<Rightarrow> bool" where
  "healthy srv \<longleftrightarrow> (\<forall>k. my_fault srv k = NoFault) \<and> (\<forall>k i. dr_valid (my_driver srv) k i)"

definition pool_live :: "dao_state \<Rightarrow> bool" where
  "pool_live s \<longleftrightarrow> ds_pool s \<noteq> [] \<and> list_all c_live (ds_pool s)"

definition served :: "nat \<Rightarrow> db \<Rightarrow> dao_state \<Rightarrow> dao_state" where
  "served n d s = s\<lparr>ds_pool := rotate1 (ds_pool s), ds_tick := ds_tick s + n, ds_db := d\<rparr>"

lemma served_simps [simp]:
  "ds_db (served n d s) = d" "pool_live (served n d s) = pool_live s"
  "ds_tick (served n d s) = ds_tick s + n"
  by (simp_all add: served_def pool_live_def list_all_iff)

lemma jdbc_healthy:
  "healthy srv \<Longrightarrow> c_live c \<Longrightarrow> jdbc srv c st s =
     (case st (ds_tick s) (ds_db s) of
        (Inl e, d) \<Rightarrow> (Raised SqlException, s\<lparr>ds_tick := Suc (ds_tick s), ds_db := d\<rparr>)
      | (Inr x, d) \<Rightarrow> (Ok x, s\<lparr>ds_tick := Suc (ds_tick s), ds_db := d\<rparr>))"
  by (auto simp: jdbc_def healthy_def Let_def split: prod.splits sum.splits)

lemma with_connection_healthy:
  assumes "healthy srv" and "pool_live s"
  shows "with_connection srv body s =
     (case body (hd (ds_pool s)) (s\<lparr>ds_pool := tl (ds_pool s), ds_tick := Suc (ds_tick s)\<rparr>) of
        (r, s') \<Rightarrow> (r, s'\<lparr>ds_pool := ds_pool s' @ [hd (ds_pool s)]\<rparr>)) \<and> c_live (hd (ds_pool s))"
  using assms
  by (cases "ds_pool s")
    (auto simp: with_connection_def getConnection_def healthy_def pool_live_def refresh_def
      releaseConnection_def Let_def split: prod.splits)

lemma rotate1_hd_tl: "xs \<noteq> [] \<Longrightarrow> tl xs @ [hd xs] = rotate1 xs"
  by (cases xs) simp_all

text \<open>One statement under a guard, on a working server.\<close>

lemma dao_call_one:
  assumes "healthy srv" and "pool_live s"
  shows "dao_call srv failed (\<lambda>c. and_then (jdbc srv c st) (\<lambda>x. ret (g x))) s =
     (case st (Suc (ds_tick s)) (ds_db s) of
        (Inl e, d) \<Rightarrow> (Ok failed, served 2 d s)
      | (Inr x, d) \<Rightarrow> (Ok (g x), served 2 d s))"
proof -
  have "c_live (hd (ds_pool s))" using with_connection_healthy [OF assms] by blast
  moreover have "ds_pool s \<noteq> []" using assms(2) by (simp add: pool_live_def)
  ultimately show ?thesis
    by (auto simp: dao_call_def catch_sql_def catch_exn_def with_connection_healthy [OF assms]
        jdbc_healthy [OF assms(1)] and_then_def ret_def served_def rotate1_hd_tl
        split: prod.splits sum.splits)
qed

section \<open>A concrete server\<close>

definition demo_server :: server where
  "demo_server =
     \<lparr>my_driver = demo_driver, my_key = (\<lambda>s. s), my_fits = (\<lambda>n s. length s \<le> n),
      my_scan = (\<lambda>k n. [0 ..< n]), my_now = (\<lambda>k. k), my_ts = (\<lambda>t. to_string (int t)),
      my_fault = (\<lambda>k. NoFault), my_burn = False, my_found_rows = False, my_text_query = False,
      my_sum_int = (\<lambda>n. n), my_since = (\<lambda>k n. Some (int k - n * 86400)), my_neg_limit = False\<rparr>"

definition demo_dao :: dao_state where
  "demo_dao = \<lparr>ds_pool = [\<lparr>c_id = 0, c_live = True\<rparr>, \<lparr>c_id = 1, c_live = True\<rparr>], ds_db = empty_db,
     ds_tick = 0\<rparr>"

lemma demo_server_simps [simp]:
  "my_key demo_server s = s" "my_fits demo_server n s = (length s \<le> n)" "my_now demo_server k = k"
  "my_fault demo_server k = NoFault" "my_ts demo_server t = to_string (int t)"
  "my_text_query demo_server = False" "same demo_server a b = (a = b)"
  "scan demo_server k rows = rows"
  by (simp_all add: demo_server_def same_def scan_def map_nth)

lemma demo_dao_simps [simp]:
  "ds_db demo_dao = empty_db" "ds_tick demo_dao = 0" "pool_live demo_dao"
  "ds_pool demo_dao = [\<lparr>c_id = 0, c_live = True\<rparr>, \<lparr>c_id = 1, c_live = True\<rparr>]"
  by (simp_all add: demo_dao_def pool_live_def)

lemma demo_healthy [simp]: "healthy demo_server"
  by (simp add: healthy_def demo_server_def demo_driver_def)

end
