(* ===== verification/UserDAO.thy ===== *)
theory UserDAO
  imports Dao Passwords
begin

text \<open>
  \<open>src/models/user.h\<close> and \<open>src/database/UserDAO.cpp\<close>: the nine operations on the table \<open>users\<close>, what
  each does on a working server, and the contract \<open>account_store\<close> that the handlers use.
\<close>

record user =
  us_id :: int
  us_username :: string
  us_passwd_hash :: string
  us_email :: string
  us_qq_id :: string
  us_netease_id :: string
  us_create_at :: string
  us_update_at :: string

definition new_user :: user where
  "new_user =
     \<lparr>us_id = 0, us_username = [], us_passwd_hash = [], us_email = [], us_qq_id = [],
      us_netease_id = [], us_create_at = [], us_update_at = []\<rparr>"

text \<open>\<open>setNull\<close> for an empty text, \<open>setString\<close> otherwise; and back\<close>

definition null_if_empty :: "string \<Rightarrow> string option" where
  "null_if_empty s = (if s = [] then None else Some s)"

definition empty_if_null :: "string option \<Rightarrow> string" where
  "empty_if_null v = (case v of None \<Rightarrow> [] | Some s \<Rightarrow> s)"

lemma empty_if_null_inverse [simp]: "empty_if_null (null_if_empty s) = s"
  by (simp add: null_if_empty_def empty_if_null_def)

definition buildFromResultSet :: "server \<Rightarrow> user_row \<Rightarrow> user" where
  "buildFromResultSet srv r =
     \<lparr>us_id = ur_id r, us_username = ur_username r, us_passwd_hash = ur_passwd_hash r,
      us_email = ur_email r, us_qq_id = empty_if_null (ur_qq_id r),
      us_netease_id = empty_if_null (ur_netease_id r), us_create_at = my_ts srv (ur_create_at r),
      us_update_at = my_ts srv (ur_update_at r)\<rparr>"

definition createUser :: "server \<Rightarrow> digest_fun \<Rightarrow> user \<Rightarrow> (dao_state, bool \<times> user) prog" where
  "createUser srv evp u =
     (let hashed_passwd = hashPassword evp (us_passwd_hash u) in
      dao_call srv (False, u) (\<lambda>c.
        and_then (jdbc srv c (insert_user srv (c_id c) (us_username u) hashed_passwd (us_email u))) (\<lambda>_.
        and_then (jdbc srv c (select_last_insert_id (c_id c))) (\<lambda>result.
        ret (case result of i # _ \<Rightarrow> (True, u\<lparr>us_id := i\<rparr>) | [] \<Rightarrow> (False, u))))))"

definition first_user :: "server \<Rightarrow> user_row list \<Rightarrow> user option" where
  "first_user srv rows = (case rows of r # _ \<Rightarrow> Some (buildFromResultSet srv r) | [] \<Rightarrow> None)"

definition getUserById :: "server \<Rightarrow> int \<Rightarrow> (dao_state, user option) prog" where
  "getUserById srv i =
     dao_call srv None (\<lambda>c. and_then (jdbc srv c (select_users_by_id srv i))
       (\<lambda>rows. ret (first_user srv rows)))"

definition getUserByUsername :: "server \<Rightarrow> string \<Rightarrow> (dao_state, user option) prog" where
  "getUserByUsername srv username =
     dao_call srv None (\<lambda>c. and_then (jdbc srv c (select_users_by_username srv username))
       (\<lambda>rows. ret (first_user srv rows)))"

definition updateUser :: "server \<Rightarrow> user \<Rightarrow> (dao_state, bool) prog" where
  "updateUser srv u =
     dao_call srv False (\<lambda>c. and_then
       (jdbc srv c (update_user_row srv (us_username u) (us_email u) (null_if_empty (us_qq_id u))
          (null_if_empty (us_netease_id u)) (us_id u)))
       (\<lambda>affected_row. ret (0 < affected_row)))"

definition deleteUser :: "server \<Rightarrow> int \<Rightarrow> (dao_state, bool) prog" where
  "deleteUser srv i =
     dao_call srv False (\<lambda>c. and_then (jdbc srv c (delete_user_row i))
       (\<lambda>affected_row. ret (0 < affected_row)))"

definition updatePassword :: "server \<Rightarrow> digest_fun \<Rightarrow> int \<Rightarrow> string \<Rightarrow> (dao_state, bool) prog" where
  "updatePassword srv evp user_id new_password =
     dao_call srv False (\<lambda>c. and_then
       (jdbc srv c (update_passwd_hash srv (hashPassword evp new_password) user_id))
       (\<lambda>_. ret True))"

definition updateQQId :: "server \<Rightarrow> int \<Rightarrow> string \<Rightarrow> (dao_state, bool) prog" where
  "updateQQId srv user_id qq_id =
     dao_call srv False (\<lambda>c. and_then (jdbc srv c (update_qq_id srv qq_id user_id)) (\<lambda>_. ret True))"

definition updateNetEaseId :: "server \<Rightarrow> int \<Rightarrow> string \<Rightarrow> (dao_state, bool) prog" where
  "updateNetEaseId srv user_id netease_id =
     dao_call srv False (\<lambda>c. and_then (jdbc srv c (update_netease_id srv netease_id user_id))
       (\<lambda>_. ret True))"

lemmas user_dao_defs = createUser_def getUserById_def getUserByUsername_def updateUser_def
  deleteUser_def updatePassword_def updateQQId_def updateNetEaseId_def

section \<open>What every operation keeps, whatever fails\<close>

lemma createUser_keeps [preserve_intros]: "preserves (on_db (schema_ok srv)) (createUser srv evp u)"
  unfolding createUser_def Let_def by (intro preserve_intros stmt_intros)

lemma getUserById_keeps [preserve_intros]: "preserves (on_db I) (getUserById srv i)"
  unfolding getUserById_def by (intro preserve_intros stmt_intros)

lemma getUserByUsername_keeps [preserve_intros]: "preserves (on_db I) (getUserByUsername srv n)"
  unfolding getUserByUsername_def by (intro preserve_intros stmt_intros)

lemma updateUser_keeps [preserve_intros]: "preserves (on_db (schema_ok srv)) (updateUser srv u)"
  unfolding updateUser_def by (intro preserve_intros stmt_intros)

lemma deleteUser_keeps [preserve_intros]: "preserves (on_db (schema_ok srv)) (deleteUser srv i)"
  unfolding deleteUser_def by (intro preserve_intros stmt_intros)

lemma updatePassword_keeps [preserve_intros]:
  "preserves (on_db (schema_ok srv)) (updatePassword srv evp i p)"
  unfolding updatePassword_def by (intro preserve_intros stmt_intros)

lemma updateQQId_keeps [preserve_intros]: "preserves (on_db (schema_ok srv)) (updateQQId srv i q)"
  unfolding updateQQId_def by (intro preserve_intros stmt_intros)

lemma updateNetEaseId_keeps [preserve_intros]:
  "preserves (on_db (schema_ok srv)) (updateNetEaseId srv i q)"
  unfolding updateNetEaseId_def by (intro preserve_intros stmt_intros)

section \<open>Reading users\<close>

lemma filter_unique:
  assumes "distinct ys" and "mset ys = mset xs"
    and "\<And>r r'. r \<in> set xs \<Longrightarrow> r' \<in> set xs \<Longrightarrow> P r \<Longrightarrow> P r' \<Longrightarrow> r = r'"
  shows "filter P ys = (case find P xs of None \<Rightarrow> [] | Some r \<Rightarrow> [r])"
proof -
  have set: "set ys = set xs" using assms(2) by (metis set_mset_mset)
  show ?thesis
  proof (cases "find P xs")
    case None
    then have "\<forall>x \<in> set ys. \<not> P x" using set by (auto simp: find_None_iff)
    with None show ?thesis by simp
  next
    case (Some r)
    then have r: "r \<in> set xs" "P r" by (auto simp: find_Some_iff)
    have "filter P ys = filter (\<lambda>y. id y = id r) ys"
      using assms(3) r set by (intro filter_cong refl) auto
    also have "\<dots> = [r]"
      using assms(1) r(1) set by (intro filter_eq_singleton) simp_all
    finally show ?thesis using Some by simp
  qed
qed

text \<open>The user with a name or an identifier, as the tables say it.\<close>

definition user_by_name :: "server \<Rightarrow> db \<Rightarrow> string \<Rightarrow> user option" where
  "user_by_name srv d n =
     map_option (buildFromResultSet srv) (find (\<lambda>r. same srv (ur_username r) n) (users d))"

definition user_by_id :: "server \<Rightarrow> db \<Rightarrow> int \<Rightarrow> user option" where
  "user_by_id srv d i = map_option (buildFromResultSet srv) (find (\<lambda>r. ur_id r = i) (users d))"

lemma distinct_users: "schema_ok srv d \<Longrightarrow> distinct (users d)"
  by (simp add: schema_defs ids_ok_def distinct_map)

lemma distinct_scan: "distinct rows \<Longrightarrow> distinct (scan srv k rows)"
  using distinct_map_scan [of id rows srv k] by simp

lemma first_by_name:
  assumes "schema_ok srv d"
  shows "first_user srv (filter (\<lambda>r. same srv (ur_username r) n) (scan srv k (users d))) =
    user_by_name srv d n"
proof -
  have "filter (\<lambda>r. same srv (ur_username r) n) (scan srv k (users d)) =
      (case find (\<lambda>r. same srv (ur_username r) n) (users d) of None \<Rightarrow> [] | Some r \<Rightarrow> [r])"
    using assms by (intro filter_unique distinct_scan distinct_users [of srv] mset_scan)
      (auto intro!: schema_unique_username [of srv d] simp: same_def)
  then show ?thesis by (simp add: first_user_def user_by_name_def split: option.splits)
qed

lemma first_by_id:
  assumes "schema_ok srv d"
  shows "first_user srv (filter (\<lambda>r. ur_id r = i) (scan srv k (users d))) = user_by_id srv d i"
proof -
  have "filter (\<lambda>r. ur_id r = i) (scan srv k (users d)) =
      (case find (\<lambda>r. ur_id r = i) (users d) of None \<Rightarrow> [] | Some r \<Rightarrow> [r])"
    using assms by (intro filter_unique distinct_scan distinct_users [of srv] mset_scan)
      (auto intro!: schema_unique_id [of srv d])
  then show ?thesis by (simp add: first_user_def user_by_id_def split: option.splits)
qed

text \<open>A state in which an operation has everything it needs.\<close>

definition dao_good :: "server \<Rightarrow> dao_state \<Rightarrow> bool" where
  "dao_good srv s \<longleftrightarrow> healthy srv \<and> pool_live s \<and> schema_ok srv (ds_db s)"

lemma dao_goodD: "dao_good srv s \<Longrightarrow> healthy srv \<and> pool_live s \<and> schema_ok srv (ds_db s)"
  by (simp add: dao_good_def)

lemma getUserByUsername_good:
  "dao_good srv s \<Longrightarrow>
   getUserByUsername srv n s = (Ok (user_by_name srv (ds_db s) n), served 2 (ds_db s) s)"
  by (simp add: getUserByUsername_def dao_call_one dao_good_def select_users_by_username_def
      first_by_name)

lemma getUserById_good:
  "dao_good srv s \<Longrightarrow> getUserById srv i s = (Ok (user_by_id srv (ds_db s) i), served 2 (ds_db s) s)"
  by (simp add: getUserById_def dao_call_one dao_good_def select_users_by_id_def first_by_id)

lemma dao_good_served: "dao_good srv s \<Longrightarrow> schema_ok srv d \<Longrightarrow> dao_good srv (served n d s)"
  by (simp add: dao_good_def)

section \<open>Writing users\<close>

text \<open>When \<open>createUser\<close> can insert the row.\<close>

definition can_create :: "server \<Rightarrow> digest_fun \<Rightarrow> user \<Rightarrow> db \<Rightarrow> bool" where
  "can_create srv evp u d \<longleftrightarrow>
     my_fits srv 50 (us_username u) \<and> my_fits srv 255 (hashPassword evp (us_passwd_hash u)) \<and>
     my_fits srv 50 (us_email u) \<and> ai_users d \<le> max_int \<and>
     (\<forall>r \<in> set (users d). \<not> same srv (ur_username r) (us_username u) \<and>
                           \<not> same srv (ur_email r) (us_email u))"

lemma insert_user_ok:
  "can_create srv evp u d \<Longrightarrow>
   insert_user srv cid (us_username u) (hashPassword evp (us_passwd_hash u)) (us_email u) k d =
     (Inr 1, d\<lparr>users := users d @
         [\<lparr>ur_id = ai_users d, ur_username = us_username u,
           ur_passwd_hash = hashPassword evp (us_passwd_hash u), ur_email = us_email u,
           ur_qq_id = None, ur_netease_id = None, ur_create_at = my_now srv k,
           ur_update_at = my_now srv k\<rparr>],
       ai_users := ai_users d + 1, last_insert := (last_insert d)(cid := ai_users d)\<rparr>)"
  by (auto simp: insert_user_def can_create_def)

lemma insert_user_not_ok:
  "\<not> can_create srv evp u d \<Longrightarrow> \<exists>e d'. users d' = users d \<and>
   insert_user srv cid (us_username u) (hashPassword evp (us_passwd_hash u)) (us_email u) k d =
     (Inl e, d')"
  by (auto simp: insert_user_def can_create_def)

lemma createUser_good:
  assumes "dao_good srv s"
  shows "\<exists>s'. createUser srv evp u s =
      (Ok (if can_create srv evp u (ds_db s) then (True, u\<lparr>us_id := ai_users (ds_db s)\<rparr>)
           else (False, u)), s') \<and>
    dao_good srv s' \<and>
    users (ds_db s') = users (ds_db s) @
      (if can_create srv evp u (ds_db s)
       then [\<lparr>ur_id = ai_users (ds_db s), ur_username = us_username u,
              ur_passwd_hash = hashPassword evp (us_passwd_hash u), ur_email = us_email u,
              ur_qq_id = None, ur_netease_id = None,
              ur_create_at = my_now srv (Suc (ds_tick s)), ur_update_at = my_now srv (Suc (ds_tick s))\<rparr>]
       else [])"
proof -
  note g = dao_goodD [OF assms]
  let ?c = "hd (ds_pool s)"
  have live: "c_live ?c" and ne: "ds_pool s \<noteq> []"
    using with_connection_healthy [of srv s] g by (auto simp: pool_live_def)
  have pool: "list_all c_live (tl (ds_pool s) @ [?c])"
    using g ne by (cases "ds_pool s") (auto simp: pool_live_def)
  obtain r s' where r: "createUser srv evp u s = (r, s')" by fastforce
  have schema: "schema_ok srv (ds_db s')"
    using preservesD_eq [OF createUser_keeps _ r] g by blast
  show ?thesis
  proof (cases "can_create srv evp u (ds_db s)")
    case True
    then show ?thesis
      using g live pool schema r
      by (auto simp: createUser_def dao_call_def catch_sql_def catch_exn_def Let_def
          with_connection_healthy jdbc_healthy and_then_def ret_def insert_user_ok
          select_last_insert_id_def dao_good_def pool_live_def)
  next
    case False
    obtain e d' where ins: "users d' = users (ds_db s)"
      "insert_user srv (c_id ?c) (us_username u) (hashPassword evp (us_passwd_hash u)) (us_email u)
         (Suc (ds_tick s)) (ds_db s) = (Inl e, d')"
      using insert_user_not_ok [OF False] by blast
    then show ?thesis
      using False g live pool schema r
      by (auto simp: createUser_def dao_call_def catch_sql_def catch_exn_def Let_def
          with_connection_healthy jdbc_healthy and_then_def ret_def dao_good_def pool_live_def)
  qed
qed

text \<open>
  The updates of one user: on a working server they succeed whenever the new value fits, also when
  there is no such user, and change the rows of that user alone.
\<close>

lemma update_users_same_keys:
  assumes d: "schema_ok srv d" and id: "\<And>r. ur_id (f r) = ur_id r"
    and keys: "\<And>r. ur_username (f r) = ur_username r" "\<And>r. ur_email (f r) = ur_email r"
    and ok: "user_by_id srv d i \<noteq> None \<Longrightarrow> ok"
  shows "\<exists>n. update_users srv ok f i k d =
    (Inr n, d\<lparr>users := update_rows (\<lambda>r. ur_id r = i) f (\<lambda>r. r\<lparr>ur_update_at := my_now srv k\<rparr>) (users d)\<rparr>)"
proof -
  let ?rows = "update_rows (\<lambda>r. ur_id r = i) f (\<lambda>r. r\<lparr>ur_update_at := my_now srv k\<rparr>) (users d)"
  have "map (my_key srv \<circ> ur_username) ?rows = map (my_key srv \<circ> ur_username) (users d)"
    and "map (my_key srv \<circ> ur_email) ?rows = map (my_key srv \<circ> ur_email) (users d)"
    using keys by (auto simp: update_rows_def)
  moreover have "(\<exists>r \<in> set (users d). ur_id r = i) \<Longrightarrow> ok"
    using ok by (auto simp: user_by_id_def find_None_iff)
  ultimately show ?thesis
    using d by (auto simp: update_users_def Let_def schema_defs)
qed

lemma find_update_rows:
  assumes "\<And>r. Q (stamp (f r)) = Q r"
  shows "find Q (update_rows P f stamp rows) =
    map_option (\<lambda>r. if P r \<and> f r \<noteq> r then stamp (f r) else r) (find Q rows)"
proof (induction rows)
  case (Cons a rows)
  then show ?case using assms [of a] by (auto simp: update_rows_def)
qed (simp add: update_rows_def)

lemma passwd_unchanged: "r\<lparr>ur_passwd_hash := h\<rparr> = r \<Longrightarrow> ur_passwd_hash r = h"
  by (drule arg_cong [of _ _ ur_passwd_hash]) simp

lemma updatePassword_good:
  assumes g: "dao_good srv s" and fits: "my_fits srv 255 (hashPassword evp p)"
  shows "\<exists>s'. updatePassword srv evp i p s = (Ok True, s') \<and> dao_good srv s' \<and>
    users (ds_db s') = update_rows (\<lambda>r. ur_id r = i) (\<lambda>r. r\<lparr>ur_passwd_hash := hashPassword evp p\<rparr>)
      (\<lambda>r. r\<lparr>ur_update_at := my_now srv (Suc (ds_tick s))\<rparr>) (users (ds_db s))"
proof -
  obtain r s' where r: "updatePassword srv evp i p s = (r, s')" by fastforce
  have schema: "schema_ok srv (ds_db s')"
    using preservesD_eq [OF updatePassword_keeps _ r] dao_goodD [OF g] by blast
  obtain n where "update_passwd_hash srv (hashPassword evp p) i (Suc (ds_tick s)) (ds_db s) =
      (Inr n, (ds_db s)\<lparr>users := update_rows (\<lambda>r. ur_id r = i)
         (\<lambda>r. r\<lparr>ur_passwd_hash := hashPassword evp p\<rparr>)
         (\<lambda>r. r\<lparr>ur_update_at := my_now srv (Suc (ds_tick s))\<rparr>) (users (ds_db s))\<rparr>)"
    using update_users_same_keys [of srv "ds_db s" "\<lambda>r. r\<lparr>ur_passwd_hash := hashPassword evp p\<rparr>" i
        "my_fits srv 255 (hashPassword evp p)" "Suc (ds_tick s)"] dao_goodD [OF g] fits
    by (auto simp: update_passwd_hash_def)
  with r schema dao_goodD [OF g] show ?thesis
    by (auto simp: updatePassword_def dao_call_one dao_good_def)
qed

definition password_rows :: "int \<Rightarrow> string \<Rightarrow> nat \<Rightarrow> user_row list \<Rightarrow> user_row list" where
  "password_rows i h t =
     update_rows (\<lambda>r. ur_id r = i) (\<lambda>r. r\<lparr>ur_passwd_hash := h\<rparr>) (\<lambda>r. r\<lparr>ur_update_at := t\<rparr>)"

lemma find_password_rows:
  assumes "\<And>r. Q (r\<lparr>ur_passwd_hash := h, ur_update_at := t\<rparr>) = Q r"
  shows "\<exists>g. find Q (password_rows i h t rows) = map_option g (find Q rows) \<and>
    (\<forall>r. ur_id (g r) = ur_id r \<and> ur_username (g r) = ur_username r \<and> ur_email (g r) = ur_email r \<and>
         ur_passwd_hash (g r) = (if ur_id r = i then h else ur_passwd_hash r))"
proof -
  have "find Q (password_rows i h t rows) =
      map_option (\<lambda>r. if ur_id r = i \<and> r\<lparr>ur_passwd_hash := h\<rparr> \<noteq> r
        then r\<lparr>ur_passwd_hash := h, ur_update_at := t\<rparr> else r) (find Q rows)"
    unfolding password_rows_def using assms by (subst find_update_rows) simp_all
  then show ?thesis
    by (intro exI [of _ "\<lambda>r. if ur_id r = i \<and> r\<lparr>ur_passwd_hash := h\<rparr> \<noteq> r
        then r\<lparr>ur_passwd_hash := h, ur_update_at := t\<rparr> else r"]) (auto dest: passwd_unchanged)
qed

section \<open>The contract of an account store\<close>

text \<open>
  What the handlers rely on, over any state: accounts are found by name and by identifier and both
  agree; a new account has the hash of its password; changing a password changes that hash alone.
  \<open>login_check\<close> is the check of \<open>handleLogin\<close>.
\<close>

definition login_check ::
  "(string \<Rightarrow> ('s, user option) prog) \<Rightarrow> (string \<Rightarrow> string) \<Rightarrow> string \<Rightarrow> string \<Rightarrow>
   ('s, user option) prog" where
  "login_check get_by_name hash n p =
     and_then (get_by_name n) (\<lambda>u. ret
       (case u of None \<Rightarrow> None
        | Some v \<Rightarrow> if hash p = us_passwd_hash v then Some v else None))"

locale account_store =
  fixes good :: "'s \<Rightarrow> bool"
    and by_name :: "'s \<Rightarrow> string \<Rightarrow> user option"
    and by_id :: "'s \<Rightarrow> int \<Rightarrow> user option"
    and acceptable :: "'s \<Rightarrow> user \<Rightarrow> bool"
    and hash :: "string \<Rightarrow> string"
    and storable :: "string \<Rightarrow> bool"
    and get_by_name :: "string \<Rightarrow> ('s, user option) prog"
    and get_by_id :: "int \<Rightarrow> ('s, user option) prog"
    and create :: "user \<Rightarrow> ('s, bool \<times> user) prog"
    and set_password :: "int \<Rightarrow> string \<Rightarrow> ('s, bool) prog"
  assumes get_by_name: "good s \<Longrightarrow> \<exists>s'. get_by_name n s = (Ok (by_name s n), s') \<and> good s' \<and>
      by_name s' = by_name s \<and> by_id s' = by_id s"
    and get_by_id: "good s \<Longrightarrow> \<exists>s'. get_by_id i s = (Ok (by_id s i), s') \<and> good s' \<and>
      by_name s' = by_name s \<and> by_id s' = by_id s"
    and agree: "good s \<Longrightarrow> by_name s n = Some v \<Longrightarrow> by_id s (us_id v) = Some v"
    and create_ok: "good s \<Longrightarrow> acceptable s u \<Longrightarrow> \<exists>s' v.
      create u s = (Ok (True, u\<lparr>us_id := us_id v\<rparr>), s') \<and> good s' \<and>
      by_name s' (us_username u) = Some v \<and> us_username v = us_username u \<and>
      us_email v = us_email u \<and> us_passwd_hash v = hash (us_passwd_hash u) \<and>
      (\<forall>i. by_id s' i = (if i = us_id v then Some v else by_id s i)) \<and> by_id s (us_id v) = None"
    and create_refused: "good s \<Longrightarrow> \<not> acceptable s u \<Longrightarrow> \<exists>s'.
      create u s = (Ok (False, u), s') \<and> good s' \<and> by_name s' = by_name s \<and> by_id s' = by_id s"
    and set_password: "good s \<Longrightarrow> storable (hash p) \<Longrightarrow> \<exists>s'.
      set_password i p s = (Ok True, s') \<and> good s' \<and>
      (\<forall>n. map_option us_id (by_name s' n) = map_option us_id (by_name s n)) \<and>
      (\<forall>j. map_option us_passwd_hash (by_id s' j) =
         (if j = i then map_option (\<lambda>_. hash p) (by_id s j)
          else map_option us_passwd_hash (by_id s j)))"
begin

lemma login_check_eq:
  "good s \<Longrightarrow> \<exists>s'. login_check get_by_name hash n p s =
     (Ok (case by_name s n of None \<Rightarrow> None
          | Some v \<Rightarrow> if hash p = us_passwd_hash v then Some v else None), s') \<and> good s'"
  using get_by_name [of s n] by (auto simp: login_check_def and_then_def ret_def)

lemma create_then_login:
  assumes "good s" and "acceptable s u"
  shows "\<exists>s' s'' v. create u s = (Ok (True, u\<lparr>us_id := us_id v\<rparr>), s') \<and> good s'' \<and>
    us_username v = us_username u \<and> us_email v = us_email u \<and>
    login_check get_by_name hash (us_username u) p s' =
      (Ok (if hash p = hash (us_passwd_hash u) then Some v else None), s'')"
proof -
  obtain s' v where s': "create u s = (Ok (True, u\<lparr>us_id := us_id v\<rparr>), s')" "good s'"
    "by_name s' (us_username u) = Some v" "us_username v = us_username u" "us_email v = us_email u"
    "us_passwd_hash v = hash (us_passwd_hash u)"
    using create_ok [OF assms] by blast
  from login_check_eq [OF s'(2), of "us_username u" p] s'(3,6) obtain s'' where
    "login_check get_by_name hash (us_username u) p s' =
      (Ok (if hash p = hash (us_passwd_hash u) then Some v else None), s'')" "good s''"
    by auto
  with s' show ?thesis by blast
qed

lemma set_password_then_login:
  assumes "good s" and "storable (hash p)" and "by_name s n = Some v"
  shows "\<exists>s' s'' v'. set_password (us_id v) p s = (Ok True, s') \<and> good s'' \<and> us_id v' = us_id v \<and>
    login_check get_by_name hash n q s' =
      (Ok (if hash q = hash p then Some v' else None), s'')"
proof -
  obtain s' where s': "set_password (us_id v) p s = (Ok True, s')" "good s'"
    and names: "\<forall>n. map_option us_id (by_name s' n) = map_option us_id (by_name s n)"
    and hashes: "map_option us_passwd_hash (by_id s' (us_id v)) = map_option (\<lambda>_. hash p) (by_id s (us_id v))"
    using set_password [OF assms(1,2), of "us_id v"] by auto
  from names assms(3) obtain v' where v': "by_name s' n = Some v'" "us_id v' = us_id v"
    by (metis (no_types, lifting) map_option_eq_Some option.simps(9))
  with hashes agree [OF s'(2) v'(1)] agree [OF assms(1,3)] have "us_passwd_hash v' = hash p"
    by simp
  with login_check_eq [OF s'(2), of n q] v'(1) obtain s'' where
    "login_check get_by_name hash n q s' = (Ok (if hash q = hash p then Some v' else None), s'')"
    "good s''"
    by auto
  with s' v' show ?thesis by blast
qed

end

section \<open>\<open>UserDAO\<close> meets the contract\<close>

lemma find_SomeD: "find P xs = Some x \<Longrightarrow> x \<in> set xs \<and> P x"
  by (auto simp: find_Some_iff)

lemma find_snoc: "find P (xs @ [x]) = (case find P xs of None \<Rightarrow> if P x then Some x else None | Some y \<Rightarrow> Some y)"
  by (induction xs) auto

lemma fresh_id: "schema_ok srv d \<Longrightarrow> r \<in> set (users d) \<Longrightarrow> ur_id r \<noteq> ai_users d"
  by (auto simp: schema_defs ids_ok_def)

interpretation accounts: account_store "dao_good srv" "\<lambda>s. user_by_name srv (ds_db s)"
  "\<lambda>s. user_by_id srv (ds_db s)" "\<lambda>s u. can_create srv evp u (ds_db s)" "hashPassword evp"
  "my_fits srv 255" "getUserByUsername srv" "getUserById srv" "createUser srv evp"
  "updatePassword srv evp" for srv evp
proof (unfold_locales, goal_cases)
  case (1 s n)
  then show ?case using dao_goodD [OF 1] by (auto simp: getUserByUsername_good dao_good_served)
next
  case (2 s i)
  then show ?case using dao_goodD [OF 2] by (auto simp: getUserById_good dao_good_served)
next
  case (3 s n v)
  then obtain r where r: "find (\<lambda>r. same srv (ur_username r) n) (users (ds_db s)) = Some r"
    "v = buildFromResultSet srv r"
    by (auto simp: user_by_name_def)
  then have "r \<in> set (users (ds_db s))" by (auto simp: find_Some_iff)
  moreover have "find (\<lambda>q. ur_id q = ur_id r) (users (ds_db s)) = Some q \<Longrightarrow> q = r" for q
    using schema_unique_id [of srv "ds_db s" q r] dao_goodD [OF 3(1)] \<open>r \<in> set (users (ds_db s))\<close>
    by (auto simp: find_Some_iff)
  ultimately show ?case
    using r(2) by (cases "find (\<lambda>q. ur_id q = ur_id r) (users (ds_db s))")
      (auto simp: user_by_id_def buildFromResultSet_def find_None_iff)
next
  case (4 s u)
  let ?row = "\<lparr>ur_id = ai_users (ds_db s), ur_username = us_username u,
    ur_passwd_hash = hashPassword evp (us_passwd_hash u), ur_email = us_email u, ur_qq_id = None,
    ur_netease_id = None, ur_create_at = my_now srv (Suc (ds_tick s)),
    ur_update_at = my_now srv (Suc (ds_tick s))\<rparr>"
  obtain s' where s': "createUser srv evp u s = (Ok (True, u\<lparr>us_id := ai_users (ds_db s)\<rparr>), s')"
    "dao_good srv s'" "users (ds_db s') = users (ds_db s) @ [?row]"
    using createUser_good [OF 4(1), of evp u] 4(2) by auto
  have "find (\<lambda>r. same srv (ur_username r) (us_username u)) (users (ds_db s)) = None"
    using 4(2) by (auto simp: can_create_def find_None_iff)
  moreover have "find (\<lambda>r. ur_id r = ai_users (ds_db s)) (users (ds_db s)) = None"
    using fresh_id [of srv "ds_db s"] dao_goodD [OF 4(1)] by (auto simp: find_None_iff)
  ultimately show ?case
    using s' by (intro exI [of _ s'] exI [of _ "buildFromResultSet srv ?row"])
      (auto simp: user_by_name_def user_by_id_def find_snoc buildFromResultSet_def split: option.splits)
next
  case (5 s u)
  then show ?case
    using createUser_good [OF 5(1), of evp u]
    by (auto simp: user_by_name_def user_by_id_def fun_eq_iff)
next
  case (6 s p i)
  obtain s' where s': "updatePassword srv evp i p s = (Ok True, s')" "dao_good srv s'"
    "users (ds_db s') = password_rows i (hashPassword evp p) (my_now srv (Suc (ds_tick s))) (users (ds_db s))"
    using updatePassword_good [OF 6, of i] by (auto simp: password_rows_def)
  have "map_option us_id (user_by_name srv (ds_db s') n) = map_option us_id (user_by_name srv (ds_db s) n)" for n
    using find_password_rows [of "\<lambda>r. same srv (ur_username r) n" "my_now srv (Suc (ds_tick s))"
        "hashPassword evp p" i "users (ds_db s)"] s'(3)
    by (auto simp: user_by_name_def buildFromResultSet_def option.map_comp o_def)
  moreover have "map_option us_passwd_hash (user_by_id srv (ds_db s') j) =
      (if j = i then map_option (\<lambda>_. hashPassword evp p) (user_by_id srv (ds_db s) j)
       else map_option us_passwd_hash (user_by_id srv (ds_db s) j))" for j
    using find_password_rows [of "\<lambda>r. ur_id r = j" "my_now srv (Suc (ds_tick s))"
        "hashPassword evp p" i "users (ds_db s)"] s'(3)
    by (cases "find (\<lambda>r. ur_id r = j) (users (ds_db s))")
      (auto simp: user_by_id_def buildFromResultSet_def dest: find_SomeD)
  ultimately show ?case using s' by auto
qed

lemma updatePassword_refused:
  assumes g: "dao_good srv s" and "\<not> my_fits srv 255 (hashPassword evp p)"
    and "updatePassword srv evp i p s = (Ok True, s')"
  shows "user_by_id srv (ds_db s) i = None \<and> users (ds_db s') = users (ds_db s)"
proof -
  have none: "\<not> (\<exists>r \<in> set (users (ds_db s)). ur_id r = i)"
    using assms dao_goodD [OF g]
    by (auto simp: updatePassword_def dao_call_one update_passwd_hash_def update_users_def Let_def
        split: if_splits)
  then have "update_rows (\<lambda>r. ur_id r = i) f g (users (ds_db s)) = users (ds_db s)" for f g
    by (auto simp: update_rows_def intro: map_idI)
  with none assms dao_goodD [OF g] show ?thesis
    by (auto simp: updatePassword_def dao_call_one update_passwd_hash_def update_users_def Let_def
        user_by_id_def find_None_iff split: if_splits)
qed

text \<open>What a successful change of a password did, whether or not the user exists\<close>

lemma updatePassword_effect:
  assumes g: "dao_good srv s" and u: "updatePassword srv evp i p s = (Ok True, s')"
  shows "dao_good srv s' \<and>
    (\<forall>n. map_option us_id (user_by_name srv (ds_db s') n) = map_option us_id (user_by_name srv (ds_db s) n)) \<and>
    (\<forall>j. map_option us_passwd_hash (user_by_id srv (ds_db s') j) =
       (if j = i then map_option (\<lambda>_. hashPassword evp p) (user_by_id srv (ds_db s) j)
        else map_option us_passwd_hash (user_by_id srv (ds_db s) j)))"
proof (cases "my_fits srv 255 (hashPassword evp p)")
  case True
  with accounts.set_password [OF g, of evp p i] u show ?thesis by auto
next
  case False
  have "schema_ok srv (ds_db s')"
    using preservesD_eq [OF updatePassword_keeps _ u] dao_goodD [OF g] by blast
  moreover have "pool_live s'"
    using u dao_goodD [OF g]
    by (auto simp: updatePassword_def dao_call_one split: prod.splits sum.splits)
  ultimately show ?thesis
    using updatePassword_refused [OF g False u] dao_goodD [OF g]
    by (auto simp: dao_good_def user_by_name_def user_by_id_def)
qed

text \<open>What a successful binding of a platform did, whether or not the user exists\<close>

lemma update_users_Inr:
  "update_users srv ok f i k d = (Inr n, d') \<Longrightarrow>
   d' = d\<lparr>users := update_rows (\<lambda>r. ur_id r = i) f (\<lambda>r. r\<lparr>ur_update_at := my_now srv k\<rparr>) (users d)\<rparr>"
  by (auto simp: update_users_def Let_def split: if_splits)

lemma dao_update_effect:
  assumes "dao_good srv s" and "dao_call srv False (\<lambda>c. and_then (jdbc srv c st) (\<lambda>_. ret True)) s = (Ok True, s')"
  shows "pool_live s' \<and> (\<exists>n. st (Suc (ds_tick s)) (ds_db s) = (Inr n, ds_db s'))"
  using assms dao_goodD [OF assms(1)] by (auto simp: dao_call_one split: prod.splits sum.splits)

lemma updateQQId_effect:
  assumes g: "dao_good srv s" and u: "updateQQId srv i q s = (Ok True, s')"
  shows "dao_good srv s' \<and> (\<exists>t. users (ds_db s') =
    update_rows (\<lambda>r. ur_id r = i) (\<lambda>r. r\<lparr>ur_qq_id := Some q\<rparr>) (\<lambda>r. r\<lparr>ur_update_at := t\<rparr>) (users (ds_db s)))"
proof -
  have "schema_ok srv (ds_db s')"
    using preservesD_eq [OF updateQQId_keeps _ u] dao_goodD [OF g] by blast
  with dao_update_effect [OF g u [unfolded updateQQId_def]] dao_goodD [OF g] show ?thesis
    by (auto simp: dao_good_def update_qq_id_def dest!: update_users_Inr)
qed

lemma updateNetEaseId_effect:
  assumes g: "dao_good srv s" and u: "updateNetEaseId srv i q s = (Ok True, s')"
  shows "dao_good srv s' \<and> (\<exists>t. users (ds_db s') =
    update_rows (\<lambda>r. ur_id r = i) (\<lambda>r. r\<lparr>ur_netease_id := Some q\<rparr>) (\<lambda>r. r\<lparr>ur_update_at := t\<rparr>) (users (ds_db s)))"
proof -
  have "schema_ok srv (ds_db s')"
    using preservesD_eq [OF updateNetEaseId_keeps _ u] dao_goodD [OF g] by blast
  with dao_update_effect [OF g u [unfolded updateNetEaseId_def]] dao_goodD [OF g] show ?thesis
    by (auto simp: dao_good_def update_netease_id_def dest!: update_users_Inr)
qed

section \<open>Properties\<close>

definition stored_user :: "server \<Rightarrow> digest_fun \<Rightarrow> user \<Rightarrow> nat \<Rightarrow> int \<Rightarrow> user_row" where
  "stored_user srv evp u k i =
     \<lparr>ur_id = i, ur_username = us_username u, ur_passwd_hash = hashPassword evp (us_passwd_hash u),
      ur_email = us_email u, ur_qq_id = None, ur_netease_id = None, ur_create_at = my_now srv k,
      ur_update_at = my_now srv k\<rparr>"

lemma insert_user_cases:
  assumes "insert_user srv cid n h m k d = (r, d')"
  obtains (inserted) "r = Inr 1" "last_insert d' cid = ai_users d"
      "users d' = users d @ [\<lparr>ur_id = ai_users d, ur_username = n, ur_passwd_hash = h, ur_email = m,
         ur_qq_id = None, ur_netease_id = None, ur_create_at = my_now srv k, ur_update_at = my_now srv k\<rparr>]"
      "\<forall>q \<in> set (users d). \<not> same srv (ur_username q) n \<and> \<not> same srv (ur_email q) m"
  | (refused) e where "r = Inl e" "users d' = users d"
  using assms unfolding insert_user_def by (auto split: if_splits)

lemma createUser_result:
  "createUser srv evp u s = (Ok (ok, u'), s') \<Longrightarrow>
   (if ok
    then (\<exists>k. users (ds_db s') = users (ds_db s) @ [stored_user srv evp u k (us_id u')]) \<and>
         u' = u\<lparr>us_id := us_id u'\<rparr> \<and>
         (\<forall>q \<in> set (users (ds_db s)). \<not> same srv (ur_username q) (us_username u) \<and>
            \<not> same srv (ur_email q) (us_email u))
    else u' = u \<and> (\<exists>k i. users (ds_db s') \<in> {users (ds_db s), users (ds_db s) @ [stored_user srv evp u k i]}))"
proof -
  assume "createUser srv evp u s = (Ok (ok, u'), s')"
  then show ?thesis unfolding createUser_def Let_def
  proof (cases rule: dao_call_cases)
    case (ran c p r' t)
    let ?s = "s\<lparr>ds_pool := p, ds_tick := Suc (ds_tick s)\<rparr>"
    let ?ins = "insert_user srv (c_id c) (us_username u) (hashPassword evp (us_passwd_hash u)) (us_email u)"
    obtain r1 t1 where call: "jdbc srv c ?ins ?s = (r1, t1)" by fastforce
    have last: "and_then (jdbc srv c (select_last_insert_id (c_id c))) (\<lambda>result. ret
        (case result of i # _ \<Rightarrow> (True, u\<lparr>us_id := i\<rparr>) | [] \<Rightarrow> (False, u))) t1 =
      (if my_fault srv (ds_tick t1) = NoFault \<and> c_live c
       then Ok (True, u\<lparr>us_id := last_insert (ds_db t1) (c_id c)\<rparr>) else Raised SqlException,
       t1\<lparr>ds_tick := Suc (ds_tick t1)\<rparr>)"
      by (cases "my_fault srv (ds_tick t1)")
        (auto simp: jdbc_def select_last_insert_id_def and_then_def ret_def Let_def)
    from call show ?thesis
    proof (cases rule: jdbc_cases)
      case (ok x d)
      from ok(2) show ?thesis
        by (cases rule: insert_user_cases)
          (use ran ok call last in \<open>auto simp: and_then_def stored_user_def split: if_splits\<close>)
    next
      case (lost x d)
      from lost(2) show ?thesis
        by (cases rule: insert_user_cases)
          (use ran lost call in \<open>auto simp: and_then_def stored_user_def split: if_splits\<close>)
    next
      case (refused e d)
      from refused(2) show ?thesis
        by (cases rule: insert_user_cases)
          (use ran refused call in \<open>auto simp: and_then_def split: if_splits\<close>)
    qed (use ran call in \<open>auto simp: and_then_def split: if_splits\<close>)
  qed simp
qed

text \<open>
  On any server, however its calls fail: when \<open>createUser\<close> reports success, exactly one row was
  added, it holds the caller's name and address and the hash of the password, the identifier in the
  caller's object is that row's, and no earlier row has the same name or address; when it reports
  failure, the object is unchanged and no earlier row was lost.
\<close>

theorem createUser_outcome:
  "createUser srv evp u s = (Ok (ok, u'), s') \<Longrightarrow>
   (if ok
    then (\<exists>k. users (ds_db s') = users (ds_db s) @ [stored_user srv evp u k (us_id u')]) \<and>
         u' = u\<lparr>us_id := us_id u'\<rparr> \<and>
         (\<forall>q \<in> set (users (ds_db s)). \<not> same srv (ur_username q) (us_username u) \<and>
            \<not> same srv (ur_email q) (us_email u))
    else u' = u \<and> (\<exists>k i. users (ds_db s') \<in> {users (ds_db s), users (ds_db s) @ [stored_user srv evp u k i]}))"
  by (rule createUser_result)

definition demo_user :: user where
  "demo_user = new_user\<lparr>us_username := ''ann'', us_passwd_hash := ''secret'', us_email := ''a@b.cc''\<rparr>"

lemma demo_user_simps [simp]:
  "us_username demo_user = ''ann''" "us_passwd_hash demo_user = ''secret''"
  "us_email demo_user = ''a@b.cc''" "us_id demo_user = 0"
  by (simp_all add: demo_user_def new_user_def)

lemma demo_dao_good: "dao_good demo_server demo_dao"
  by (simp add: dao_good_def schema_ok_empty)

lemma demo_can_create: "can_create demo_server demo_evp demo_user empty_db"
  by (simp add: can_create_def empty_db_def max_int_def)

lemma demo_create:
  "\<exists>s'. createUser demo_server demo_evp demo_user demo_dao = (Ok (True, demo_user\<lparr>us_id := 1\<rparr>), s') \<and>
     dao_good demo_server s'"
  using createUser_good [OF demo_dao_good, of demo_evp demo_user] demo_can_create
  by (auto simp: empty_db_def)

theorem createUser_outcome_witness:
  "\<exists>s'. createUser demo_server demo_evp demo_user demo_dao = (Ok (True, demo_user\<lparr>us_id := 1\<rparr>), s') \<and>
     map ur_id (users (ds_db s')) = [1]"
proof -
  obtain s' where s': "createUser demo_server demo_evp demo_user demo_dao =
      (Ok (True, demo_user\<lparr>us_id := 1\<rparr>), s')"
    using demo_create by blast
  show ?thesis using createUser_outcome [OF s'] s' by (auto simp: empty_db_def stored_user_def)
qed

lemma user_by_name_iff:
  "schema_ok srv d \<Longrightarrow> user_by_name srv d n = Some v \<longleftrightarrow>
     (\<exists>r \<in> set (users d). same srv (ur_username r) n \<and> v = buildFromResultSet srv r)"
proof -
  assume d: "schema_ok srv d"
  let ?P = "\<lambda>r. same srv (ur_username r) n"
  have "find ?P (users d) = Some r" if "r \<in> set (users d)" "?P r" for r
  proof (cases "find ?P (users d)")
    case None
    with that show ?thesis by (simp add: find_None_iff)
  next
    case (Some q)
    with that find_SomeD [OF Some] schema_unique_username [OF d, of q r] show ?thesis
      by (simp add: same_def)
  qed
  then show ?thesis by (auto simp: user_by_name_def dest: find_SomeD)
qed

text \<open>
  on a working server and tables that meet the schema, in whatever order the server visits the
  rows, \<open>getUserByUsername\<close> returns a user exactly when the table has a row whose name is equal
  under the collation, and then that row; it changes no table and leaves a working state.
\<close>

theorem getUserByUsername_exact:
  assumes "dao_good srv s"
  shows "\<exists>s' u. getUserByUsername srv n s = (Ok u, s') \<and> dao_good srv s' \<and> ds_db s' = ds_db s \<and>
    (\<forall>v. u = Some v \<longleftrightarrow>
      (\<exists>r \<in> set (users (ds_db s)). same srv (ur_username r) n \<and> v = buildFromResultSet srv r))"
  using getUserByUsername_good [OF assms, of n] user_by_name_iff [of srv "ds_db s" n]
    dao_goodD [OF assms] dao_good_served [OF assms, of "ds_db s" 2]
  by auto

theorem getUserByUsername_exact_witness:
  "\<exists>s' u. getUserByUsername demo_server ''ann'' demo_dao = (Ok u, s') \<and> u = None"
proof -
  obtain s' u where u: "getUserByUsername demo_server ''ann'' demo_dao = (Ok u, s')"
    "\<forall>v. u = Some v \<longleftrightarrow> (\<exists>r \<in> set (users (ds_db demo_dao)). same demo_server (ur_username r) ''ann'' \<and>
      v = buildFromResultSet demo_server r)"
    using getUserByUsername_exact [OF demo_dao_good, of "''ann''"] by blast
  then have "u = None" by (cases u) (auto simp: empty_db_def)
  with u show ?thesis by blast
qed

text \<open>
  on a working server \<open>updatePassword\<close> changes the hash of the user with the given identifier,
  and of nobody else, to that of the new password, and it returns \<open>true\<close> also when no such user
  exists.
\<close>

theorem updatePassword_exact:
  assumes "dao_good srv s" and "my_fits srv 255 (hashPassword evp p)"
  shows "\<exists>s'. updatePassword srv evp i p s = (Ok True, s') \<and> dao_good srv s' \<and>
    map (\<lambda>r. (ur_id r, ur_username r, ur_email r, ur_passwd_hash r)) (users (ds_db s')) =
    map (\<lambda>r. (ur_id r, ur_username r, ur_email r,
            if ur_id r = i then hashPassword evp p else ur_passwd_hash r)) (users (ds_db s))"
proof -
  have "map (\<lambda>r. (ur_id r, ur_username r, ur_email r, ur_passwd_hash r)) (password_rows i h t rows) =
      map (\<lambda>r. (ur_id r, ur_username r, ur_email r, if ur_id r = i then h else ur_passwd_hash r)) rows"
    for h t rows
    by (auto simp: password_rows_def update_rows_def dest: passwd_unchanged)
  then show ?thesis
    using updatePassword_good [OF assms, of i] by (auto simp: password_rows_def)
qed

theorem updatePassword_exact_witness:
  "\<exists>s'. updatePassword demo_server demo_evp 42 ''new'' demo_dao = (Ok True, s') \<and> users (ds_db s') = []"
  using updatePassword_exact [OF demo_dao_good, of demo_evp "''new''" 42]
  by (auto simp: empty_db_def)

lemma delete_user_effect:
  "delete_user_row i k d = (Inr n, d') \<Longrightarrow> 0 < n \<Longrightarrow>
   i \<in> ur_id ` set (users d) \<and> users d' = filter (\<lambda>r. ur_id r \<noteq> i) (users d) \<and>
   playlists d' = filter (\<lambda>p. pr_user_id p \<noteq> i) (playlists d) \<and>
   play_history d' = filter (\<lambda>h. hr_user_id h \<noteq> i) (play_history d)"
  by (auto simp: delete_user_row_def filter_empty_conv Let_def split: if_splits)

text \<open>
  on any server: when \<open>deleteUser\<close> reports success the user is gone together with everything that
  belonged to it: no row of \<open>playlists\<close> or \<open>play_history\<close> names the user, no song is left in one of
  its playlists, and every row of the other users is still there.
\<close>

theorem deleteUser_cascade:
  assumes "schema_ok srv (ds_db s)" and "deleteUser srv i s = (Ok True, s')"
  shows "i \<in> ur_id ` set (users (ds_db s)) \<and>
    users (ds_db s') = filter (\<lambda>r. ur_id r \<noteq> i) (users (ds_db s)) \<and>
    playlists (ds_db s') = filter (\<lambda>p. pr_user_id p \<noteq> i) (playlists (ds_db s)) \<and>
    play_history (ds_db s') = filter (\<lambda>h. hr_user_id h \<noteq> i) (play_history (ds_db s)) \<and>
    sr_playlist_id ` set (playlist_songs (ds_db s')) \<subseteq> pr_id ` set (playlists (ds_db s'))"
proof -
  have "schema_ok srv (ds_db s')"
    using preservesD_eq [OF deleteUser_keeps assms(1,2)] .
  then have songs: "sr_playlist_id ` set (playlist_songs (ds_db s')) \<subseteq> pr_id ` set (playlists (ds_db s'))"
    by (simp add: schema_defs)
  from assms(2) obtain n k where "delete_user_row i k (ds_db s) = (Inr n, ds_db s')" "0 < n"
    unfolding deleteUser_def
    by (cases rule: dao_call_cases) (auto simp: and_then_def ret_def split: prod.splits outcome.splits
        if_splits elim!: jdbc_cases)
  from delete_user_effect [OF this] songs show ?thesis by blast
qed

text \<open>Two users, each with a playlist, the first one's holding a song.\<close>

definition demo_owner :: "int \<Rightarrow> string \<Rightarrow> string \<Rightarrow> user_row" where
  "demo_owner i n m =
     \<lparr>ur_id = i, ur_username = n, ur_passwd_hash = ''ab'', ur_email = m, ur_qq_id = None,
      ur_netease_id = None, ur_create_at = 0, ur_update_at = 0\<rparr>"

definition demo_two :: dao_state where
  "demo_two = demo_dao\<lparr>ds_db := empty_db\<lparr>
     users := [demo_owner 1 ''ann'' ''a@b.cc'', demo_owner 2 ''bob'' ''b@b.cc''], ai_users := 3,
     playlists := [\<lparr>pr_id = 1, pr_user_id = 1, pr_name = ''mine'', pr_cover = None, pr_create_at = 0,
        pr_update_at = 0\<rparr>,
       \<lparr>pr_id = 2, pr_user_id = 2, pr_name = ''his'', pr_cover = None, pr_create_at = 0,
        pr_update_at = 0\<rparr>], ai_playlists := 3\<rparr>\<rparr>"

lemma demo_two_ok: "schema_ok demo_server (ds_db demo_two)"
  by (simp add: demo_two_def demo_owner_def schema_defs empty_db_def ids_ok_def max_int_def)

theorem deleteUser_cascade_witness:
  "\<exists>s'. deleteUser demo_server 1 demo_two = (Ok True, s') \<and>
     map ur_id (users (ds_db s')) = [2] \<and> map pr_id (playlists (ds_db s')) = [2]"
proof -
  obtain s' where s': "deleteUser demo_server 1 demo_two = (Ok True, s')"
    by (simp add: deleteUser_def dao_call_one demo_two_def pool_live_def delete_user_row_def
        demo_owner_def Let_def)
  show ?thesis
    using deleteUser_cascade [OF demo_two_ok s'] s'
    by (auto simp: demo_two_def demo_owner_def)
qed

end
