(* ===== verification/PlaylistDAO.thy ===== *)
theory PlaylistDAO
  imports UserDAO
begin

text \<open>
  \<open>src/models/playlist.h\<close>, \<open>src/models/song.h\<close> and \<open>src/database/PlaylistDAO.cpp\<close>: playlists and the
  songs in them, and the contract \<open>song_sets\<close>: a playlist is a set of songs.
\<close>

record playlist =
  pl_id :: int
  pl_user_id :: int
  pl_name :: string
  pl_cover :: string
  pl_create_at :: string
  pl_update_at :: string

record song =
  so_id :: int
  so_song_id :: string
  so_name :: string
  so_singer :: string
  so_pic :: string
  so_where :: string
  so_added_at :: string

definition buildPlaylistFromResultSet :: "server \<Rightarrow> playlist_row \<Rightarrow> playlist" where
  "buildPlaylistFromResultSet srv r =
     \<lparr>pl_id = pr_id r, pl_user_id = pr_user_id r, pl_name = pr_name r,
      pl_cover = empty_if_null (pr_cover r), pl_create_at = my_ts srv (pr_create_at r),
      pl_update_at = my_ts srv (pr_update_at r)\<rparr>"

definition buildSongFromResultSet :: "server \<Rightarrow> song_row \<Rightarrow> song" where
  "buildSongFromResultSet srv r =
     \<lparr>so_id = sr_id r, so_song_id = sr_song_id r, so_name = sr_song_name r,
      so_singer = sr_song_singer r, so_pic = empty_if_null (sr_song_pic r),
      so_where = sr_song_where r, so_added_at = my_ts srv (sr_added_at r)\<rparr>"

definition createPlaylist :: "server \<Rightarrow> playlist \<Rightarrow> (dao_state, bool \<times> playlist) prog" where
  "createPlaylist srv playlist =
     dao_call srv (False, playlist) (\<lambda>c.
       and_then (jdbc srv c (insert_playlist srv (c_id c) (pl_name playlist) (pl_user_id playlist)
                   (null_if_empty (pl_cover playlist)))) (\<lambda>_.
       and_then (jdbc srv c (text_query srv (select_last_insert_id (c_id c)))) (\<lambda>result.
       ret (case result of i # _ \<Rightarrow> (True, playlist\<lparr>pl_id := i\<rparr>) | [] \<Rightarrow> (False, playlist)))))"

definition getPlaylistById :: "server \<Rightarrow> int \<Rightarrow> (dao_state, playlist option) prog" where
  "getPlaylistById srv playlist_id =
     dao_call srv None (\<lambda>c. and_then (jdbc srv c (select_playlists srv (\<lambda>r. pr_id r = playlist_id)))
       (\<lambda>rows. ret (case rows of r # _ \<Rightarrow> Some (buildPlaylistFromResultSet srv r) | [] \<Rightarrow> None)))"

definition getPlaylistsByUserId :: "server \<Rightarrow> int \<Rightarrow> (dao_state, playlist list) prog" where
  "getPlaylistsByUserId srv user_id =
     dao_call srv [] (\<lambda>c. and_then (jdbc srv c (select_playlists srv (\<lambda>r. pr_user_id r = user_id)))
       (\<lambda>rows. ret (map (buildPlaylistFromResultSet srv) rows)))"

definition updatePlaylist :: "server \<Rightarrow> playlist \<Rightarrow> (dao_state, bool) prog" where
  "updatePlaylist srv playlist =
     dao_call srv False (\<lambda>c. and_then
       (jdbc srv c (update_playlist_row srv (pl_name playlist) (null_if_empty (pl_cover playlist))
          (pl_id playlist)))
       (\<lambda>affected_row. ret (0 < affected_row)))"

definition deletePlaylist :: "server \<Rightarrow> int \<Rightarrow> (dao_state, bool) prog" where
  "deletePlaylist srv i =
     dao_call srv False (\<lambda>c. and_then (jdbc srv c (delete_playlist_row i))
       (\<lambda>affected_row. ret (0 < affected_row)))"

definition addSongToPlaylist :: "server \<Rightarrow> int \<Rightarrow> song \<Rightarrow> (dao_state, bool) prog" where
  "addSongToPlaylist srv playlist_id song =
     dao_call srv False (\<lambda>c.
       and_then (jdbc srv c (count_songs (song_is srv playlist_id (so_song_id song) (so_where song))))
         (\<lambda>result.
       if (case result of n # _ \<Rightarrow> 0 < n | [] \<Rightarrow> False) then ret True
       else and_then (jdbc srv c (insert_song srv (c_id c) playlist_id (so_song_id song) (so_name song)
                        (so_singer song) (null_if_empty (so_pic song)) (so_where song)))
              (\<lambda>affected_row. ret (0 < affected_row))))"

definition removeSongFromPlaylist :: "server \<Rightarrow> int \<Rightarrow> string \<Rightarrow> string \<Rightarrow> (dao_state, bool) prog" where
  "removeSongFromPlaylist srv playlist_id song_id song_source =
     dao_call srv False (\<lambda>c. and_then
       (jdbc srv c (delete_songs (song_is srv playlist_id song_id song_source)))
       (\<lambda>affected_row. ret (0 < affected_row)))"

definition getSongsInPlaylist :: "server \<Rightarrow> int \<Rightarrow> (dao_state, song list) prog" where
  "getSongsInPlaylist srv playlist_id =
     dao_call srv [] (\<lambda>c. and_then (jdbc srv c (select_songs srv (\<lambda>r. sr_playlist_id r = playlist_id)))
       (\<lambda>rows. ret (map (buildSongFromResultSet srv) rows)))"

definition countSongsInPlaylist :: "server \<Rightarrow> int \<Rightarrow> (dao_state, int) prog" where
  "countSongsInPlaylist srv playlist_id =
     dao_call srv 0 (\<lambda>c. and_then (jdbc srv c (count_songs (\<lambda>r. sr_playlist_id r = playlist_id)))
       (\<lambda>result. ret (case result of n # _ \<Rightarrow> n | [] \<Rightarrow> 0)))"

lemmas playlist_dao_defs = createPlaylist_def getPlaylistById_def getPlaylistsByUserId_def
  updatePlaylist_def deletePlaylist_def addSongToPlaylist_def removeSongFromPlaylist_def
  getSongsInPlaylist_def countSongsInPlaylist_def

section \<open>What every operation keeps, whatever fails\<close>

lemma createPlaylist_keeps [preserve_intros]: "preserves (on_db (schema_ok srv)) (createPlaylist srv p)"
  unfolding createPlaylist_def by (intro preserve_intros stmt_intros)

lemma getPlaylistById_keeps [preserve_intros]: "preserves (on_db I) (getPlaylistById srv i)"
  unfolding getPlaylistById_def by (intro preserve_intros stmt_intros)

lemma getPlaylistsByUserId_keeps [preserve_intros]: "preserves (on_db I) (getPlaylistsByUserId srv i)"
  unfolding getPlaylistsByUserId_def by (intro preserve_intros stmt_intros)

lemma updatePlaylist_keeps [preserve_intros]: "preserves (on_db (schema_ok srv)) (updatePlaylist srv p)"
  unfolding updatePlaylist_def by (intro preserve_intros stmt_intros)

lemma deletePlaylist_keeps [preserve_intros]: "preserves (on_db (schema_ok srv)) (deletePlaylist srv i)"
  unfolding deletePlaylist_def by (intro preserve_intros stmt_intros)

lemma addSongToPlaylist_keeps [preserve_intros]:
  "preserves (on_db (schema_ok srv)) (addSongToPlaylist srv i x)"
  unfolding addSongToPlaylist_def by (intro preserve_intros stmt_intros)

lemma removeSongFromPlaylist_keeps [preserve_intros]:
  "preserves (on_db (schema_ok srv)) (removeSongFromPlaylist srv i x w)"
  unfolding removeSongFromPlaylist_def by (intro preserve_intros stmt_intros)

lemma getSongsInPlaylist_keeps [preserve_intros]: "preserves (on_db I) (getSongsInPlaylist srv i)"
  unfolding getSongsInPlaylist_def by (intro preserve_intros stmt_intros)

lemma countSongsInPlaylist_keeps [preserve_intros]: "preserves (on_db I) (countSongsInPlaylist srv i)"
  unfolding countSongsInPlaylist_def by (intro preserve_intros stmt_intros)

section \<open>The contract of a collection of song sets\<close>

text \<open>
  A playlist as its user sees it: the set of its songs, told apart by their keys. \<open>addable\<close> is what
  the store may refuse.
\<close>

locale song_sets =
  fixes good :: "'s \<Rightarrow> bool"
    and songs :: "'s \<Rightarrow> int \<Rightarrow> 'k set"
    and key :: "song \<Rightarrow> 'k"
    and addable :: "'s \<Rightarrow> int \<Rightarrow> song \<Rightarrow> bool"
    and add :: "int \<Rightarrow> song \<Rightarrow> ('s, bool) prog"
    and remove :: "int \<Rightarrow> song \<Rightarrow> ('s, bool) prog"
    and count :: "int \<Rightarrow> ('s, int) prog"
  assumes add: "good s \<Longrightarrow> \<exists>s'. add p x s = (Ok (key x \<in> songs s p \<or> addable s p x), s') \<and> good s' \<and>
      songs s' = (if addable s p x then (songs s)(p := insert (key x) (songs s p)) else songs s)"
    and remove: "good s \<Longrightarrow> \<exists>s'. remove p x s = (Ok (key x \<in> songs s p), s') \<and> good s' \<and>
      songs s' = (songs s)(p := songs s p - {key x})"
    and count: "good s \<Longrightarrow> \<exists>s'. count p s = (Ok (int (card (songs s p))), s') \<and> good s' \<and>
      songs s' = songs s"
    and finite_songs: "good s \<Longrightarrow> finite (songs s p)"
begin

text \<open>Adding a song a second time succeeds and changes nothing.\<close>

lemma add_twice:
  assumes "good s" and "add p x s = (Ok True, s')"
  shows "\<exists>s''. add p x s' = (Ok True, s'') \<and> good s'' \<and> songs s'' = songs s'"
proof -
  have s': "good s'" "key x \<in> songs s' p"
    using add [OF assms(1), of p x] assms(2) by (auto split: if_splits)
  then have "(songs s')(p := insert (key x) (songs s' p)) = songs s'"
    by (simp add: insert_absorb)
  with add [OF s'(1), of p x] s'(2) show ?thesis by (auto split: if_splits)
qed

text \<open>The count grows by one exactly when the song was new.\<close>

lemma count_add:
  assumes "good s" and "add p x s = (Ok True, s')"
  shows "\<exists>s''. count p s' = (Ok (int (card (songs s p)) + (if key x \<in> songs s p then 0 else 1)), s'')"
proof -
  have s': "good s'" "songs s' p = insert (key x) (songs s p)"
    using add [OF assms(1), of p x] assms(2) by (auto split: if_splits simp: insert_absorb)
  with count [OF s'(1), of p] finite_songs [OF assms(1), of p] show ?thesis
    by (auto simp: card_insert_if)
qed

lemma remove_added:
  assumes "good s" and "add p x s = (Ok True, s')"
  shows "\<exists>s''. remove p x s' = (Ok True, s'') \<and> songs s'' p = songs s p - {key x} \<and>
    (\<forall>q. q \<noteq> p \<longrightarrow> songs s'' q = songs s q)"
proof -
  have s': "good s'" "songs s' p = insert (key x) (songs s p)" "\<And>q. q \<noteq> p \<Longrightarrow> songs s' q = songs s q"
    using add [OF assms(1), of p x] assms(2) by (auto split: if_splits simp: insert_absorb)
  with remove [OF s'(1), of p x] show ?thesis by auto
qed

end

section \<open>\<open>PlaylistDAO\<close> meets the contract\<close>

definition sources_differ :: "server \<Rightarrow> bool" where
  "sources_differ srv \<longleftrightarrow> \<not> same srv ''QQ'' ''NetEase''"

definition row_key :: "server \<Rightarrow> song_row \<Rightarrow> string \<times> string" where
  "row_key srv r = (my_key srv (sr_song_id r), my_key srv (sr_song_where r))"

definition keys_in :: "server \<Rightarrow> db \<Rightarrow> int \<Rightarrow> (string \<times> string) set" where
  "keys_in srv d p = row_key srv ` {r \<in> set (playlist_songs d). sr_playlist_id r = p}"

definition new_song_key :: "server \<Rightarrow> song \<Rightarrow> string \<times> string" where
  "new_song_key srv x = (my_key srv (so_song_id x), my_key srv (so_where x))"

definition can_add :: "server \<Rightarrow> db \<Rightarrow> int \<Rightarrow> song \<Rightarrow> bool" where
  "can_add srv d p x \<longleftrightarrow>
     new_song_key srv x \<notin> keys_in srv d p \<and> enum_value srv (so_where x) \<noteq> None \<and>
     my_fits srv 50 (so_song_id x) \<and> my_fits srv 255 (so_name x) \<and> my_fits srv 255 (so_singer x) \<and>
     fits_opt srv 255 (null_if_empty (so_pic x)) \<and> ai_songs d \<le> max_int \<and>
     p \<in> pr_id ` set (playlists d)"

lemma song_is_key:
  "song_is srv p (so_song_id x) (so_where x) r \<longleftrightarrow>
   sr_playlist_id r = p \<and> row_key srv r = new_song_key srv x"
  by (auto simp: song_is_def same_def row_key_def new_song_key_def)

lemma in_keys_iff:
  "new_song_key srv x \<in> keys_in srv d p \<longleftrightarrow>
   (\<exists>r \<in> set (playlist_songs d). song_is srv p (so_song_id x) (so_where x) r)"
  unfolding song_is_key keys_in_def image_iff by fastforce

lemma no_song_iff:
  "filter (song_is srv p (so_song_id x) (so_where x)) (playlist_songs d) = [] \<longleftrightarrow>
   new_song_key srv x \<notin> keys_in srv d p"
  by (auto simp: in_keys_iff filter_empty_conv)

lemma keys_in_snoc:
  assumes "playlist_songs d' = playlist_songs d @ [r]"
  shows "keys_in srv d' = (keys_in srv d)
    (sr_playlist_id r := insert (row_key srv r) (keys_in srv d (sr_playlist_id r)))"
proof
  fix q
  have "{x \<in> set (playlist_songs d'). sr_playlist_id x = q} =
      {x \<in> set (playlist_songs d). sr_playlist_id x = q} \<union> (if sr_playlist_id r = q then {r} else {})"
    using assms by auto
  then show "keys_in srv d' q = ((keys_in srv d)
      (sr_playlist_id r := insert (row_key srv r) (keys_in srv d (sr_playlist_id r)))) q"
    by (simp add: keys_in_def image_Un)
qed

lemma insert_song_ok:
  assumes "can_add srv d p x"
  shows "\<exists>d'. insert_song srv cid p (so_song_id x) (so_name x) (so_singer x) (null_if_empty (so_pic x))
      (so_where x) k d = (Inr 1, d') \<and>
    keys_in srv d' = (keys_in srv d)(p := insert (new_song_key srv x) (keys_in srv d p))"
proof -
  obtain w where w: "enum_value srv (so_where x) = Some w" using assms by (auto simp: can_add_def)
  have nodup: "\<not> (\<exists>r \<in> set (playlist_songs d). sr_playlist_id r = p \<and>
      same srv (sr_song_id r) (so_song_id x) \<and> sr_song_where r = w)"
    using assms enum_value_member [OF w]
    by (auto simp: can_add_def in_keys_iff song_is_def same_def)
  have "my_key srv w = my_key srv (so_where x)"
    using enum_value_member [OF w] by (simp add: same_def)
  then have "keys_in srv d' = (keys_in srv d)(p := insert (new_song_key srv x) (keys_in srv d p))"
    if "playlist_songs d' = playlist_songs d @ [r]" "sr_playlist_id r = p" "sr_song_id r = so_song_id x"
      "sr_song_where r = w" for d' r
    using keys_in_snoc [OF that(1), of srv] that(2-4) by (simp add: row_key_def new_song_key_def)
  moreover have "\<exists>d' r. insert_song srv cid p (so_song_id x) (so_name x) (so_singer x)
      (null_if_empty (so_pic x)) (so_where x) k d = (Inr 1, d') \<and>
      playlist_songs d' = playlist_songs d @ [r] \<and> sr_playlist_id r = p \<and>
      sr_song_id r = so_song_id x \<and> sr_song_where r = w"
    using assms w nodup by (auto simp: insert_song_def can_add_def)
  ultimately show ?thesis by blast
qed

lemma insert_song_not_ok:
  assumes "\<not> can_add srv d p x" and "new_song_key srv x \<notin> keys_in srv d p"
  shows "\<exists>e d'. insert_song srv cid p (so_song_id x) (so_name x) (so_singer x) (null_if_empty (so_pic x))
      (so_where x) k d = (Inl e, d') \<and> keys_in srv d' = keys_in srv d"
  using assms by (auto simp: insert_song_def can_add_def keys_in_def fun_eq_iff split: option.splits)

definition lists_good :: "server \<Rightarrow> dao_state \<Rightarrow> bool" where
  "lists_good srv s \<longleftrightarrow> dao_good srv s \<and> sources_differ srv"

lemma lists_goodD:
  "lists_good srv s \<Longrightarrow>
   dao_good srv s \<and> healthy srv \<and> pool_live s \<and> schema_ok srv (ds_db s) \<and> sources_differ srv"
  by (simp add: lists_good_def dao_good_def)

lemma card_keys_in:
  assumes "schema_ok srv d" and "sources_differ srv"
  shows "card (keys_in srv d p) = length (filter (\<lambda>r. sr_playlist_id r = p) (playlist_songs d))"
proof -
  let ?rows = "filter (\<lambda>r. sr_playlist_id r = p) (playlist_songs d)"
  have keys: "distinct (map (song_key srv) (playlist_songs d))"
    and src: "\<And>r. r \<in> set (playlist_songs d) \<Longrightarrow> sr_song_where r \<in> {''QQ'', ''NetEase''}"
    using assms(1) by (auto simp: schema_defs song_sources_def)
  have "inj_on (row_key srv) (set ?rows)"
  proof (rule inj_onI)
    fix r q assume rq: "r \<in> set ?rows" "q \<in> set ?rows" "row_key srv r = row_key srv q"
    then have "sr_song_where r = sr_song_where q"
      using src [of r] src [of q] assms(2) by (auto simp: row_key_def sources_differ_def same_def)
    with rq have "song_key srv r = song_key srv q" by (auto simp: song_key_def row_key_def)
    with keys rq show "r = q" by (auto dest: distinct_map_unique)
  qed
  moreover have "distinct ?rows" using keys by (simp add: distinct_map)
  moreover have "keys_in srv d p = row_key srv ` set ?rows" by (auto simp: keys_in_def)
  ultimately show ?thesis by (simp only: card_image distinct_card)
qed

lemma addSong_good:
  assumes "lists_good srv s"
  shows "\<exists>s'. addSongToPlaylist srv p x s =
      (Ok (new_song_key srv x \<in> keys_in srv (ds_db s) p \<or> can_add srv (ds_db s) p x), s') \<and>
    lists_good srv s' \<and>
    keys_in srv (ds_db s') = (if can_add srv (ds_db s) p x
      then (keys_in srv (ds_db s))(p := insert (new_song_key srv x) (keys_in srv (ds_db s) p))
      else keys_in srv (ds_db s))"
proof -
  note g = lists_goodD [OF assms]
  let ?c = "hd (ds_pool s)"
  have live: "c_live ?c" and ne: "ds_pool s \<noteq> []"
    using with_connection_healthy [of srv s] g by (auto simp: pool_live_def)
  have pool: "list_all c_live (tl (ds_pool s) @ [?c])"
    using g ne by (cases "ds_pool s") (auto simp: pool_live_def)
  obtain r s' where r: "addSongToPlaylist srv p x s = (r, s')" by fastforce
  have schema: "schema_ok srv (ds_db s')"
    using preservesD_eq [OF addSongToPlaylist_keeps _ r] g by blast
  note run = addSongToPlaylist_def dao_call_def catch_sql_def catch_exn_def with_connection_healthy
    jdbc_healthy and_then_def ret_def count_songs_def no_song_iff
    lists_good_def dao_good_def pool_live_def
  consider (present) "new_song_key srv x \<in> keys_in srv (ds_db s) p" "\<not> can_add srv (ds_db s) p x"
    | (fresh) "new_song_key srv x \<notin> keys_in srv (ds_db s) p" "can_add srv (ds_db s) p x"
    | (bad) "new_song_key srv x \<notin> keys_in srv (ds_db s) p" "\<not> can_add srv (ds_db s) p x"
    unfolding can_add_def by blast
  then show ?thesis
  proof cases
    case present
    with g live pool schema r show ?thesis by (auto simp: run)
  next
    case fresh
    obtain d' where "insert_song srv (c_id ?c) p (so_song_id x) (so_name x) (so_singer x)
        (null_if_empty (so_pic x)) (so_where x) (Suc (Suc (ds_tick s))) (ds_db s) = (Inr 1, d')"
      "keys_in srv d' = (keys_in srv (ds_db s))(p := insert (new_song_key srv x) (keys_in srv (ds_db s) p))"
      using insert_song_ok [OF fresh(2)] by blast
    with fresh g live pool schema r show ?thesis by (auto simp: run)
  next
    case bad
    obtain e d' where "insert_song srv (c_id ?c) p (so_song_id x) (so_name x) (so_singer x)
        (null_if_empty (so_pic x)) (so_where x) (Suc (Suc (ds_tick s))) (ds_db s) = (Inl e, d')"
      "keys_in srv d' = keys_in srv (ds_db s)"
      using insert_song_not_ok [OF bad(2,1)] by blast
    with bad g live pool schema r show ?thesis by (auto simp: run)
  qed
qed

lemma remove_good:
  assumes "lists_good srv s"
  shows "\<exists>s'. removeSongFromPlaylist srv p (so_song_id x) (so_where x) s =
      (Ok (new_song_key srv x \<in> keys_in srv (ds_db s) p), s') \<and> lists_good srv s' \<and>
    keys_in srv (ds_db s') =
      (keys_in srv (ds_db s))(p := keys_in srv (ds_db s) p - {new_song_key srv x})"
proof -
  note g = lists_goodD [OF assms]
  obtain r s' where r: "removeSongFromPlaylist srv p (so_song_id x) (so_where x) s = (r, s')" by fastforce
  have schema: "schema_ok srv (ds_db s')"
    using preservesD_eq [OF removeSongFromPlaylist_keeps _ r] g by blast
  have "keys_in srv (d\<lparr>playlist_songs := filter (\<lambda>r. \<not> song_is srv p (so_song_id x) (so_where x) r)
      (playlist_songs d)\<rparr>) = (keys_in srv d)(p := keys_in srv d p - {new_song_key srv x})" for d
    by (auto simp: fun_eq_iff keys_in_def song_is_key)
  with r schema g show ?thesis
    by (auto simp: removeSongFromPlaylist_def dao_call_one delete_songs_def no_song_iff
        lists_good_def dao_good_def)
qed

lemma count_good:
  assumes "lists_good srv s"
  shows "countSongsInPlaylist srv p s = (Ok (int (card (keys_in srv (ds_db s) p))), served 2 (ds_db s) s)"
  using lists_goodD [OF assms]
  by (simp add: countSongsInPlaylist_def dao_call_one count_songs_def card_keys_in)

interpretation playlists: song_sets "lists_good srv" "\<lambda>s. keys_in srv (ds_db s)" "new_song_key srv"
  "\<lambda>s. can_add srv (ds_db s)" "addSongToPlaylist srv"
  "\<lambda>p x. removeSongFromPlaylist srv p (so_song_id x) (so_where x)" "countSongsInPlaylist srv" for srv
proof (unfold_locales, goal_cases)
  case (1 s p x)
  then show ?case by (rule addSong_good)
next
  case (2 s p x)
  then show ?case by (rule remove_good)
next
  case (3 s p)
  then show ?case using lists_goodD [OF 3]
    by (auto simp: count_good lists_good_def intro: dao_good_served)
next
  case (4 s p)
  then show ?case by (simp add: keys_in_def)
qed

section \<open>Properties\<close>

definition demo_song :: song where
  "demo_song = \<lparr>so_id = 0, so_song_id = ''001'', so_name = ''Song'', so_singer = ''Singer'', so_pic = [],
     so_where = ''QQ'', so_added_at = []\<rparr>"

definition demo_db :: db where
  "demo_db = empty_db\<lparr>users := [\<lparr>ur_id = 1, ur_username = ''ann'', ur_passwd_hash = ''x'',
       ur_email = ''a@b.cc'', ur_qq_id = None, ur_netease_id = None, ur_create_at = 0, ur_update_at = 0\<rparr>],
     ai_users := 2,
     playlists := [\<lparr>pr_id = 1, pr_user_id = 1, pr_name = ''list'', pr_cover = None, pr_create_at = 0,
       pr_update_at = 0\<rparr>], ai_playlists := 2\<rparr>"

definition demo_lists :: dao_state where
  "demo_lists = demo_dao\<lparr>ds_db := demo_db\<rparr>"

lemma demo_lists_simps [simp]:
  "ds_db demo_lists = demo_db" "ds_tick demo_lists = 0" "pool_live demo_lists"
  by (simp_all add: demo_lists_def pool_live_def)

lemma demo_db_ok: "schema_ok srv demo_db"
  by (simp add: schema_defs demo_db_def empty_db_def ids_ok_def max_int_def)

lemma demo_lists_good: "lists_good demo_server demo_lists"
  by (simp add: lists_good_def dao_good_def demo_db_ok sources_differ_def)

lemma demo_can_add: "can_add demo_server demo_db 1 demo_song"
  by (simp add: can_add_def keys_in_def demo_db_def empty_db_def demo_song_def enum_value_def
      song_sources_def fits_opt_def null_if_empty_def max_int_def)

text \<open>
  C26: on a working server a playlist is a set of songs: once \<open>addSongToPlaylist\<close> has succeeded, adding
  the song again succeeds and changes nothing, \<open>countSongsInPlaylist\<close> has grown by one exactly when
  the song was new, and \<open>removeSongFromPlaylist\<close> takes out that song and no other, in no other
  playlist.
\<close>

theorem playlist_is_a_set:
  assumes "lists_good srv s" and "addSongToPlaylist srv p x s = (Ok True, s')"
  shows "(\<exists>s''. addSongToPlaylist srv p x s' = (Ok True, s'') \<and>
       keys_in srv (ds_db s'') = keys_in srv (ds_db s')) \<and>
    (\<exists>s''. countSongsInPlaylist srv p s' = (Ok (int (card (keys_in srv (ds_db s) p)) +
       (if new_song_key srv x \<in> keys_in srv (ds_db s) p then 0 else 1)), s'')) \<and>
    (\<exists>s''. removeSongFromPlaylist srv p (so_song_id x) (so_where x) s' = (Ok True, s'') \<and>
       keys_in srv (ds_db s'') p = keys_in srv (ds_db s) p - {new_song_key srv x} \<and>
       (\<forall>q. q \<noteq> p \<longrightarrow> keys_in srv (ds_db s'') q = keys_in srv (ds_db s) q))"
  using playlists.add_twice [OF assms] playlists.count_add [OF assms] playlists.remove_added [OF assms]
  by blast

theorem playlist_is_a_set_witness:
  "\<exists>s' s''. addSongToPlaylist demo_server 1 demo_song demo_lists = (Ok True, s') \<and>
     countSongsInPlaylist demo_server 1 s' = (Ok 1, s'')"
proof -
  obtain s' where s': "addSongToPlaylist demo_server 1 demo_song demo_lists = (Ok True, s')"
    using addSong_good [OF demo_lists_good, of 1 demo_song] demo_can_add by auto
  have "keys_in demo_server demo_db 1 = {}"
    by (simp add: keys_in_def demo_db_def empty_db_def)
  with playlist_is_a_set [OF demo_lists_good s'] s' show ?thesis by auto
qed





text \<open>
  on a working server \<open>getSongsInPlaylist\<close> returns the songs of the playlist, each exactly once,
  in whatever order the server visits the rows.
\<close>

theorem getSongsInPlaylist_exact:
  assumes "healthy srv" and "pool_live s"
  shows "\<exists>xs. getSongsInPlaylist srv p s = (Ok xs, served 2 (ds_db s) s) \<and>
    mset xs = image_mset (buildSongFromResultSet srv)
      {# r \<in># mset (playlist_songs (ds_db s)). sr_playlist_id r = p #}"
  using assms by (simp add: getSongsInPlaylist_def dao_call_one select_songs_def)

theorem getSongsInPlaylist_exact_witness:
  "\<exists>xs. getSongsInPlaylist demo_server 1 demo_lists = (Ok xs, served 2 demo_db demo_lists) \<and> mset xs = {#}"
  using getSongsInPlaylist_exact [of demo_server demo_lists 1]
  by (simp add: demo_db_def empty_db_def)

end
