(* ===== verification/PlayHistoryDAO.thy ===== *)
theory PlayHistoryDAO
  imports PlaylistDAO
begin

text \<open>
  \<open>src/models/playhistory.h\<close> and \<open>src/database/PlayHistoryDAO.cpp\<close>: the ten operations on the table
  \<open>play_history\<close>, the pages and rankings they compute, and the fact that no row is ever stored.
\<close>

record playhistory =
  ph_id :: int
  ph_user_id :: int
  ph_song_id :: string
  ph_song_name :: string
  ph_song_singer :: string
  ph_song_pic :: string
  ph_song_where :: string
  ph_played_at :: string
  ph_song_count :: int

definition buildHistoryFromResultSet :: "server \<Rightarrow> history_row \<Rightarrow> playhistory" where
  "buildHistoryFromResultSet srv r =
     \<lparr>ph_id = hr_id r, ph_user_id = hr_user_id r, ph_song_id = hr_song_id r,
      ph_song_name = hr_song_name r, ph_song_singer = hr_song_singer r,
      ph_song_pic = empty_if_null (hr_song_pic r), ph_song_where = hr_song_where r,
      ph_played_at = my_ts srv (hr_played_at r), ph_song_count = hr_song_count r\<rparr>"

text \<open>
  \<open>Song song;\<close> leaves \<open>song.id\<close> uninitialised and no line assigns it: \<open>garbage\<close> is what is there.
\<close>

definition buildSongFromHistory :: "int \<Rightarrow> history_row \<Rightarrow> song" where
  "buildSongFromHistory garbage r =
     \<lparr>so_id = garbage, so_song_id = hr_song_id r, so_name = hr_song_name r,
      so_singer = hr_song_singer r, so_pic = empty_if_null (hr_song_pic r),
      so_where = hr_song_where r, so_added_at = []\<rparr>"

text \<open>\<open>song_count + 1\<close> overflows a signed \<open>int\<close> when the count is the largest one.\<close>

definition addPlayHistory :: "server \<Rightarrow> playhistory \<Rightarrow> (dao_state, bool) prog" where
  "addPlayHistory srv history =
     dao_call srv False (\<lambda>c.
       and_then (jdbc srv c (select_history_of srv (ph_user_id history) (ph_song_id history)))
         (\<lambda>check_result.
       case check_result of
         r # _ \<Rightarrow>
           (if hr_song_count r = max_int then undef
            else and_then (jdbc srv c (update_song_count srv (hr_song_count r + 1) (hr_id r)))
                   (\<lambda>n. ret (0 < n)))
       | [] \<Rightarrow>
           and_then (jdbc srv c (insert_history srv (c_id c) (ph_user_id history)
                       (ph_song_id history) (ph_song_name history) (ph_song_singer history)
                       (null_if_empty (ph_song_pic history)) (ph_song_where history)))
             (\<lambda>n. ret (0 < n))))"

text \<open>\<open>history_list.reserve(limit)\<close> throws \<open>std::length_error\<close> for a negative \<open>limit\<close>.\<close>

definition getUserPlayHistory :: "server \<Rightarrow> int \<Rightarrow> int \<Rightarrow> int \<Rightarrow> (dao_state, playhistory list) prog" where
  "getUserPlayHistory srv user_id limit offset =
     dao_call srv [] (\<lambda>c. and_then
       (jdbc srv c (select_history srv user_id (int \<circ> hr_played_at) limit offset))
       (\<lambda>rows. if limit < 0 then raise (StdException ''vector::reserve'')
               else ret (map (buildHistoryFromResultSet srv) rows)))"

definition clearUserPlayHistory :: "server \<Rightarrow> int \<Rightarrow> (dao_state, bool) prog" where
  "clearUserPlayHistory srv user_id =
     dao_call srv False (\<lambda>c. and_then (jdbc srv c (delete_history (\<lambda>h. hr_user_id h = user_id)))
       (\<lambda>affected_rows. ret (0 < affected_rows)))"

definition deletePlayHistory :: "server \<Rightarrow> int \<Rightarrow> int \<Rightarrow> (dao_state, bool) prog" where
  "deletePlayHistory srv history_id user_id =
     dao_call srv False (\<lambda>c. and_then
       (jdbc srv c (delete_history (\<lambda>h. hr_id h = history_id \<and> hr_user_id h = user_id)))
       (\<lambda>affected_rows. ret (0 < affected_rows)))"

definition getUserTotalPlayCount :: "server \<Rightarrow> int \<Rightarrow> (dao_state, int) prog" where
  "getUserTotalPlayCount srv user_id =
     dao_call srv 0 (\<lambda>c. and_then (jdbc srv c (count_history (\<lambda>h. hr_user_id h = user_id)))
       (\<lambda>result. ret (case result of n # _ \<Rightarrow> n | [] \<Rightarrow> 0)))"

definition getUserRecentPlayCount :: "server \<Rightarrow> int \<Rightarrow> int \<Rightarrow> (dao_state, int) prog" where
  "getUserRecentPlayCount srv user_id days =
     dao_call srv 0 (\<lambda>c. and_then (jdbc srv c (count_recent srv user_id days))
       (\<lambda>result. ret (case result of n # _ \<Rightarrow> n | [] \<Rightarrow> 0)))"

definition getUserTopArtists :: "server \<Rightarrow> int \<Rightarrow> int \<Rightarrow> (dao_state, (string \<times> int) list) prog" where
  "getUserTopArtists srv user_id limit =
     dao_call srv [] (\<lambda>c. and_then (jdbc srv c (select_top_artists srv user_id limit))
       (\<lambda>result. ret (map (\<lambda>(artist, n). (artist, my_sum_int srv n)) result)))"

definition getUserTopSongs :: "server \<Rightarrow> int \<Rightarrow> int \<Rightarrow> int \<Rightarrow> (dao_state, song list) prog" where
  "getUserTopSongs srv garbage user_id limit =
     dao_call srv [] (\<lambda>c. and_then (jdbc srv c (select_history srv user_id hr_song_count limit 0))
       (\<lambda>result. ret (map (buildSongFromHistory garbage) result)))"

definition getMostPlayedSongs :: "server \<Rightarrow> int \<Rightarrow> int \<Rightarrow> (dao_state, (playhistory \<times> int) list) prog" where
  "getMostPlayedSongs srv user_id limit =
     dao_call srv [] (\<lambda>c. and_then (jdbc srv c (select_history srv user_id hr_song_count limit 0))
       (\<lambda>result. ret (map (\<lambda>r. (buildHistoryFromResultSet srv r, hr_song_count r)) result)))"

lemmas history_dao_defs = addPlayHistory_def getUserPlayHistory_def clearUserPlayHistory_def
  deletePlayHistory_def getUserTotalPlayCount_def getUserRecentPlayCount_def getUserTopArtists_def
  getUserTopSongs_def getMostPlayedSongs_def

section \<open>What every operation keeps, whatever fails\<close>

lemma addPlayHistory_keeps [preserve_intros]: "preserves (on_db (schema_ok srv)) (addPlayHistory srv h)"
  unfolding addPlayHistory_def by (intro preserve_intros stmt_intros)

lemma getUserPlayHistory_keeps [preserve_intros]: "preserves (on_db I) (getUserPlayHistory srv u l off)"
  unfolding getUserPlayHistory_def by (intro preserve_intros stmt_intros)

lemma clearUserPlayHistory_keeps [preserve_intros]:
  "preserves (on_db (schema_ok srv)) (clearUserPlayHistory srv u)"
  unfolding clearUserPlayHistory_def by (intro preserve_intros stmt_intros)

lemma deletePlayHistory_keeps [preserve_intros]:
  "preserves (on_db (schema_ok srv)) (deletePlayHistory srv i u)"
  unfolding deletePlayHistory_def by (intro preserve_intros stmt_intros)

lemma getUserTotalPlayCount_keeps [preserve_intros]: "preserves (on_db I) (getUserTotalPlayCount srv u)"
  unfolding getUserTotalPlayCount_def by (intro preserve_intros stmt_intros)

lemma getUserRecentPlayCount_keeps [preserve_intros]:
  "preserves (on_db I) (getUserRecentPlayCount srv u n)"
  unfolding getUserRecentPlayCount_def by (intro preserve_intros stmt_intros)

lemma getUserTopArtists_keeps [preserve_intros]: "preserves (on_db I) (getUserTopArtists srv u l)"
  unfolding getUserTopArtists_def by (intro preserve_intros stmt_intros)

lemma getUserTopSongs_keeps [preserve_intros]: "preserves (on_db I) (getUserTopSongs srv g u l)"
  unfolding getUserTopSongs_def by (intro preserve_intros stmt_intros)

lemma getMostPlayedSongs_keeps [preserve_intros]: "preserves (on_db I) (getMostPlayedSongs srv u l)"
  unfolding getMostPlayedSongs_def by (intro preserve_intros stmt_intros)

section \<open>Rankings and pages\<close>

lemma order_desc_sorted: "sorted_wrt (\<lambda>x y. key y \<le> key x) (order_desc key rows)"
proof -
  have "sorted (map (\<lambda>r. - key r) (order_desc key rows))" by (simp add: order_desc_def)
  then show ?thesis by (simp add: sorted_map)
qed

lemma mset_order_desc [simp]: "mset (order_desc key rows) = mset rows"
  by (simp add: order_desc_def)

lemma set_order_desc [simp]: "set (order_desc key rows) = set rows"
  by (simp add: order_desc_def)

lemma order_desc_unique:
  assumes "mset xs = mset ys" and "inj_on key (set xs)"
  shows "order_desc key xs = order_desc key ys"
  unfolding order_desc_def
proof (rule sort_key_inj_key_eq)
  show "mset xs = mset (sort_key (\<lambda>r. - key r) ys)" using assms(1) by simp
  show "inj_on (\<lambda>r. - key r) (set xs)" using assms(2) by (simp add: inj_on_def)
qed simp

text \<open>The totals of \<open>GROUP BY song_singer\<close>\<close>

definition singer_total :: "server \<Rightarrow> history_row list \<Rightarrow> string \<Rightarrow> int" where
  "singer_total srv rows a = sum_list (map hr_song_count (filter (\<lambda>h. same srv (hr_song_singer h) a) rows))"

lemma group_singers_keys:
  "fst ` set (group_singers srv rows) \<subseteq> hr_song_singer ` set rows \<and>
   (my_key srv \<circ> fst) ` set (group_singers srv rows) = (my_key srv \<circ> hr_song_singer) ` set rows"
proof (induction rows rule: group_singers.induct)
  case (2 srv h hs)
  let ?rest = "filter (\<lambda>g. \<not> same srv (hr_song_singer g) (hr_song_singer h)) hs"
  have "(my_key srv \<circ> hr_song_singer) ` set hs - {my_key srv (hr_song_singer h)} =
      (my_key srv \<circ> hr_song_singer) ` set ?rest"
    by (auto simp: same_def)
  with 2 show ?case by (auto simp: Let_def same_def)
qed simp

lemma group_singers_distinct: "distinct (map (my_key srv \<circ> fst) (group_singers srv rows))"
proof (induction rows rule: group_singers.induct)
  case (2 srv h hs)
  let ?rest = "filter (\<lambda>g. \<not> same srv (hr_song_singer g) (hr_song_singer h)) hs"
  have "my_key srv (hr_song_singer h) \<notin> (my_key srv \<circ> fst) ` set (group_singers srv ?rest)"
    using group_singers_keys [of srv ?rest] by (auto simp: same_def)
  with 2 show ?case by (simp add: Let_def)
qed simp

lemma group_singers_total:
  "(a, n) \<in> set (group_singers srv rows) \<Longrightarrow> n = singer_total srv rows a"
proof (induction rows arbitrary: a n rule: group_singers.induct)
  case (2 srv h hs)
  let ?mine = "\<lambda>g. same srv (hr_song_singer g) (hr_song_singer h)"
  let ?rest = "filter (\<lambda>g. \<not> ?mine g) hs"
  consider "a = hr_song_singer h" "n = hr_song_count h + sum_list (map hr_song_count (filter ?mine hs))"
    | "(a, n) \<in> set (group_singers srv ?rest)"
    using "2.prems" by (auto simp: Let_def)
  then show ?case
  proof cases
    case 1
    then show ?thesis by (simp add: singer_total_def)
  next
    case 2
    then have "a \<in> hr_song_singer ` set ?rest" using group_singers_keys [of srv ?rest] by force
    then have other: "\<not> same srv (hr_song_singer h) a" by (auto simp: same_def)
    then have "filter (\<lambda>g. same srv (hr_song_singer g) a) ?rest =
        filter (\<lambda>g. same srv (hr_song_singer g) a) hs"
      by (auto simp: same_def intro: filter_cong)
    with other "2.IH" [OF refl 2] show ?thesis by (simp add: singer_total_def)
  qed
qed simp

lemma singer_total_same: "same srv a b \<Longrightarrow> singer_total srv rows a = singer_total srv rows b"
  by (simp add: singer_total_def same_def)

text \<open>A singer that the ranking leaves out has no larger total than those in it.\<close>

lemma top_singers_rest:
  assumes "h \<in> set rows"
  shows "my_key srv (hr_song_singer h) \<in> (my_key srv \<circ> fst) ` set (take k (order_desc snd (group_singers srv rows))) \<or>
    (\<forall>(a, n) \<in> set (take k (order_desc snd (group_singers srv rows))). singer_total srv rows (hr_song_singer h) \<le> n)"
proof -
  let ?all = "order_desc snd (group_singers srv rows)"
  have "my_key srv (hr_song_singer h) \<in> (my_key srv \<circ> fst) ` set (group_singers srv rows)"
    using assms group_singers_keys [of srv rows] by (metis comp_apply image_eqI)
  then obtain a n where a: "(a, n) \<in> set ?all" "my_key srv a = my_key srv (hr_song_singer h)" by auto
  then have n: "n = singer_total srv rows (hr_song_singer h)"
    using group_singers_total [of a n srv rows] singer_total_same [of srv a "hr_song_singer h" rows]
    by (simp add: same_def)
  have "sorted_wrt (\<lambda>x y. snd y \<le> snd x) (take k ?all @ drop k ?all)"
    using order_desc_sorted [of snd "group_singers srv rows"] by simp
  then have le: "snd y \<le> snd x" if "x \<in> set (take k ?all)" "y \<in> set (drop k ?all)" for x y
    using that unfolding sorted_wrt_append by blast
  consider "(a, n) \<in> set (take k ?all)" | "(a, n) \<in> set (drop k ?all)"
    using a(1) by (metis Un_iff append_take_drop_id set_append)
  then show ?thesis
  proof cases
    case 1
    then show ?thesis using a(2) by force
  next
    case 2
    with le n show ?thesis by fastforce
  qed
qed

section \<open>Songs that are not in the history\<close>

lemma addPlayHistory_new:
  assumes "\<forall>r \<in> set (play_history (ds_db s)). \<not> (hr_user_id r = ph_user_id h \<and>
      same srv (hr_song_id r) (ph_song_id h))"
    and "addPlayHistory srv h s = (r, s')"
  shows "ds_db s' = ds_db s \<and> r = (if ds_pool s = [] then Undefined else Ok False)"
proof -
  let ?sel = "select_history_of srv (ph_user_id h) (ph_song_id h)"
  have sel: "?sel k (ds_db s) = (Inr [], ds_db s)" for k
    using assms(1) by (auto simp: select_history_of_def filter_empty_conv)
  have body: "\<exists>t'. and_then (jdbc srv c ?sel) (\<lambda>check_result. case check_result of
       r # _ \<Rightarrow>
         (if hr_song_count r = max_int then undef
          else and_then (jdbc srv c (update_song_count srv (hr_song_count r + 1) (hr_id r))) (\<lambda>n. ret (0 < n)))
     | [] \<Rightarrow>
         and_then (jdbc srv c (insert_history srv (c_id c) (ph_user_id h) (ph_song_id h)
             (ph_song_name h) (ph_song_singer h) (null_if_empty (ph_song_pic h)) (ph_song_where h)))
           (\<lambda>n. ret (0 < n))) t = (Raised SqlException, t') \<and> ds_db t' = ds_db s"
    if "ds_db t = ds_db s" for c t
    using that by (auto simp: and_then_def jdbc_def Let_def sel insert_history_refused)
  from assms(2) show ?thesis
    unfolding addPlayHistory_def
  proof (cases rule: dao_call_cases)
    case (ran c p r' t)
    with body [of "s\<lparr>ds_pool := p, ds_tick := Suc (ds_tick s)\<rparr>" c] show ?thesis by auto
  qed simp
qed

section \<open>Properties\<close>

text \<open>
  C29: on any server: for a song that the user's history does not hold, \<open>addPlayHistory\<close> never
  succeeds and changes no table, because its \<open>INSERT\<close> names seven columns and gives six values.
\<close>

theorem addPlayHistory_never_stores:
  assumes "\<forall>r \<in> set (play_history (ds_db s)). \<not> (hr_user_id r = ph_user_id h \<and>
      same srv (hr_song_id r) (ph_song_id h))"
    and "addPlayHistory srv h s = (r, s')"
  shows "ds_db s' = ds_db s \<and> r = (if ds_pool s = [] then Undefined else Ok False)"
  using assms by (rule addPlayHistory_new)

theorem addPlayHistory_never_stores_witness:
  "fst (addPlayHistory demo_server \<lparr>ph_id = 0, ph_user_id = 1, ph_song_id = ''001'', ph_song_name = ''S'',
     ph_song_singer = ''A'', ph_song_pic = [], ph_song_where = ''QQ'', ph_played_at = [],
     ph_song_count = 0\<rparr> demo_lists) = Ok False"
proof -
  let ?h = "\<lparr>ph_id = 0, ph_user_id = 1, ph_song_id = ''001'', ph_song_name = ''S'',
     ph_song_singer = ''A'', ph_song_pic = [], ph_song_where = ''QQ'', ph_played_at = [],
     ph_song_count = 0\<rparr>"
  obtain r s' where r: "addPlayHistory demo_server ?h demo_lists = (r, s')" by fastforce
  then have "r = (if ds_pool demo_lists = [] then Undefined else Ok False)"
    by (rule addPlayHistory_never_stores [rotated, THEN conjunct2]) (simp add: demo_db_def empty_db_def)
  with r show ?thesis by (simp add: demo_lists_def)
qed

text \<open>The history of a user in the order of the query, whatever order the server visits rows in.\<close>

definition latest_first :: "server \<Rightarrow> db \<Rightarrow> int \<Rightarrow> playhistory list" where
  "latest_first srv d u = map (buildHistoryFromResultSet srv)
     (order_desc (int \<circ> hr_played_at) (filter (\<lambda>h. hr_user_id h = u) (play_history d)))"

lemma select_history_unique:
  assumes "inj_on key {h \<in> set (play_history d). hr_user_id h = u}"
  shows "order_desc key (filter (\<lambda>h. hr_user_id h = u) (scan srv k (play_history d))) =
    order_desc key (filter (\<lambda>h. hr_user_id h = u) (play_history d))"
  using assms by (intro order_desc_unique) simp_all

text \<open>
  C27: pages of the history fit together: on a working server, when no two plays of the user have the
  same time, the page of \<open>n\<close> rows at offset \<open>m\<close> is exactly that part of the history sorted by time,
  latest first, so consecutive pages show every play once, although every call may visit the rows
  in another order. Every negative \<open>limit\<close> that the server lets through ends in an exception that no
  data access object catches.
\<close>

theorem getUserPlayHistory_pages:
  assumes "healthy srv" and "pool_live s"
    and "inj_on hr_played_at {h \<in> set (play_history (ds_db s)). hr_user_id h = u}"
  shows "getUserPlayHistory srv u (int n) (int m) s =
      (Ok (take n (drop m (latest_first srv (ds_db s) u))), served 2 (ds_db s) s) \<and>
    (my_neg_limit srv \<longrightarrow> (\<forall>limit < 0. \<forall>offset.
       fst (getUserPlayHistory srv u limit offset s) = Raised (StdException ''vector::reserve'')))"
proof
  have "inj_on (int \<circ> hr_played_at) {h \<in> set (play_history (ds_db s)). hr_user_id h = u}"
    using assms(3) by (simp add: inj_on_def)
  then show "getUserPlayHistory srv u (int n) (int m) s =
      (Ok (take n (drop m (latest_first srv (ds_db s) u))), served 2 (ds_db s) s)"
    by (simp add: dao_call_one [OF assms(1,2)] getUserPlayHistory_def select_history_def select_history_unique limit_rows_def
        latest_first_def take_map drop_map)
next
  have "c_live (hd (ds_pool s))" using with_connection_healthy [OF assms(1,2)] by blast
  then show "my_neg_limit srv \<longrightarrow> (\<forall>limit < 0. \<forall>offset.
      fst (getUserPlayHistory srv u limit offset s) = Raised (StdException ''vector::reserve''))"
    by (auto simp: getUserPlayHistory_def dao_call_def catch_sql_def catch_exn_def
        with_connection_healthy [OF assms(1,2)] jdbc_healthy [OF assms(1)] and_then_def
        select_history_def limit_rows_def raise_def)
qed

definition demo_play :: "int \<Rightarrow> nat \<Rightarrow> string \<Rightarrow> int \<Rightarrow> history_row" where
  "demo_play i t a n = \<lparr>hr_id = i, hr_user_id = 1, hr_song_id = ''x'', hr_song_name = ''x'',
     hr_song_singer = a, hr_song_pic = None, hr_song_where = ''QQ'', hr_song_count = n, hr_played_at = t\<rparr>"

definition demo_played :: dao_state where
  "demo_played = demo_dao\<lparr>ds_db := demo_db\<lparr>play_history :=
     [demo_play 1 10 ''A'' 2, demo_play 2 30 ''B'' 4, demo_play 3 20 ''A'' 3]\<rparr>\<rparr>"

lemma demo_played_live [simp]: "pool_live demo_played"
  by (simp add: demo_played_def pool_live_def)

theorem getUserPlayHistory_pages_witness:
  "\<exists>xs s'. getUserPlayHistory demo_server 1 2 0 demo_played = (Ok xs, s') \<and> map ph_id xs = [2, 3]"
proof -
  have "inj_on hr_played_at {h \<in> set (play_history (ds_db demo_played)). hr_user_id h = 1}"
    by (auto simp: demo_played_def demo_play_def inj_on_def)
  from getUserPlayHistory_pages [OF demo_healthy demo_played_live this, of 2 0] show ?thesis
    by (simp add: latest_first_def order_desc_def demo_played_def demo_play_def buildHistoryFromResultSet_def
        numeral_2_eq_2)
qed

text \<open>
  C28: on a working server \<open>getUserTopArtists\<close> lists the most listened singers: as many as the limit allows, no
  two of them equal under the collation, each with the total of the plays of all the rows that name
  it, in falling order of the totals, and no singer who is left out has a larger total than one who is
  listed; what the caller gets of a total is the \<open>int\<close> that the driver makes of it.
\<close>

theorem getUserTopArtists_exact:
  assumes "healthy srv" and "pool_live s" and "0 \<le> limit"
  shows "\<exists>ys rows. getUserTopArtists srv u limit s =
      (Ok (map (\<lambda>(a, n). (a, my_sum_int srv n)) ys), served 2 (ds_db s) s) \<and>
    mset rows = {# h \<in># mset (play_history (ds_db s)). hr_user_id h = u #} \<and>
    distinct (map (my_key srv \<circ> fst) ys) \<and> sorted_wrt (\<lambda>x y. snd y \<le> snd x) ys \<and>
    (\<forall>(a, n) \<in> set ys. n = singer_total srv rows a) \<and>
    (\<forall>h \<in> set rows. my_key srv (hr_song_singer h) \<in> (my_key srv \<circ> fst) ` set ys \<or>
       (\<forall>(a, n) \<in> set ys. singer_total srv rows (hr_song_singer h) \<le> n)) \<and>
    length ys = min (nat limit) (card ((my_key srv \<circ> hr_song_singer) ` set rows))"
proof -
  let ?rows = "filter (\<lambda>h. hr_user_id h = u) (scan srv (Suc (ds_tick s)) (play_history (ds_db s)))"
  note left_out = top_singers_rest [where srv = srv and rows = ?rows and k = "nat limit"]
  let ?all = "order_desc snd (group_singers srv ?rows)"
  have dist: "distinct (map (my_key srv \<circ> fst) ?all)"
    using group_singers_distinct [of srv ?rows]
    by (metis mset_eq_imp_distinct_iff mset_map mset_order_desc)
  have "length ?all = length (map (my_key srv \<circ> fst) (group_singers srv ?rows))"
    by (simp add: order_desc_def)
  also have "\<dots> = card ((my_key srv \<circ> fst) ` set (group_singers srv ?rows))"
    using group_singers_distinct [of srv ?rows] by (metis distinct_card list.set_map)
  also have "\<dots> = card ((my_key srv \<circ> hr_song_singer) ` set ?rows)"
    using group_singers_keys [of srv ?rows] by simp
  finally have len: "length (take (nat limit) ?all) =
      min (nat limit) (card ((my_key srv \<circ> hr_song_singer) ` set ?rows))"
    by (simp add: min.commute)
  have total: "\<forall>(a, n) \<in> set (take (nat limit) ?all). n = singer_total srv ?rows a"
    using group_singers_total [of _ _ srv ?rows] by (auto dest: in_set_takeD)
  have dist': "distinct (map (my_key srv \<circ> fst) (take (nat limit) ?all))"
    using dist by (metis distinct_take take_map)
  have sorted: "sorted_wrt (\<lambda>x y. snd y \<le> snd x) (take (nat limit) ?all)"
    using order_desc_sorted [of snd] by (rule sorted_wrt_take)
  have rest: "\<forall>h \<in> set ?rows. my_key srv (hr_song_singer h) \<in> (my_key srv \<circ> fst) ` set (take (nat limit) ?all) \<or>
      (\<forall>(a, n) \<in> set (take (nat limit) ?all). singer_total srv ?rows (hr_song_singer h) \<le> n)"
    using left_out by blast
  have call: "getUserTopArtists srv u limit s =
      (Ok (map (\<lambda>(a, n). (a, my_sum_int srv n)) (take (nat limit) ?all)), served 2 (ds_db s) s)"
    using assms(3)
    by (simp add: dao_call_one [OF assms(1,2)] getUserTopArtists_def select_top_artists_def limit_rows_def)
  have "mset ?rows = {# h \<in># mset (play_history (ds_db s)). hr_user_id h = u #}" by simp
  then show ?thesis
    using call dist' sorted total rest len
    by (intro exI [of _ "take (nat limit) ?all"] exI [of _ ?rows] conjI)
qed

theorem getUserTopArtists_exact_witness:
  "\<exists>xs. getUserTopArtists demo_server 1 5 demo_played = (Ok xs, served 2 (ds_db demo_played) demo_played) \<and>
     length xs = 2"
proof -
  obtain ys rows where ys: "getUserTopArtists demo_server 1 5 demo_played =
      (Ok (map (\<lambda>(a, n). (a, my_sum_int demo_server n)) ys), served 2 (ds_db demo_played) demo_played)"
    and rows: "mset rows = {# h \<in># mset (play_history (ds_db demo_played)). hr_user_id h = 1 #}"
    and len: "length ys = min (nat 5) (card ((my_key demo_server \<circ> hr_song_singer) ` set rows))"
    using getUserTopArtists_exact [OF demo_healthy demo_played_live, of 5 1] by auto
  have all: "\<forall>h \<in> set (play_history (ds_db demo_played)). hr_user_id h = 1"
    by (simp add: demo_played_def demo_play_def)
  have "set rows = {h \<in> set (play_history (ds_db demo_played)). hr_user_id h = 1}"
    using arg_cong [OF rows, of set_mset] by auto
  also have "\<dots> = set (play_history (ds_db demo_played))"
    using all by blast
  finally have "(my_key demo_server \<circ> hr_song_singer) ` set rows =
      set (map hr_song_singer (play_history (ds_db demo_played)))"
    by simp
  also have "\<dots> = {''A'', ''B''}" by (simp add: demo_played_def demo_play_def insert_commute)
  finally show ?thesis using ys len by simp
qed

end
