(* ===== verification/DaoSystem.thy ===== *)
theory DaoSystem
  imports PlayHistoryDAO
begin

text \<open>
  All operations of the three data access objects together: what any sequence of calls, on any
  server, keeps of the tables and of the pool, and when the program crashes.
\<close>

text \<open>
  The three classes as \<open>UserDAO.h\<close>, \<open>PlaylistDAO.h\<close> and \<open>PlayHistoryDAO.h\<close> declare them: a call is a member
  function with its arguments. Arguments that have a default may be left out, the last ones first.
\<close>

datatype user_call =
    CreateUser user
  | GetUserById int
  | GetUserByUsername string
  | UpdateUser user
  | DeleteUser int
  | UpdatePassword int string
  | UpdateQQId int string
  | UpdateNetEaseId int string

datatype playlist_call =
    CreatePlaylist playlist
  | GetPlaylistById int
  | GetPlaylistsByUserId int
  | UpdatePlaylist playlist
  | DeletePlaylist int
  | AddSongToPlaylist int song
  | RemoveSongFromPlaylist int string string
  | GetSongsInPlaylist int
  | CountSongsInPlaylist int

datatype page = WholePage | FirstPage int | Page int int

fun page_limit :: "page \<Rightarrow> int" where
  "page_limit WholePage = 50"
| "page_limit (FirstPage l) = l"
| "page_limit (Page l off) = l"

fun page_offset :: "page \<Rightarrow> int" where
  "page_offset (Page l off) = off"
| "page_offset _ = 0"

definition or_default :: "'a \<Rightarrow> 'a option \<Rightarrow> 'a" where
  "or_default d v = (case v of None \<Rightarrow> d | Some x \<Rightarrow> x)"

datatype history_call =
    AddPlayHistory playhistory
  | GetUserPlayHistory int page
  | ClearUserPlayHistory int
  | DeletePlayHistory int int
  | GetUserTotalPlayCount int
  | GetUserRecentPlayCount int "int option"
  | GetUserTopArtists int "int option"
  | GetUserTopSongs int "int option"
  | GetMostPlayedSongs int "int option"

datatype dao_op = Users user_call | Playlists playlist_call | History history_call

definition void :: "('s, 'a) prog \<Rightarrow> ('s, unit) prog" where
  "void m = and_then m (\<lambda>_. ret ())"

text \<open>\<open>g\<close> is what an uninitialised \<open>song.id\<close> happens to hold.\<close>

fun run_op :: "server \<Rightarrow> digest_fun \<Rightarrow> int \<Rightarrow> dao_op \<Rightarrow> (dao_state, unit) prog" where
  "run_op srv evp g (Users (CreateUser u)) = void (createUser srv evp u)"
| "run_op srv evp g (Users (GetUserById i)) = void (getUserById srv i)"
| "run_op srv evp g (Users (GetUserByUsername n)) = void (getUserByUsername srv n)"
| "run_op srv evp g (Users (UpdateUser u)) = void (updateUser srv u)"
| "run_op srv evp g (Users (DeleteUser i)) = void (deleteUser srv i)"
| "run_op srv evp g (Users (UpdatePassword i p)) = void (updatePassword srv evp i p)"
| "run_op srv evp g (Users (UpdateQQId i q)) = void (updateQQId srv i q)"
| "run_op srv evp g (Users (UpdateNetEaseId i q)) = void (updateNetEaseId srv i q)"
| "run_op srv evp g (Playlists (CreatePlaylist p)) = void (createPlaylist srv p)"
| "run_op srv evp g (Playlists (GetPlaylistById i)) = void (getPlaylistById srv i)"
| "run_op srv evp g (Playlists (GetPlaylistsByUserId i)) = void (getPlaylistsByUserId srv i)"
| "run_op srv evp g (Playlists (UpdatePlaylist p)) = void (updatePlaylist srv p)"
| "run_op srv evp g (Playlists (DeletePlaylist i)) = void (deletePlaylist srv i)"
| "run_op srv evp g (Playlists (AddSongToPlaylist i x)) = void (addSongToPlaylist srv i x)"
| "run_op srv evp g (Playlists (RemoveSongFromPlaylist i x w)) = void (removeSongFromPlaylist srv i x w)"
| "run_op srv evp g (Playlists (GetSongsInPlaylist i)) = void (getSongsInPlaylist srv i)"
| "run_op srv evp g (Playlists (CountSongsInPlaylist i)) = void (countSongsInPlaylist srv i)"
| "run_op srv evp g (History (AddPlayHistory h)) = void (addPlayHistory srv h)"
| "run_op srv evp g (History (GetUserPlayHistory u p)) = void (getUserPlayHistory srv u (page_limit p) (page_offset p))"
| "run_op srv evp g (History (ClearUserPlayHistory u)) = void (clearUserPlayHistory srv u)"
| "run_op srv evp g (History (DeletePlayHistory i u)) = void (deletePlayHistory srv i u)"
| "run_op srv evp g (History (GetUserTotalPlayCount u)) = void (getUserTotalPlayCount srv u)"
| "run_op srv evp g (History (GetUserRecentPlayCount u n)) = void (getUserRecentPlayCount srv u (or_default 7 n))"
| "run_op srv evp g (History (GetUserTopArtists u l)) = void (getUserTopArtists srv u (or_default 5 l))"
| "run_op srv evp g (History (GetUserTopSongs u l)) = void (getUserTopSongs srv g u (or_default 5 l))"
| "run_op srv evp g (History (GetMostPlayedSongs u l)) = void (getMostPlayedSongs srv u (or_default 10 l))"

lemma dao_op_cases:
  obtains (CreateUser) a where "op = Users (CreateUser a)"
  | (GetUserById) a where "op = Users (GetUserById a)"
  | (GetUserByUsername) a where "op = Users (GetUserByUsername a)"
  | (UpdateUser) a where "op = Users (UpdateUser a)"
  | (DeleteUser) a where "op = Users (DeleteUser a)"
  | (UpdatePassword) a b where "op = Users (UpdatePassword a b)"
  | (UpdateQQId) a b where "op = Users (UpdateQQId a b)"
  | (UpdateNetEaseId) a b where "op = Users (UpdateNetEaseId a b)"
  | (CreatePlaylist) a where "op = Playlists (CreatePlaylist a)"
  | (GetPlaylistById) a where "op = Playlists (GetPlaylistById a)"
  | (GetPlaylistsByUserId) a where "op = Playlists (GetPlaylistsByUserId a)"
  | (UpdatePlaylist) a where "op = Playlists (UpdatePlaylist a)"
  | (DeletePlaylist) a where "op = Playlists (DeletePlaylist a)"
  | (AddSongToPlaylist) a b where "op = Playlists (AddSongToPlaylist a b)"
  | (RemoveSongFromPlaylist) a b c where "op = Playlists (RemoveSongFromPlaylist a b c)"
  | (GetSongsInPlaylist) a where "op = Playlists (GetSongsInPlaylist a)"
  | (CountSongsInPlaylist) a where "op = Playlists (CountSongsInPlaylist a)"
  | (AddPlayHistory) a where "op = History (AddPlayHistory a)"
  | (GetUserPlayHistory) a b where "op = History (GetUserPlayHistory a b)"
  | (ClearUserPlayHistory) a where "op = History (ClearUserPlayHistory a)"
  | (DeletePlayHistory) a b where "op = History (DeletePlayHistory a b)"
  | (GetUserTotalPlayCount) a where "op = History (GetUserTotalPlayCount a)"
  | (GetUserRecentPlayCount) a b where "op = History (GetUserRecentPlayCount a b)"
  | (GetUserTopArtists) a b where "op = History (GetUserTopArtists a b)"
  | (GetUserTopSongs) a b where "op = History (GetUserTopSongs a b)"
  | (GetMostPlayedSongs) a b where "op = History (GetMostPlayedSongs a b)"
proof (cases op)
  case (Users x) then show thesis by (cases x) (rule that, erule trans, erule arg_cong [where f = Users])+
next
  case (Playlists x) then show thesis by (cases x) (rule that, erule trans, erule arg_cong [where f = Playlists])+
next
  case (History x) then show thesis by (cases x) (rule that, erule trans, erule arg_cong [where f = History])+
qed

text \<open>
  A sequence of calls: an exception ends one call, not the program (every caller catches it);
  undefined behaviour ends the program, which is the result \<open>None\<close>.
\<close>

fun run_ops :: "server \<Rightarrow> digest_fun \<Rightarrow> int \<Rightarrow> dao_op list \<Rightarrow> dao_state \<Rightarrow> dao_state option" where
  "run_ops srv evp g [] s = Some s"
| "run_ops srv evp g (op # ops) s =
     (case run_op srv evp g op s of
        (Undefined, _) \<Rightarrow> None
      | (_, s') \<Rightarrow> run_ops srv evp g ops s')"

lemma void_snd [simp]: "snd (void m s) = snd (m s)"
  by (auto simp: void_def and_then_def ret_def split: prod.splits outcome.splits)

lemma void_undefined [simp]: "fst (void m s) = Undefined \<longleftrightarrow> fst (m s) = Undefined"
  by (auto simp: void_def and_then_def ret_def split: prod.splits outcome.splits)

lemma preserves_void [preserve_intros]: "preserves P m \<Longrightarrow> preserves P (void m)"
  by (simp add: preserves_def)

section \<open>One call\<close>

lemma run_op_schema: "preserves (on_db (schema_ok srv)) (run_op srv evp g op)"
  by (cases op rule: dao_op_cases) (simp_all add: preserve_intros)

lemma run_op_no_history: "preserves (on_db no_history) (run_op srv evp g op)"
  by (cases op rule: dao_op_cases; simp only: run_op.simps user_dao_defs playlist_dao_defs history_dao_defs Let_def;
      intro preserve_intros stmt_intros)

lemma run_op_pool: "pool_ids (ds_pool (snd (run_op srv evp g op s))) = rotate1 (pool_ids (ds_pool s))"
  by (cases op rule: dao_op_cases; simp only: run_op.simps void_snd user_dao_defs playlist_dao_defs history_dao_defs Let_def;
      intro dao_call_ids pool_intros)

lemma run_op_undefined:
  assumes "no_history (ds_db s)"
  shows "fst (run_op srv evp g op s) = Undefined \<longleftrightarrow> ds_pool s = []"
proof (cases "\<exists>h. op = History (AddPlayHistory h)")
  case True
  then obtain h where op: "op = History (AddPlayHistory h)" by blast
  obtain r s' where "addPlayHistory srv h s = (r, s')" by fastforce
  with addPlayHistory_new [OF _ this] op assms show ?thesis by (simp add: no_history_def)
next
  case False
  then show ?thesis
    by (cases op rule: dao_op_cases; simp only: run_op.simps void_undefined user_dao_defs playlist_dao_defs
        history_dao_defs Let_def; (intro dao_call_undefined pool_intros)?) simp
qed

section \<open>Any sequence of calls\<close>

lemma run_ops_cases:
  assumes "run_op srv evp g op s = (r, s')"
  obtains (crash) "r = Undefined" "run_ops srv evp g (op # ops) s = None"
  | (go_on) "r \<noteq> Undefined" "run_ops srv evp g (op # ops) s = run_ops srv evp g ops s'"
  using assms by (cases r) auto

lemma mset_rotate: "mset (rotate1 xs) = mset xs"
  by (cases xs) simp_all

text \<open>
  whatever calls the handlers make, in whatever order, with whatever arguments, on a server
  that may fail at every call: as long as the pool holds a connection the program does not crash;
  the tables satisfy every constraint of the schema afterwards; the pool holds the same connections
  as before; and a history that was empty is still empty. With an empty pool the first call already
  dereferences the null pointer of its guard.
\<close>

theorem dao_calls_safe:
  assumes "schema_ok srv (ds_db s)" and "no_history (ds_db s)"
  shows "case run_ops srv evp g ops s of
      None \<Rightarrow> ds_pool s = [] \<and> ops \<noteq> []
    | Some s' \<Rightarrow> (ds_pool s \<noteq> [] \<or> ops = []) \<and> schema_ok srv (ds_db s') \<and> no_history (ds_db s') \<and>
        mset (pool_ids (ds_pool s')) = mset (pool_ids (ds_pool s))"
  using assms
proof (induction ops arbitrary: s)
  case (Cons op ops)
  obtain r s' where r: "run_op srv evp g op s = (r, s')" by fastforce
  have schema: "schema_ok srv (ds_db s')"
    using preservesD_eq [OF run_op_schema Cons.prems(1) r] .
  have empty: "no_history (ds_db s')"
    using preservesD_eq [OF run_op_no_history Cons.prems(2) r] .
  have ids: "pool_ids (ds_pool s') = rotate1 (pool_ids (ds_pool s))"
    using run_op_pool [of srv evp g op s] r by simp
  have undef: "r = Undefined \<longleftrightarrow> ds_pool s = []"
    using run_op_undefined [OF Cons.prems(2), of srv evp g op] r by simp
  from r show ?case
  proof (cases rule: run_ops_cases [of _ _ _ _ _ _ _ ops])
    case go_on
    have "ds_pool s' \<noteq> []" using ids undef go_on(1) by (cases "ds_pool s") auto
    with Cons.IH [OF schema empty] go_on undef ids show ?thesis
      by (auto simp: mset_rotate split: option.splits)
  qed (use undef in simp)
qed simp

theorem dao_calls_safe_witness:
  "\<exists>s'. run_ops demo_server demo_evp 7 [Users (CreateUser demo_user), Users (GetUserById 1), Playlists (DeletePlaylist 4)] demo_dao = Some s' \<and>
     schema_ok demo_server (ds_db s') \<and> mset (pool_ids (ds_pool s')) = {#0, 1#}"
  using dao_calls_safe [of demo_server demo_dao, where evp = demo_evp and g = 7 and
      ops = "[Users (CreateUser demo_user), Users (GetUserById 1), Playlists (DeletePlaylist 4)]"]
  by (auto simp del: run_ops.simps simp: schema_ok_empty no_history_empty split: option.splits)

end
