(* ===== verification/Jwt.thy ===== *)
theory Jwt
  imports VerifyService
begin

text \<open>
  \<open>src/utils/JWTUtil.h\<close> and \<open>src/utils/JWTUtil.cpp\<close>: the tokens that authenticate a request. The
  library \<open>jwt-cpp\<close> is a parameter: signing, decoding and verifying; \<open>jwt_contract\<close> states what its
  documentation says of them. Times are ticks of \<open>system_clock\<close>, as in \<open>VerifyService\<close>.
\<close>

section \<open>The library\<close>

text \<open>What the code passes to the builder of \<open>jwt::create()\<close>; the claims in the order of the map\<close>

record jwt_builder =
  jb_issuer :: string
  jb_type :: string
  jb_issued_at :: int
  jb_expires_at :: int
  jb_subject :: string
  jb_claims :: "(string \<times> string) list"

text \<open>What the code can read of a decoded token; \<open>None\<close>: the accessor throws.\<close>

record jwt_decoded =
  jd_issuer :: "string option"
  jd_issued_at :: "int option"
  jd_expires_at :: "int option"
  jd_subject :: "string option"
  jd_claim :: "string \<Rightarrow> json option"

text \<open>
  \<open>jw_sign secret b\<close>: the token text, \<open>None\<close> when signing throws. \<open>jw_decode t\<close>: \<open>None\<close> when the text
  is not a token. \<open>jw_verify secret issuer leeway now t\<close>: whether the verifier with \<open>HS256\<close>, this issuer
  and this leeway accepts the token at time \<open>now\<close>. \<open>jw_mac secret t\<close>: the token says \<open>HS256\<close> and its
  third part is the keyed hash of the other two.
\<close>

record jwt_lib =
  jw_sign :: "string \<Rightarrow> jwt_builder \<Rightarrow> string option"
  jw_decode :: "string \<Rightarrow> jwt_decoded option"
  jw_verify :: "string \<Rightarrow> string \<Rightarrow> int \<Rightarrow> int \<Rightarrow> string \<Rightarrow> bool"
  jw_mac :: "string \<Rightarrow> string \<Rightarrow> bool"

text \<open>A time as a token carries it: whole seconds\<close>

definition whole_seconds :: "int \<Rightarrow> int" where
  "whole_seconds t = seconds (t div 1000000000)"

definition registered_claims :: "string list" where
  "registered_claims = [''iss'', ''sub'', ''aud'', ''exp'', ''nbf'', ''iat'', ''jti'']"

text \<open>
  The documented behaviour: a signed token decodes to what was put in and carries a valid keyed
  hash; the verifier asks for a valid keyed hash, the issuer, and, where the token has them, that
  the expiry plus the leeway has not passed and the time of issue less the leeway has.
\<close>

definition jwt_contract :: "jwt_lib \<Rightarrow> bool" where
  "jwt_contract lib \<longleftrightarrow>
     (\<forall>secret b t. jw_sign lib secret b = Some t \<and> set (map fst (jb_claims b)) \<inter> set registered_claims = {} \<longrightarrow>
        t \<noteq> [] \<and> jw_mac lib secret t \<and>
        (\<exists>d. jw_decode lib t = Some d \<and> jd_issuer d = Some (jb_issuer b) \<and>
           jd_issued_at d = Some (whole_seconds (jb_issued_at b)) \<and>
           jd_expires_at d = Some (whole_seconds (jb_expires_at b)) \<and>
           jd_subject d = Some (jb_subject b) \<and>
           (\<forall>n v. map_of (jb_claims b) n = Some v \<longrightarrow> jd_claim d n = Some (JString v)))) \<and>
     (\<forall>secret issuer leeway now t. jw_verify lib secret issuer leeway now t \<longrightarrow>
        (\<exists>d. jw_decode lib t = Some d \<and> jw_mac lib secret t \<and> jd_issuer d = Some issuer \<and>
           (\<forall>e. jd_expires_at d = Some e \<longrightarrow> now \<le> e + seconds leeway) \<and>
           (\<forall>i. jd_issued_at d = Some i \<longrightarrow> i - seconds leeway \<le> now))) \<and>
     (\<forall>secret b t now leeway. jw_sign lib secret b = Some t \<and>
        set (map fst (jb_claims b)) \<inter> set registered_claims = {} \<and>
        now \<le> whole_seconds (jb_expires_at b) + seconds leeway \<and>
        whole_seconds (jb_issued_at b) - seconds leeway \<le> now \<longrightarrow>
        jw_verify lib secret (jb_issuer b) leeway now t)"

section \<open>\<open>JWTUtil\<close>\<close>

record jwt_util =
  ju_secret :: string
  ju_issuer :: string

definition new_jwt_util :: "string \<Rightarrow> jwt_util" where
  "new_jwt_util secret = \<lparr>ju_secret = secret, ju_issuer = ''auth0''\<rparr>"

definition setIssuer :: "string \<Rightarrow> jwt_util \<Rightarrow> jwt_util" where
  "setIssuer issuer ju = ju\<lparr>ju_issuer := issuer\<rparr>"

text \<open>The texts of the exceptions are modelled without the library's \<open>what()\<close> at their end.\<close>

definition generateToken ::
  "jwt_lib \<Rightarrow> jwt_util \<Rightarrow> int \<Rightarrow> string \<Rightarrow> (string \<times> string) list \<Rightarrow> int \<Rightarrow> string outcome" where
  "generateToken lib ju now subject claims valid_for =
     (case jw_sign lib (ju_secret ju)
        \<lparr>jb_issuer = ju_issuer ju, jb_type = ''JWT'', jb_issued_at = now,
         jb_expires_at = now + seconds valid_for, jb_subject = subject, jb_claims = claims\<rparr> of
        Some t \<Rightarrow> Ok t
      | None \<Rightarrow> Raised (StdException ''Error generating token: ''))"

definition isTokenExpired :: "jwt_lib \<Rightarrow> int \<Rightarrow> string \<Rightarrow> bool outcome" where
  "isTokenExpired lib now token =
     (case jw_decode lib token of
        None \<Rightarrow> Raised (StdException ''Error checking token expiration: '')
      | Some d \<Rightarrow>
          (case jd_expires_at d of
             None \<Rightarrow> Raised (StdException ''Error checking token expiration: '')
           | Some e \<Rightarrow> Ok (e < now)))"

text \<open>\<open>now1\<close> is the reading of the clock inside the verifier, \<open>now2\<close> that of \<open>isTokenExpired\<close>.\<close>

definition verifyToken :: "jwt_lib \<Rightarrow> jwt_util \<Rightarrow> int \<Rightarrow> int \<Rightarrow> string \<Rightarrow> string" where
  "verifyToken lib ju now1 now2 token =
     (case jw_decode lib token of
        None \<Rightarrow> []
      | Some d \<Rightarrow>
          if \<not> jw_verify lib (ju_secret ju) (ju_issuer ju) 60 now1 token then []
          else (case isTokenExpired lib now2 token of
                  Ok expired \<Rightarrow> (if expired then [] else token)
                | _ \<Rightarrow> []))"

definition getSubject :: "jwt_lib \<Rightarrow> string \<Rightarrow> string outcome" where
  "getSubject lib token =
     (case jw_decode lib token of
        None \<Rightarrow> Raised (StdException ''Error getting subject: '')
      | Some d \<Rightarrow>
          (case jd_subject d of
             None \<Rightarrow> Raised (StdException ''Error getting subject: '')
           | Some s \<Rightarrow> Ok s))"

definition getClaim :: "jwt_lib \<Rightarrow> string \<Rightarrow> string \<Rightarrow> string outcome" where
  "getClaim lib token claim_name =
     (case jw_decode lib token of
        None \<Rightarrow> Raised (StdException ''getting claim: '')
      | Some d \<Rightarrow>
          (case jd_claim d claim_name of
             Some (JString s) \<Rightarrow> Ok s
           | _ \<Rightarrow> Raised (StdException ''getting claim: '')))"

lemma getClaim_cases:
  obtains (ok) d s where "jw_decode lib token = Some d" "jd_claim d n = Some (JString s)"
      "getClaim lib token n = Ok s"
  | (threw) "getClaim lib token n = Raised (StdException ''getting claim: '')"
  by (cases "jw_decode lib token"; cases "jd_claim (the (jw_decode lib token)) n";
      cases "the (jd_claim (the (jw_decode lib token)) n)")
    (auto simp: getClaim_def)

lemma verifyToken_result: "verifyToken lib ju n1 n2 t = [] \<or> verifyToken lib ju n1 n2 t = t"
  by (auto simp: verifyToken_def split: option.splits outcome.splits)

lemma verifyToken_accepts:
  assumes "verifyToken lib ju n1 n2 t \<noteq> []"
  obtains d e where "verifyToken lib ju n1 n2 t = t" "jw_decode lib t = Some d"
    "jw_verify lib (ju_secret ju) (ju_issuer ju) 60 n1 t" "jd_expires_at d = Some e" "n2 \<le> e"
  using assms that
  by (auto simp: verifyToken_def isTokenExpired_def split: option.splits outcome.splits if_splits)

lemma contract_verify:
  assumes "jwt_contract lib" and "jw_verify lib secret issuer leeway now t"
  shows "\<exists>d. jw_decode lib t = Some d \<and> jw_mac lib secret t \<and> jd_issuer d = Some issuer \<and>
     (\<forall>e. jd_expires_at d = Some e \<longrightarrow> now \<le> e + seconds leeway) \<and>
     (\<forall>i. jd_issued_at d = Some i \<longrightarrow> i - seconds leeway \<le> now)"
  using assms unfolding jwt_contract_def by blast

lemma contract_decode:
  assumes "jwt_contract lib" and "jw_sign lib secret b = Some t"
    and "set (map fst (jb_claims b)) \<inter> set registered_claims = {}"
  shows "t \<noteq> [] \<and> jw_mac lib secret t \<and>
        (\<exists>d. jw_decode lib t = Some d \<and> jd_issuer d = Some (jb_issuer b) \<and>
           jd_issued_at d = Some (whole_seconds (jb_issued_at b)) \<and>
           jd_expires_at d = Some (whole_seconds (jb_expires_at b)) \<and>
           jd_subject d = Some (jb_subject b) \<and>
           (\<forall>n v. map_of (jb_claims b) n = Some v \<longrightarrow> jd_claim d n = Some (JString v)))"
  using assms unfolding jwt_contract_def by blast

lemma contract_accept:
  assumes "jwt_contract lib" and "jw_sign lib secret b = Some t"
    and "set (map fst (jb_claims b)) \<inter> set registered_claims = {}"
    and "now \<le> whole_seconds (jb_expires_at b) + seconds leeway"
    and "whole_seconds (jb_issued_at b) - seconds leeway \<le> now"
  shows "jw_verify lib secret (jb_issuer b) leeway now t"
  using assms unfolding jwt_contract_def by blast

lemma whole_seconds_le: "whole_seconds t \<le> t"
  using div_mult_mod_eq [of t 1000000000] pos_mod_sign [of 1000000000 t]
  by (simp add: whole_seconds_def seconds_def)

text \<open>The life of a token of the program: from its issue to its expiry, in whole seconds.\<close>

lemma generated_token:
  assumes c: "jwt_contract lib" and g: "generateToken lib ju now subject claims v = Ok t"
    and r: "set (map fst claims) \<inter> set registered_claims = {}"
  shows "t \<noteq> [] \<and> (\<forall>n s. map_of claims n = Some s \<longrightarrow> getClaim lib t n = Ok s) \<and>
    getSubject lib t = Ok subject \<and>
    (verifyToken lib ju n1 n2 t = t \<longleftrightarrow>
       jw_verify lib (ju_secret ju) (ju_issuer ju) 60 n1 t \<and> n2 \<le> whole_seconds (now + seconds v))"
proof -
  let ?b = "\<lparr>jb_issuer = ju_issuer ju, jb_type = ''JWT'', jb_issued_at = now,
         jb_expires_at = now + seconds v, jb_subject = subject, jb_claims = claims\<rparr>"
  have s: "jw_sign lib (ju_secret ju) ?b = Some t"
    using g by (simp add: generateToken_def split: option.splits)
  have r': "set (map fst (jb_claims ?b)) \<inter> set registered_claims = {}" using r by simp
  obtain d where d: "jw_decode lib t = Some d" "jd_expires_at d = Some (whole_seconds (now + seconds v))"
    "jd_subject d = Some subject"
    "\<And>n s. map_of claims n = Some s \<Longrightarrow> jd_claim d n = Some (JString s)" and t: "t \<noteq> []"
    using contract_decode [OF c s r'] by auto
  show ?thesis using t d by (auto simp: getClaim_def getSubject_def verifyToken_def isTokenExpired_def)
qed

section \<open>Properties\<close>

text \<open>
  C24: a token that \<open>verifyToken\<close> accepts is returned unchanged; it carries a keyed hash made with
  the server's secret, the server's issuer and an expiry time; that time has not passed, and it was
  not issued more than a minute in the future. The leeway of a minute given to the verifier never
  admits an expired token: \<open>isTokenExpired\<close> refuses it right after.
\<close>

theorem verifyToken_sound:
  assumes "jwt_contract lib" and "verifyToken lib ju now1 now2 token \<noteq> []"
  shows "verifyToken lib ju now1 now2 token = token \<and>
    (\<exists>d e. jw_decode lib token = Some d \<and> jw_mac lib (ju_secret ju) token \<and>
       jd_issuer d = Some (ju_issuer ju) \<and> jd_expires_at d = Some e \<and> now2 \<le> e \<and>
       (\<forall>i. jd_issued_at d = Some i \<longrightarrow> i - seconds 60 \<le> now1))"
  using assms(2)
proof (rule verifyToken_accepts)
  fix d e
  assume "verifyToken lib ju now1 now2 token = token" "jw_decode lib token = Some d"
    "jw_verify lib (ju_secret ju) (ju_issuer ju) 60 now1 token" "jd_expires_at d = Some e" "now2 \<le> e"
  with contract_verify [OF assms(1) this(3)] show ?thesis by auto
qed

text \<open>A library that signs one token, for concrete inputs.\<close>

definition demo_builder :: jwt_builder where
  "demo_builder = \<lparr>jb_issuer = ''auth0'', jb_type = ''JWT'', jb_issued_at = seconds 100,
     jb_expires_at = seconds 100 + seconds 10368000, jb_subject = ''ann'',
     jb_claims = [(''email'', ''a@b.cc''), (''id'', ''1'')]\<rparr>"

definition demo_decoded :: jwt_decoded where
  "demo_decoded = \<lparr>jd_issuer = Some ''auth0'', jd_issued_at = Some (seconds 100),
     jd_expires_at = Some (seconds 10368100), jd_subject = Some ''ann'',
     jd_claim = (\<lambda>n. map_option JString (map_of [(''email'', ''a@b.cc''), (''id'', ''1'')] n))\<rparr>"

definition demo_jwt :: jwt_lib where
  "demo_jwt =
     \<lparr>jw_sign = (\<lambda>secret b. if secret = ''key'' \<and> b = demo_builder then Some ''token'' else None),
      jw_decode = (\<lambda>t. if t = ''token'' then Some demo_decoded else None),
      jw_verify = (\<lambda>secret issuer leeway now t. secret = ''key'' \<and> issuer = ''auth0'' \<and> t = ''token'' \<and>
        now \<le> seconds 10368100 + seconds leeway \<and> seconds 100 - seconds leeway \<le> now),
      jw_mac = (\<lambda>secret t. secret = ''key'' \<and> t = ''token'')\<rparr>"

lemma demo_jwt_contract: "jwt_contract demo_jwt"
  by (auto simp: jwt_contract_def demo_jwt_def demo_builder_def demo_decoded_def whole_seconds_def
      seconds_def)

theorem verifyToken_sound_witness:
  "verifyToken demo_jwt (new_jwt_util ''key'') (seconds 200) (seconds 200) ''token'' = ''token'' \<and>
   jw_mac demo_jwt ''key'' ''token''"
proof -
  have "verifyToken demo_jwt (new_jwt_util ''key'') (seconds 200) (seconds 200) ''token'' \<noteq> []"
    by (simp add: verifyToken_def demo_jwt_def demo_decoded_def new_jwt_util_def isTokenExpired_def
        seconds_def)
  from verifyToken_sound [OF demo_jwt_contract this] show ?thesis by (auto simp: new_jwt_util_def)
qed

text \<open>
  C23: the life of a token: one that \<open>generateToken\<close> made is accepted by \<open>verifyToken\<close> of the same
  server from the moment of its issue to its expiry in whole seconds, and refused from then on;
  \<open>getClaim\<close> and \<open>getSubject\<close> read back what was put in.
\<close>

theorem generateToken_life:
  assumes "jwt_contract lib" and "generateToken lib ju now subject claims v = Ok t"
    and "set (map fst claims) \<inter> set registered_claims = {}"
    and "now \<le> now1" and "now1 \<le> now2" and "now2 \<le> now1 + seconds 60"
  shows "(verifyToken lib ju now1 now2 t = t \<longleftrightarrow> now2 \<le> whole_seconds (now + seconds v)) \<and> t \<noteq> [] \<and>
    getSubject lib t = Ok subject \<and> (\<forall>n s. map_of claims n = Some s \<longrightarrow> getClaim lib t n = Ok s)"
proof -
  let ?b = "\<lparr>jb_issuer = ju_issuer ju, jb_type = ''JWT'', jb_issued_at = now,
         jb_expires_at = now + seconds v, jb_subject = subject, jb_claims = claims\<rparr>"
  have s: "jw_sign lib (ju_secret ju) ?b = Some t"
    using assms(2) by (simp add: generateToken_def split: option.splits)
  have r: "set (map fst (jb_claims ?b)) \<inter> set registered_claims = {}" using assms(3) by simp
  have "jw_verify lib (ju_secret ju) (jb_issuer ?b) 60 now1 t" if "now2 \<le> whole_seconds (now + seconds v)"
    using that assms(4,5) whole_seconds_le [of now]
    by (intro contract_accept [OF assms(1) s r]) (simp_all add: seconds_def)
  with generated_token [OF assms(1-3), of now1 now2] show ?thesis by auto
qed

theorem generateToken_life_witness:
  "verifyToken demo_jwt (new_jwt_util ''key'') (seconds 200) (seconds 201) ''token'' = ''token'' \<and>
   getClaim demo_jwt ''token'' ''id'' = Ok ''1'' \<and>
   verifyToken demo_jwt (new_jwt_util ''key'') (seconds 10368100) (seconds 10368101) ''token'' \<noteq> ''token''"
proof -
  have g: "generateToken demo_jwt (new_jwt_util ''key'') (seconds 100) ''ann''
      [(''email'', ''a@b.cc''), (''id'', ''1'')] 10368000 = Ok ''token''"
    by (simp add: generateToken_def demo_jwt_def new_jwt_util_def demo_builder_def)
  have "set (map fst [(''email'', ''a@b.cc''), (''id'', ''1'')]) \<inter> set registered_claims = {}"
    by (simp add: registered_claims_def)
  from generateToken_life [OF demo_jwt_contract g this, of "seconds 200" "seconds 201"]
    generateToken_life [OF demo_jwt_contract g this, of "seconds 10368100" "seconds 10368101"]
  show ?thesis by (simp add: seconds_def whole_seconds_def)
qed

end
