(* ===== verification/UserHandler.thy ===== *)
theory UserHandler
  imports Jwt EmailSyntax UserDAO
begin

text \<open>
  \<open>src/handlers/UserHandler.h\<close> and \<open>src/handlers/UserHandler.cpp\<close>: the eight requests of the user
  interface, over a state that holds what they share: the data access object's pool and database,
  the store of verification codes, and the directory of avatars.
\<close>

section \<open>State and surroundings\<close>

text \<open>The directory \<open>./avatars\<close>: whether it exists, and its files by path\<close>

record avatar_fs =
  af_dir :: bool
  af_file :: "string \<Rightarrow> string option"

record world =
  w_dao :: dao_state
  w_verify :: verify_state
  w_files :: avatar_fs

text \<open>
  What the file system does: whether \<open>create_directory\<close> succeeds (it throws otherwise), whether a
  path can be opened, and what of a text reaches the file (the code does not check the stream after
  it wrote).
\<close>

record fs_env =
  fe_mkdir :: bool
  fe_open_out :: "string \<Rightarrow> bool"
  fe_open_in :: "string \<Rightarrow> bool"
  fe_written :: "string \<Rightarrow> string"

record env =
  ev_json :: json_lib
  ev_jwt :: jwt_lib
  ev_server :: server
  ev_evp :: digest_fun
  ev_curl :: curl_lib
  ev_verify :: verify_config
  ev_fs :: fs_env

text \<open>
  What one request draws from its surroundings: the readings of the clock, in order, and the digits
  of the random number generator.
\<close>

record chance =
  ch_clock :: "nat \<Rightarrow> int"
  ch_draws :: "nat \<Rightarrow> int"

type_synonym handler = "chance \<Rightarrow> http_request \<Rightarrow> (world, http_response) prog"

definition AVATAR_PATH :: string where
  "AVATAR_PATH = ''./avatars''"

definition avatar_path_of :: "int \<Rightarrow> string" where
  "avatar_path_of user_id = AVATAR_PATH @ ''/'' @ to_string user_id"

definition max_avatar :: nat where
  "max_avatar = 1024 * 1024"

definition on_dao :: "(dao_state, 'a) prog \<Rightarrow> (world, 'a) prog" where
  "on_dao = zoom w_dao (\<lambda>d w. w\<lparr>w_dao := d\<rparr>)"

section \<open>What the handlers share\<close>

definition reply_error :: "env \<Rightarrow> http_request \<Rightarrow> nat \<Rightarrow> string \<Rightarrow> (world, http_response) prog" where
  "reply_error env req status message =
     lift_outcome (buildErrorResponse (ev_json env) status (rq_version req) message)"

definition reply_json :: "env \<Rightarrow> http_request \<Rightarrow> json \<Rightarrow> (world, http_response) prog" where
  "reply_json env req j =
     and_then (lift_outcome (dump_json (ev_json env) j))
       (\<lambda>body. ret (buildSuccessResponse (rq_version req) body))"

definition message_json :: "string \<Rightarrow> json" where
  "message_json m = JObj [(''code'', JInt 200), (''message'', JString m)]"

definition user_json :: "user \<Rightarrow> json" where
  "user_json u = JObj [(''id'', JInt (us_id u)), (''username'', JString (us_username u)),
     (''email'', JString (us_email u)), (''create_at'', JString (us_create_at u)),
     (''qq_id'', JString (us_qq_id u)), (''netease_id'', JString (us_netease_id u))]"

text \<open>The two \<open>catch\<close> clauses at the end of every handler\<close>

definition with_catch ::
  "env \<Rightarrow> http_request \<Rightarrow> (world, http_response) prog \<Rightarrow> (world, http_response) prog" where
  "with_catch env req m =
     catch_exn m (\<lambda>e.
       case e of
         JsonException \<Rightarrow> reply_error env req status_bad_request ''Invalid JSON format''
       | _ \<Rightarrow> reply_error env req status_internal_server_error ''Internal server error'')"

definition body_json :: "env \<Rightarrow> http_request \<Rightarrow> (world, json) prog" where
  "body_json env req = lift_outcome (parse_json (ev_json env) (rq_body req))"

definition member_text :: "json \<Rightarrow> string \<Rightarrow> (world, string) prog" where
  "member_text j k = lift_outcome (get_string j k)"

text \<open>\<open>this->jwt_util.verifyToken(req["Authorization"])\<close>: two readings of the clock\<close>

definition token_of :: "env \<Rightarrow> jwt_util \<Rightarrow> chance \<Rightarrow> http_request \<Rightarrow> string" where
  "token_of env ju ch req =
     verifyToken (ev_jwt env) ju (ch_clock ch 0) (ch_clock ch 1) (rq_field req ''Authorization'')"

text \<open>\<open>atoi(JWTUtil::getClaim(token, "id").c_str())\<close>\<close>

definition claimed_id :: "env \<Rightarrow> string \<Rightarrow> (world, int) prog" where
  "claimed_id env token =
     and_then (lift_outcome (getClaim (ev_jwt env) token ''id''))
       (\<lambda>s. case atoi s of None \<Rightarrow> undef | Some i \<Rightarrow> ret i)"

section \<open>The handlers\<close>

definition send_code :: "env \<Rightarrow> chance \<Rightarrow> string \<Rightarrow> string \<Rightarrow> (world, bool) prog" where
  "send_code env ch email action w =
     (case sendVerifyCode (ev_curl env) (ev_verify env) (ch_draws ch) (ch_clock ch 0) email action
             (w_verify w) of
        (ok, v) \<Rightarrow> (Ok ok, w\<lparr>w_verify := v\<rparr>))"

definition check_code :: "int \<Rightarrow> string \<Rightarrow> string \<Rightarrow> string \<Rightarrow> (world, bool) prog" where
  "check_code now email action code = gets (\<lambda>w. verifyCode (vs_codes (w_verify w)) email action code now)"

definition handleGetVerifyCode :: "env \<Rightarrow> handler" where
  "handleGetVerifyCode env ch req =
     with_catch env req (
       and_then (body_json env req) (\<lambda>j.
       if \<not> contains j ''email'' \<or> \<not> contains j ''action''
       then reply_error env req status_bad_request ''Missing email or action''
       else
         and_then (member_text j ''email'') (\<lambda>email.
         and_then (member_text j ''action'') (\<lambda>action.
         if \<not> isValidEmail email
         then reply_error env req status_bad_request ''Invalid email format''
         else if action = ''register'' \<or> action = ''reset_password''
         then and_then (send_code env ch email action) (\<lambda>sent.
                if sent then reply_json env req (message_json ''Verification code sent'')
                else reply_error env req status_internal_server_error
                       ''Failed to send verification code'')
         else reply_error env req status_bad_request ''Invalid action''))))"

definition handleRegister :: "env \<Rightarrow> handler" where
  "handleRegister env ch req =
     with_catch env req (
       and_then (body_json env req) (\<lambda>j.
       if \<not> contains j ''username'' \<or> \<not> contains j ''password'' \<or> \<not> contains j ''email'' \<or>
          \<not> contains j ''verify_code''
       then reply_error env req status_bad_request
              ''Missing username or password or email or verify_code''
       else
         and_then (member_text j ''username'') (\<lambda>username.
         and_then (member_text j ''password'') (\<lambda>password.
         and_then (member_text j ''email'') (\<lambda>email.
         and_then (member_text j ''verify_code'') (\<lambda>verify_code.
         and_then (check_code (ch_clock ch 0) email ''register'' verify_code) (\<lambda>valid.
         if \<not> valid then reply_error env req status_bad_request ''Invalid verification code''
         else
           and_then (on_dao (getUserByUsername (ev_server env) username)) (\<lambda>found.
           if found \<noteq> None then reply_error env req status_conflict ''Username already exists''
           else
             and_then (on_dao (createUser (ev_server env) (ev_evp env)
                 (new_user\<lparr>us_username := username, us_passwd_hash := password, us_email := email\<rparr>)))
               (\<lambda>(created, user).
             if \<not> created
             then reply_error env req status_internal_server_error ''Failed to create user''
             else reply_json env req
                    (JObj [(''code'', JInt 200), (''message'', JString ''User registered successfully''),
                           (''user_id'', JInt (us_id user))])))))))))) "

definition handleLogin :: "env \<Rightarrow> jwt_util \<Rightarrow> handler" where
  "handleLogin env ju ch req =
     with_catch env req (
       and_then (body_json env req) (\<lambda>j.
       if \<not> contains j ''username'' \<or> \<not> contains j ''password''
       then reply_error env req status_bad_request ''Missing username or password''
       else
         and_then (member_text j ''username'') (\<lambda>username.
         and_then (member_text j ''password'') (\<lambda>password.
         and_then (on_dao (getUserByUsername (ev_server env) username)) (\<lambda>user.
         case user of
           None \<Rightarrow> reply_error env req status_not_found ''User not found''
         | Some u \<Rightarrow>
             if \<not> verifyPassword (ev_evp env) password (us_passwd_hash u)
             then reply_error env req status_unauthorized ''Incorrect password''
             else
               and_then (lift_outcome (generateToken (ev_jwt env) ju (ch_clock ch 0) (us_username u)
                   [(''email'', us_email u), (''id'', to_string (us_id u))] (24 * 120 * 3600)))
                 (\<lambda>token.
               and_then (reply_json env req
                   (JObj [(''code'', JInt 200), (''message'', JString ''Login successful''),
                          (''user'', user_json u)]))
                 (\<lambda>res. ret (set_field ''Authorization'' token res))))))))"

definition handleGetProfile :: "env \<Rightarrow> jwt_util \<Rightarrow> handler" where
  "handleGetProfile env ju ch req =
     with_catch env req (
       let token = token_of env ju ch req in
       if token = [] then reply_error env req status_unauthorized ''Invalid token''
       else
         and_then (claimed_id env token) (\<lambda>user_id.
         and_then (on_dao (getUserById (ev_server env) user_id)) (\<lambda>user.
         case user of
           None \<Rightarrow> reply_error env req status_not_found ''User not found''
         | Some u \<Rightarrow> reply_json env req
             (JObj [(''code'', JInt 200), (''message'', JString ''User profile retrieved successfully''),
                    (''user'', user_json u)]))))"

text \<open>\<open>fs::create_directory\<close>, then \<open>std::ofstream\<close>, which empties an existing file\<close>

definition make_avatar_dir :: "env \<Rightarrow> (world, unit) prog" where
  "make_avatar_dir env =
     and_then (gets (\<lambda>w. af_dir (w_files w))) (\<lambda>there.
     if there then ret ()
     else if fe_mkdir (ev_fs env)
     then modify (\<lambda>w. w\<lparr>w_files := (w_files w)\<lparr>af_dir := True\<rparr>\<rparr>)
     else raise (StdException ''filesystem error''))"

definition write_avatar :: "env \<Rightarrow> string \<Rightarrow> string \<Rightarrow> (world, bool) prog" where
  "write_avatar env path data =
     (if fe_open_out (ev_fs env) path
      then and_then (modify (\<lambda>w. w\<lparr>w_files := (w_files w)\<lparr>af_file :=
                       (af_file (w_files w))(path \<mapsto> fe_written (ev_fs env) data)\<rparr>\<rparr>))
             (\<lambda>_. ret True)
      else ret False)"

definition handleUpdateAvatar :: "env \<Rightarrow> jwt_util \<Rightarrow> handler" where
  "handleUpdateAvatar env ju ch req =
     with_catch env req (
       let token = token_of env ju ch req in
       if token = [] then reply_error env req status_unauthorized ''Invalid token''
       else
         and_then (body_json env req) (\<lambda>j.
         if \<not> contains j ''avatar_data''
         then reply_error env req status_bad_request ''Missing avatar_data''
         else
           and_then (member_text j ''avatar_data'') (\<lambda>avatar_data.
           if max_avatar < length avatar_data
           then reply_error env req status_bad_request ''Avatar data requires not more than 1MB''
           else
             and_then (claimed_id env token) (\<lambda>user_id.
             and_then (make_avatar_dir env) (\<lambda>_.
             and_then (write_avatar env (avatar_path_of user_id) avatar_data) (\<lambda>opened.
             if \<not> opened
             then reply_error env req status_internal_server_error ''Failed to save avatar''
             else reply_json env req (message_json ''Avatar updated successfully'')))))))"

definition handleGetAvatar :: "env \<Rightarrow> jwt_util \<Rightarrow> handler" where
  "handleGetAvatar env ju ch req =
     with_catch env req (
       let token = token_of env ju ch req in
       if token = [] then reply_error env req status_unauthorized ''Invalid token''
       else
         and_then (claimed_id env token) (\<lambda>user_id.
         and_then (gets (\<lambda>w. af_file (w_files w) (avatar_path_of user_id))) (\<lambda>stored.
         case stored of
           None \<Rightarrow> reply_error env req status_not_found ''Avatar not found''
         | Some avatar_data \<Rightarrow>
             if \<not> fe_open_in (ev_fs env) (avatar_path_of user_id)
             then reply_error env req status_internal_server_error ''Failed to read avatar''
             else reply_json env req
                    (JObj [(''code'', JInt 200), (''message'', JString ''Avatar retrieved successfully''),
                           (''avatar_data'', JString avatar_data)]))))"

definition handleChangePassword :: "env \<Rightarrow> jwt_util \<Rightarrow> handler" where
  "handleChangePassword env ju ch req =
     with_catch env req (
       and_then (body_json env req) (\<lambda>j.
       if \<not> contains j ''new_password'' \<or> \<not> contains j ''verify_code'' \<or> \<not> contains j ''email''
       then reply_error env req status_bad_request
              ''Missing user_id or new_password or verify_code or email''
       else
         let token = token_of env ju ch req in
         if token = [] then reply_error env req status_unauthorized ''Invalid token''
         else
           and_then (claimed_id env token) (\<lambda>user_id.
           and_then (member_text j ''new_password'') (\<lambda>new_password.
           and_then (member_text j ''verify_code'') (\<lambda>verify_code.
           and_then (member_text j ''email'') (\<lambda>email.
           and_then (check_code (ch_clock ch 2) email ''reset_password'' verify_code) (\<lambda>valid.
           if \<not> valid then reply_error env req status_bad_request ''Invalid verification code''
           else
             and_then (on_dao (updatePassword (ev_server env) (ev_evp env) user_id new_password))
               (\<lambda>updated.
             if \<not> updated
             then reply_error env req status_internal_server_error ''Failed to update password''
             else reply_json env req (message_json ''Password changed successfully'')))))))))"

definition handleBindPlatform :: "env \<Rightarrow> jwt_util \<Rightarrow> handler" where
  "handleBindPlatform env ju ch req =
     with_catch env req (
       let token = token_of env ju ch req in
       if token = [] then reply_error env req status_unauthorized ''Invalid token''
       else
         and_then (claimed_id env token) (\<lambda>user_id.
         and_then (body_json env req) (\<lambda>j.
         if \<not> contains j ''platform'' \<or> \<not> contains j ''platform_id''
         then reply_error env req status_bad_request ''Missing platform or platform_id''
         else
           and_then (member_text j ''platform'') (\<lambda>platform.
           and_then (member_text j ''platform_id'') (\<lambda>platform_id.
           let bound = reply_json env req (message_json ''Platform account bound successfully'') in
           if platform = ''qq''
           then and_then (on_dao (updateQQId (ev_server env) user_id platform_id)) (\<lambda>ok.
                  if \<not> ok
                  then reply_error env req status_internal_server_error ''Failed to bind QQ account''
                  else bound)
           else if platform = ''netease''
           then and_then (on_dao (updateNetEaseId (ev_server env) user_id platform_id)) (\<lambda>ok.
                  if \<not> ok
                  then reply_error env req status_internal_server_error ''Failed to bind NetEase account''
                  else bound)
           else reply_error env req status_bad_request ''Invalid platform'')))))"

lemmas handler_defs = handleGetVerifyCode_def handleRegister_def handleLogin_def handleGetProfile_def
  handleUpdateAvatar_def handleGetAvatar_def handleChangePassword_def handleBindPlatform_def

text \<open>
  The interface as \<open>UserHandler.h\<close> declares it. Its comments mark the operations that need a token with
  \<open>(JWT-Token)\<close>.
\<close>

datatype endpoint = VerifyCodeRequest | Registration | LoginRequest | ProfileRequest | AvatarUpdate
  | AvatarRequest | PasswordChange | PlatformBinding

fun handler_of :: "endpoint \<Rightarrow> env \<Rightarrow> jwt_util \<Rightarrow> handler" where
  "handler_of VerifyCodeRequest env ju = handleGetVerifyCode env"
| "handler_of Registration env ju = handleRegister env"
| "handler_of LoginRequest env ju = handleLogin env ju"
| "handler_of ProfileRequest env ju = handleGetProfile env ju"
| "handler_of AvatarUpdate env ju = handleUpdateAvatar env ju"
| "handler_of AvatarRequest env ju = handleGetAvatar env ju"
| "handler_of PasswordChange env ju = handleChangePassword env ju"
| "handler_of PlatformBinding env ju = handleBindPlatform env ju"

fun needs_token :: "endpoint \<Rightarrow> bool" where
  "needs_token x \<longleftrightarrow> x \<in> {ProfileRequest, AvatarUpdate, AvatarRequest, PasswordChange, PlatformBinding}"

section \<open>What every handler keeps, whatever fails\<close>

definition world_ok :: "env \<Rightarrow> world \<Rightarrow> bool" where
  "world_ok env w \<longleftrightarrow> schema_ok (ev_server env) (ds_db (w_dao w)) \<and> codes_inv (vs_codes (w_verify w))"

lemma on_dao_keeps [preserve_intros]:
  "preserves (on_db (schema_ok (ev_server env))) m \<Longrightarrow> preserves (world_ok env) (on_dao m)"
  unfolding on_dao_def by (erule preserves_zoom) (simp_all add: world_ok_def)

lemma send_code_keeps [preserve_intros]: "preserves (world_ok env) (send_code env ch email action)"
proof (rule preservesI)
  fix w assume "world_ok env w"
  with sendVerifyCode_inv [of "w_verify w" "ev_curl env" "ev_verify env" "ch_draws ch" "ch_clock ch 0"
      email action]
  show "world_ok env (snd (send_code env ch email action w))"
    by (simp add: send_code_def world_ok_def case_prod_beta)
qed

lemma check_code_keeps [preserve_intros]: "preserves I (check_code now email action code)"
  unfolding check_code_def by (intro preserve_intros)

lemma reply_keeps [preserve_intros]:
  "preserves I (reply_error env req st m)" "preserves I (reply_json env req j)"
  unfolding reply_error_def reply_json_def by (intro preserve_intros)+

lemma read_keeps [preserve_intros]:
  "preserves I (body_json env req)" "preserves I (member_text j k)" "preserves I (claimed_id env t)"
  unfolding body_json_def member_text_def claimed_id_def by (intro preserve_intros)+

lemma avatar_keeps [preserve_intros]:
  "preserves (world_ok env) (make_avatar_dir env')" "preserves (world_ok env) (write_avatar env' path data)"
  unfolding make_avatar_dir_def write_avatar_def
  by (intro preserve_intros preserves_modify; simp add: world_ok_def)+

lemma with_catch_keeps [preserve_intros]: "preserves I m \<Longrightarrow> preserves I (with_catch env req m)"
  unfolding with_catch_def by (intro preserve_intros)

text \<open>The eight handlers as a list, for statements about all of them\<close>

definition user_handlers :: "env \<Rightarrow> jwt_util \<Rightarrow> handler list" where
  "user_handlers env ju =
     [handleGetVerifyCode env, handleRegister env, handleLogin env ju, handleGetProfile env ju,
      handleUpdateAvatar env ju, handleGetAvatar env ju, handleChangePassword env ju,
      handleBindPlatform env ju]"

lemma each_keeps: "list_all (\<lambda>h. preserves (world_ok env) (h ch req)) (user_handlers env ju)"
  unfolding user_handlers_def list.pred_inject(2) handler_defs Let_def
  by (intro conjI list.pred_inject(1) preserve_intros)

lemma handlers_keep: "h \<in> set (user_handlers env ju) \<Longrightarrow> preserves (world_ok env) (h ch req)"
  using each_keeps [of env ch req ju] by (simp add: list_all_iff)

section \<open>Every request gets an answer\<close>

lemma with_catch_no_exn:
  assumes "dumps_ascii (ev_json env)"
  shows "fst (with_catch env req m w) \<noteq> Raised e"
proof -
  have "\<exists>res. reply_error env req st msg v = (Ok res, v)" if "ascii msg" for st msg v
    using buildErrorResponse_ascii [OF assms that] by (metis reply_error_def lift_outcome_def)
  moreover have "ascii ''Invalid JSON format''" "ascii ''Internal server error''"
    by (simp_all add: ascii_def)
  ultimately show ?thesis
    by (auto simp: with_catch_def catch_exn_def split: prod.splits outcome.splits exn.splits)
      (metis fst_conv outcome.distinct(1))+
qed

definition has_connection :: "world \<Rightarrow> bool" where
  "has_connection w \<longleftrightarrow> ds_pool (w_dao w) \<noteq> []"

lemma total_dao_call:
  assumes "\<And>c. never_undefined (body c)" and "\<And>c. pool_fixed (body c)"
  shows "safe_on (\<lambda>d. ds_pool d \<noteq> []) (dao_call srv failed body)"
proof (rule safe_onI)
  fix s :: dao_state assume s: "ds_pool s \<noteq> []"
  then have "pool_ids (ds_pool (snd (dao_call srv failed body s))) \<noteq> []"
    using dao_call_ids [of body srv failed s] assms(2) by simp
  with s show "fst (dao_call srv failed body s) \<noteq> Undefined \<and> ds_pool (snd (dao_call srv failed body s)) \<noteq> []"
    using dao_call_undefined [of body srv failed s] assms(1) by auto
qed

lemma safe_on_dao [total_intros]:
  "safe_on (\<lambda>d. ds_pool d \<noteq> []) m \<Longrightarrow> safe_on has_connection (on_dao m)"
  unfolding on_dao_def by (erule safe_on_zoom) (simp_all add: has_connection_def)

lemma total_user_dao [total_intros]:
  "safe_on (\<lambda>d. ds_pool d \<noteq> []) (createUser srv evp u)"
  "safe_on (\<lambda>d. ds_pool d \<noteq> []) (getUserById srv i)"
  "safe_on (\<lambda>d. ds_pool d \<noteq> []) (getUserByUsername srv n)"
  "safe_on (\<lambda>d. ds_pool d \<noteq> []) (updatePassword srv evp i p)"
  "safe_on (\<lambda>d. ds_pool d \<noteq> []) (updateQQId srv i q)"
  "safe_on (\<lambda>d. ds_pool d \<noteq> []) (updateNetEaseId srv i q)"
  unfolding user_dao_defs Let_def by (intro total_dao_call pool_intros)+

lemma total_send_code [total_intros]: "safe_on has_connection (send_code env ch email action)"
  by (rule safe_onI) (simp add: send_code_def has_connection_def case_prod_beta)

lemma dump_json_defined: "dump_json lib j \<noteq> Undefined"
  by (simp add: dump_json_def split: option.splits)

lemma total_reply [total_intros]:
  "safe_on P (reply_error env req st m)" "safe_on P (reply_json env req j)"
  unfolding reply_error_def reply_json_def
  by (intro total_intros dump_json_defined;
      (rule buildErrorResponse_cases [of "ev_json env" st "rq_version req" m]; simp)?)+

lemma total_read [total_intros]:
  "safe_on P (body_json env req)" "safe_on P (member_text j k)"
  "safe_on P (check_code now email action code)"
  unfolding body_json_def member_text_def check_code_def
  by (intro total_intros; (simp add: parse_json_def split: option.splits)?;
      (rule get_string_cases [of j k]; simp)?)+

text \<open>The identifier in a token is a number that an \<open>int\<close> can hold.\<close>

definition id_fits :: "env \<Rightarrow> string \<Rightarrow> bool" where
  "id_fits env token \<longleftrightarrow> (\<forall>s. getClaim (ev_jwt env) token ''id'' = Ok s \<longrightarrow> atoi s \<noteq> None)"

lemma total_claimed_id: "id_fits env token \<Longrightarrow> safe_on P (claimed_id env token)"
  by (rule getClaim_cases [of "ev_jwt env" token "''id''"])
    (auto simp: claimed_id_def id_fits_def prog_simps intro!: total_intros split: option.splits)

lemma total_avatar [total_intros]:
  "safe_on has_connection (make_avatar_dir env)" "safe_on has_connection (write_avatar env path data)"
  unfolding make_avatar_dir_def write_avatar_def
  by (intro total_intros safe_on_modify; simp add: has_connection_def)+

lemma total_with_catch [total_intros]: "safe_on P m \<Longrightarrow> safe_on P (with_catch env req m)"
  unfolding with_catch_def by (intro total_intros)

lemma generateToken_defined: "generateToken lib ju now subject claims v \<noteq> Undefined"
  by (simp add: generateToken_def split: option.splits)

lemma each_total:
  assumes "id_fits env (token_of env ju ch req)"
  shows "list_all (\<lambda>h. safe_on has_connection (h ch req)) (user_handlers env ju)"
  unfolding user_handlers_def list.pred_inject(2) handler_defs Let_def
  by (intro conjI list.pred_inject(1) total_intros total_claimed_id [OF assms]
      generateToken_defined)

lemma handlers_total:
  "h \<in> set (user_handlers env ju) \<Longrightarrow> id_fits env (token_of env ju ch req) \<Longrightarrow>
   safe_on has_connection (h ch req)"
  using each_total [of env ju ch req] by (simp add: list_all_iff)

lemma handlers_no_exn:
  assumes "h \<in> set (user_handlers env ju)" and "dumps_ascii (ev_json env)"
  shows "fst (h ch req w) \<noteq> Raised e"
  using assms(1) with_catch_no_exn [OF assms(2)]
  by (auto simp: user_handlers_def handler_defs)

lemma handler_answers:
  assumes "h \<in> set (user_handlers env ju)" and "dumps_ascii (ev_json env)"
    and "id_fits env (token_of env ju ch req)" and "has_connection w"
  obtains res w' where "h ch req w = (Ok res, w')" "has_connection w'"
proof -
  obtain r w' where r: "h ch req w = (r, w')" by fastforce
  with safe_onD [OF handlers_total [OF assms(1,3)] assms(4) r] handlers_no_exn [OF assms(1,2), of ch req w]
  show ?thesis using that by (cases r) auto
qed

end
