(* ===== verification/UserFlows.thy ===== *)
theory UserFlows
  imports UserHandler
begin

text \<open>
  What the requests of the user interface achieve: who is let in, what a successful request has
  checked and changed, and the flows over several requests (register and log in, change the
  password and log in, store an avatar and read it back).
\<close>

section \<open>Successful requests\<close>

lemma reply_error_Ok: "reply_error env req st m w = (Ok res, w') \<Longrightarrow> rs_status res = st \<and> w' = w"
  by (auto simp: reply_error_def lift_outcome_Ok_iff dest: buildErrorResponse_status)

lemma reply_json_Ok:
  "reply_json env req j w = (Ok res, w') \<longleftrightarrow>
   (\<exists>b. jl_dump (ev_json env) j = Some b \<and> res = buildSuccessResponse (rq_version req) b) \<and> w' = w"
  by (auto simp: reply_json_def Ok_iffs dump_json_def split: option.splits)

text \<open>A response with status 200 comes out of the body of the \<open>try\<close>, not out of a \<open>catch\<close>.\<close>

lemma with_catch_success:
  "with_catch env req m w = (Ok res, w') \<Longrightarrow> rs_status res = 200 \<Longrightarrow> m w = (Ok res, w')"
  by (auto simp: with_catch_def catch_exn_def split: prod.splits outcome.splits exn.splits
      dest!: reply_error_Ok)

lemma with_catch_Ok: "m w = (Ok res, w') \<Longrightarrow> with_catch env req m w = (Ok res, w')"
  by (simp add: with_catch_def catch_exn_def)

lemma body_json_Ok:
  "body_json env req w = (Ok j, w') \<longleftrightarrow> jl_parse (ev_json env) (rq_body req) = Some j \<and> w' = w"
  by (auto simp: body_json_def lift_outcome_Ok_iff parse_json_def split: option.splits)

lemma member_text_Ok: "member_text j k w = (Ok s, w') \<longleftrightarrow> get_string j k = Ok s \<and> w' = w"
  by (auto simp: member_text_def lift_outcome_Ok_iff)

lemma check_code_Ok:
  "check_code now e a c w = (Ok b, w') \<longleftrightarrow> b = verifyCode (vs_codes (w_verify w)) e a c now \<and> w' = w"
  by (auto simp: check_code_def gets_Ok_iff)

lemma claimed_id_Ok:
  "claimed_id env t w = (Ok i, w') \<longleftrightarrow>
   (\<exists>s. getClaim (ev_jwt env) t ''id'' = Ok s \<and> atoi s = Some i) \<and> w' = w"
  by (auto simp: claimed_id_def Ok_iffs undef_def split: option.splits)

lemma on_dao_Ok:
  "on_dao m w = (Ok x, w') \<longleftrightarrow> (\<exists>d. m (w_dao w) = (Ok x, d) \<and> w' = w\<lparr>w_dao := d\<rparr>)"
  by (simp add: on_dao_def zoom_Ok_iff)

lemmas step_Oks = and_then_Ok_iff body_json_Ok member_text_Ok check_code_Ok claimed_id_Ok on_dao_Ok
  reply_json_Ok ret_Ok_iff lift_outcome_Ok_iff

lemma if_apply_eq: "((if b then m else m') w = r) \<longleftrightarrow> (if b then m w = r else m' w = r)"
  by simp

lemma case_option_apply_eq:
  "((case v of None \<Rightarrow> m | Some x \<Rightarrow> f x) w = r) \<longleftrightarrow> (case v of None \<Rightarrow> m w = r | Some x \<Rightarrow> f x w = r)"
  by (cases v) simp_all

lemma case_prod_apply_eq: "((case v of (x, y) \<Rightarrow> f x y) w = r) \<longleftrightarrow> (case v of (x, y) \<Rightarrow> f x y w = r)"
  by (cases v) simp

lemma reply_error_not_200:
  "rs_status res = 200 \<Longrightarrow> st \<noteq> 200 \<Longrightarrow> reply_error env req st m w = (Ok res, w') \<longleftrightarrow> False"
  by (auto dest: reply_error_Ok)

lemma if_False_iff: "(if b then False else c) \<longleftrightarrow> \<not> b \<and> c" "(if b then c else False) \<longleftrightarrow> b \<and> c"
  by simp_all

lemma case_None_False: "(case v of None \<Rightarrow> False | Some x \<Rightarrow> f x) \<longleftrightarrow> (\<exists>x. v = Some x \<and> f x)"
  by (cases v) simp_all

text \<open>The equations that turn a successful run into the conjunction of what it checked and did\<close>

lemmas success_simps = step_Oks if_apply_eq case_option_apply_eq case_prod_apply_eq reply_error_not_200
  if_False_iff case_None_False

section \<open>Who is let in\<close>

lemma reply_error_is:
  assumes "dumps_ascii (ev_json env)" and "ascii m"
  shows "\<exists>res. reply_error env req st m w = (Ok res, w) \<and> rs_status res = st"
  using buildErrorResponse_ascii [OF assms] by (metis reply_error_def lift_outcome_def)

lemma ascii_messages: "ascii ''Invalid token''" "ascii ''Invalid JSON format''"
  "ascii ''Missing user_id or new_password or verify_code or email''"
  by (simp_all add: ascii_def)

lemma without_token:
  assumes "dumps_ascii (ev_json env)" and "token_of env ju ch req = []" and "needs_token x"
  shows "\<exists>res. handler_of x env ju ch req w = (Ok res, w) \<and>
    (rs_status res = 401 \<or> x = PasswordChange \<and> rs_status res = 400)"
proof -
  note err = reply_error_is [OF assms(1), of _ req _ w]
  obtain r1 where r1: "reply_error env req 401 ''Invalid token'' w = (Ok r1, w)" "rs_status r1 = 401"
    using err [OF ascii_messages(1)] by blast
  obtain r2 where r2: "reply_error env req 400 ''Invalid JSON format'' w = (Ok r2, w)" "rs_status r2 = 400"
    using err [OF ascii_messages(2)] by blast
  obtain r3 where r3: "reply_error env req 400 ''Missing user_id or new_password or verify_code or email'' w
      = (Ok r3, w)" "rs_status r3 = 400"
    using err [OF ascii_messages(3)] by blast
  have four: "h' ch req w = (Ok r1, w)"
    if "h' \<in> {handleGetProfile env ju, handleUpdateAvatar env ju, handleGetAvatar env ju,
      handleBindPlatform env ju}" for h'
    using that assms(2) r1 by (auto simp: handler_defs Let_def with_catch_Ok)
  have "\<exists>res. handleChangePassword env ju ch req w = (Ok res, w) \<and> rs_status res \<in> {400, 401}"
  proof (cases "jl_parse (ev_json env) (rq_body req)")
    case None
    then show ?thesis using r2
      by (simp add: handleChangePassword_def body_json_def parse_json_def prog_simps with_catch_def
          catch_exn_def raise_def)
  next
    case (Some j)
    then show ?thesis using r1 r3 assms(2)
      by (simp add: handleChangePassword_def body_json_def parse_json_def prog_simps with_catch_def
          catch_exn_def Let_def)
  qed
  with four assms(3) r1 show ?thesis by (cases x) auto
qed

text \<open>
  A request without a token that \<open>verifyToken\<close> accepts gets the answer 401 from the four handlers
  that read it first, and 400 or 401 from the change of a password, which looks at the body first;
  it changes nothing at all: no table, no code, no file, and sends no mail.
\<close>

theorem unauthorized_request:
  assumes "dumps_ascii (ev_json env)" and "token_of env ju ch req = []"
    and "h \<in> {handleGetProfile env ju, handleUpdateAvatar env ju, handleGetAvatar env ju,
               handleBindPlatform env ju, handleChangePassword env ju}"
  shows "\<exists>res. h ch req w = (Ok res, w) \<and>
    (rs_status res = 401 \<or> h = handleChangePassword env ju \<and> rs_status res = 400)"
proof -
  obtain x where "needs_token x" "h = handler_of x env ju"
    using assms(3) by (metis handler_of.simps(4-8) insert_iff empty_iff needs_token.simps)
  with without_token [OF assms(1,2), of x w] show ?thesis by (metis handler_of.simps(7))
qed

lemma fields_unread:
  "reply_error env (req\<lparr>rq_field := f\<rparr>) st m = reply_error env req st m"
  "reply_json env (req\<lparr>rq_field := f\<rparr>) j = reply_json env req j"
  "body_json env (req\<lparr>rq_field := f\<rparr>) = body_json env req"
  by (simp_all add: reply_error_def reply_json_def body_json_def)

text \<open>
  C19: the operations that \<open>UserHandler.h\<close> marks with a token are those that need one: without a token
  that \<open>verifyToken\<close> accepts they answer 401 (the change of a password, which looks at the body first,
  400 or 401) and change nothing at all, no table, no code, no file, and send no mail; the others never
  look at a field of the header.
\<close>

theorem endpoints_as_declared:
  assumes "dumps_ascii (ev_json env)"
  shows "if needs_token x
    then token_of env ju ch req = [] \<longrightarrow> (\<exists>res. handler_of x env ju ch req w = (Ok res, w) \<and>
      (rs_status res = 401 \<or> x = PasswordChange \<and> rs_status res = 400))
    else handler_of x env ju ch (req\<lparr>rq_field := f\<rparr>) w = handler_of x env ju ch req w"
proof (cases "needs_token x")
  case True
  with without_token [OF assms, of ju ch req x w] show ?thesis by simp
next
  case False
  then have "x \<in> {VerifyCodeRequest, Registration, LoginRequest}" by (cases x) simp_all
  then show ?thesis
    by (auto simp: handleGetVerifyCode_def handleRegister_def handleLogin_def with_catch_def fields_unread
        cong: if_cong option.case_cong)
qed

text \<open>Concrete surroundings: a JSON library that knows some documents, and the servers used before\<close>

definition demo_env :: "(string \<Rightarrow> json option) \<Rightarrow> env" where
  "demo_env parse =
     \<lparr>ev_json = \<lparr>jl_parse = parse, jl_dump = (\<lambda>j. Some ''{}'')\<rparr>, ev_jwt = demo_jwt,
      ev_server = demo_server, ev_evp = demo_evp, ev_curl = demo_curl,
      ev_verify = m_verify default_config,
      ev_fs = \<lparr>fe_mkdir = True, fe_open_out = (\<lambda>p. True), fe_open_in = (\<lambda>p. True), fe_written = (\<lambda>s. s)\<rparr>\<rparr>"

definition demo_world :: world where
  "demo_world = \<lparr>w_dao = demo_dao, w_verify = demo_state, w_files = \<lparr>af_dir = False, af_file = Map.empty\<rparr>\<rparr>"

definition demo_request :: "string \<Rightarrow> string \<Rightarrow> http_request" where
  "demo_request token body =
     \<lparr>rq_method = Post, rq_target = ''/'', rq_version = 11,
      rq_field = (\<lambda>n. if n = ''Authorization'' then token else []), rq_body = body, rq_need_eof = False\<rparr>"

definition demo_chance :: "int \<Rightarrow> chance" where
  "demo_chance t = \<lparr>ch_clock = (\<lambda>_. seconds t), ch_draws = (\<lambda>_. 4)\<rparr>"

lemma demo_env_simps [simp]:
  "ev_json (demo_env p) = \<lparr>jl_parse = p, jl_dump = (\<lambda>j. Some ''{}'')\<rparr>" "ev_jwt (demo_env p) = demo_jwt"
  "ev_server (demo_env p) = demo_server" "ev_evp (demo_env p) = demo_evp"
  "ev_curl (demo_env p) = demo_curl" "ev_verify (demo_env p) = m_verify default_config"
  "fe_mkdir (ev_fs (demo_env p))" "fe_open_out (ev_fs (demo_env p)) q" "fe_open_in (ev_fs (demo_env p)) q"
  "fe_written (ev_fs (demo_env p)) t = t"
  by (simp_all add: demo_env_def)

lemma demo_dumps [simp]: "dumps_ascii \<lparr>jl_parse = p, jl_dump = (\<lambda>j. Some ''{}'')\<rparr>"
  by (simp add: dumps_ascii_def)

lemma demo_no_token: "token_of (demo_env p) ju ch (demo_request [] b) = []"
  by (simp add: token_of_def verifyToken_def demo_request_def demo_jwt_def)

theorem unauthorized_request_witness:
  "\<exists>res. handleGetProfile (demo_env Map.empty) (new_jwt_util ''key'') (demo_chance 200) (demo_request [] [])
     demo_world = (Ok res, demo_world)"
  using unauthorized_request [of "demo_env Map.empty" "new_jwt_util ''key''" "demo_chance 200"
      "demo_request [] []", OF _ demo_no_token]
  by (simp only: demo_env_simps demo_dumps) blast

theorem endpoints_as_declared_witness:
  "\<exists>res. handler_of AvatarUpdate (demo_env Map.empty) (new_jwt_util ''key'') (demo_chance 200) (demo_request [] [])
     demo_world = (Ok res, demo_world) \<and> rs_status res = 401"
  using endpoints_as_declared [of "demo_env Map.empty" AvatarUpdate "new_jwt_util ''key''" "demo_chance 200"
      "demo_request [] []" demo_world] demo_no_token by (simp add: demo_no_token del: handler_of.simps)

section \<open>Registration\<close>

text \<open>
  C1: a successful registration had a verification code: the request named an address for which
  that code was issued for the action \<open>register\<close> and has not expired; exactly one row was added, with
  the name, the address and the hash of the password of the request, and no earlier row has the same
  name or address. The code stays valid: the store of codes is unchanged.
\<close>

theorem register_needs_code:
  assumes "handleRegister env ch req w = (Ok res, w')" and "rs_status res = 200"
  shows "\<exists>j username password email code k i.
    jl_parse (ev_json env) (rq_body req) = Some j \<and> get_string j ''username'' = Ok username \<and>
    get_string j ''password'' = Ok password \<and> get_string j ''email'' = Ok email \<and>
    get_string j ''verify_code'' = Ok code \<and>
    verifyCode (vs_codes (w_verify w)) email ''register'' code (ch_clock ch 0) \<and>
    users (ds_db (w_dao w')) = users (ds_db (w_dao w)) @
      [stored_user (ev_server env) (ev_evp env)
         (new_user\<lparr>us_username := username, us_passwd_hash := password, us_email := email\<rparr>) k i] \<and>
    (\<forall>q \<in> set (users (ds_db (w_dao w))). \<not> same (ev_server env) (ur_username q) username \<and>
       \<not> same (ev_server env) (ur_email q) email) \<and>
    w_verify w' = w_verify w"
proof -
  have keep: "ds_db d' = ds_db d" if "getUserByUsername srv n d = (r, d')" for srv n d r d'
    using preservesD_eq [OF getUserByUsername_keeps [of "\<lambda>x. x = ds_db d"] _ that] by simp
  have "\<exists>j username password email code d d' u'. jl_parse (ev_json env) (rq_body req) = Some j \<and>
      get_string j ''username'' = Ok username \<and> get_string j ''password'' = Ok password \<and>
      get_string j ''email'' = Ok email \<and> get_string j ''verify_code'' = Ok code \<and>
      verifyCode (vs_codes (w_verify w)) email ''register'' code (ch_clock ch 0) \<and>
      getUserByUsername (ev_server env) username (w_dao w) = (Ok None, d) \<and>
      createUser (ev_server env) (ev_evp env)
        (new_user\<lparr>us_username := username, us_passwd_hash := password, us_email := email\<rparr>) d =
        (Ok (True, u'), d') \<and> w' = w\<lparr>w_dao := d'\<rparr>"
    using with_catch_success [OF assms(1) [unfolded handleRegister_def] assms(2)] assms(2)
    by (simp only: success_simps) (simp, elim exE conjE, simp)
  then obtain j username password email code d d' u' where j: "jl_parse (ev_json env) (rq_body req) = Some j"
      "get_string j ''username'' = Ok username" "get_string j ''password'' = Ok password"
      "get_string j ''email'' = Ok email" "get_string j ''verify_code'' = Ok code"
      "verifyCode (vs_codes (w_verify w)) email ''register'' code (ch_clock ch 0)"
    and get: "getUserByUsername (ev_server env) username (w_dao w) = (Ok None, d)"
    and c: "createUser (ev_server env) (ev_evp env)
        (new_user\<lparr>us_username := username, us_passwd_hash := password, us_email := email\<rparr>) d =
        (Ok (True, u'), d')" "w' = w\<lparr>w_dao := d'\<rparr>"
    by blast
  have "users (ds_db d) = users (ds_db (w_dao w))" using keep [OF get] by simp
  with createUser_result [OF c(1)] j c(2) show ?thesis by auto
qed

text \<open>A store with one code, and a request that uses it\<close>

definition demo_coded :: world where
  "demo_coded = demo_world\<lparr>w_verify := (w_verify demo_world)\<lparr>vs_codes := [(''a@b.cc'',
     \<lparr>vi_code = ''444444'', vi_expire = seconds 400, vi_action = ''register''\<rparr>)]\<rparr>\<rparr>"

definition demo_docs :: "string \<Rightarrow> json option" where
  "demo_docs = map_of
     [(''register'', JObj [(''username'', JString ''ann''), (''password'', JString ''secret''),
        (''email'', JString ''a@b.cc''), (''verify_code'', JString ''444444'')]),
      (''login'', JObj [(''username'', JString ''ann''), (''password'', JString ''secret'')]),
      (''change'', JObj [(''new_password'', JString ''better''), (''verify_code'', JString ''444444''),
        (''email'', JString ''a@b.cc'')]),
      (''avatar'', JObj [(''avatar_data'', JString ''picture'')]),
      (''bind'', JObj [(''platform'', JString ''qq''), (''platform_id'', JString ''12345'')])]"

text \<open>Evaluating a request on a concrete state\<close>

lemmas eval_request = with_catch_def catch_exn_def and_then_def body_json_def parse_json_def demo_docs_def
  demo_request_def member_text_def get_string_def lift_outcome_def check_code_def gets_def
  demo_chance_def verifyCode_def seconds_def on_dao_def zoom_def reply_json_def dump_json_def ret_def

lemma demo_register:
  "\<exists>res w'. handleRegister (demo_env demo_docs) (demo_chance 100)
     (demo_request [] ''register'') demo_coded = (Ok res, w') \<and> rs_status res = 200 \<and>
     dao_good demo_server (w_dao w')"
proof -
  have g: "dao_good demo_server (served 2 empty_db demo_dao)"
    using demo_dao_good schema_ok_empty by (simp add: dao_good_served)
  have u: "new_user\<lparr>us_username := ''ann'', us_passwd_hash := ''secret'', us_email := ''a@b.cc''\<rparr> = demo_user"
    by (simp add: demo_user_def)
  obtain s' where c: "createUser demo_server demo_evp demo_user (served 2 empty_db demo_dao) =
      (Ok (True, demo_user\<lparr>us_id := ai_users empty_db\<rparr>), s')" "dao_good demo_server s'"
    using createUser_good [OF g, of demo_evp demo_user] demo_can_create by auto
  have "getUserByUsername demo_server ''ann'' demo_dao = (Ok None, served 2 empty_db demo_dao)"
    using getUserByUsername_good [OF demo_dao_good, of "''ann''"]
    by (simp add: user_by_name_def empty_db_def)
  with c show ?thesis
    by (simp add: handleRegister_def eval_request demo_coded_def demo_world_def u)
qed

theorem register_needs_code_witness:
  "\<exists>res w'. handleRegister (demo_env demo_docs) (demo_chance 100)
     (demo_request [] ''register'') demo_coded = (Ok res, w') \<and> length (users (ds_db (w_dao w'))) = 1 \<and>
     w_verify w' = w_verify demo_coded"
proof -
  obtain res w' where r: "handleRegister (demo_env demo_docs) (demo_chance 100)
     (demo_request [] ''register'') demo_coded = (Ok res, w')" "rs_status res = 200"
    using demo_register by blast
  have "users (ds_db (w_dao demo_coded)) = []"
    by (simp add: demo_coded_def demo_world_def empty_db_def)
  with register_needs_code [OF r] r(1) show ?thesis by (intro exI [of _ res] exI [of _ w']) auto
qed

section \<open>Verification codes by mail\<close>

lemma reply_error_result:
  assumes "dumps_ascii (ev_json env)" and "ascii m"
  obtains res where "reply_error env req st m = ret res" "rs_status res = st"
proof -
  obtain res where "buildErrorResponse (ev_json env) st (rq_version req) m = Ok res" "rs_status res = st"
    using buildErrorResponse_ascii [OF assms] .
  then show ?thesis using that [of res] by (simp add: reply_error_def fun_eq_iff lift_outcome_def ret_def)
qed

lemma send_code_result:
  obtains (failed) ms where "send_code env ch e a w = (Ok False, w\<lparr>w_verify := (w_verify w)\<lparr>vs_mail := ms\<rparr>\<rparr>)"
      "ms_sent ms = ms_sent (vs_mail (w_verify w))"
  | (sent) ms r where "send_code env ch e a w = (Ok True, w\<lparr>w_verify := assign_code e
          \<lparr>vi_code = generateVerificationCode (ch_draws ch) 6,
           vi_expire = ch_clock ch 0 + seconds (vc_code_expiry (ev_verify env)), vi_action = a\<rparr>
          ((w_verify w)\<lparr>vs_mail := ms\<rparr>)\<rparr>)"
      "ms_sent ms = ms_sent (vs_mail (w_verify w)) @ [r]" "mr_rcpt r = [e]"
proof (cases rule: sendTextEmail_cases [of "ev_curl env" "ev_verify env" e "''Verification Code''"
    "code_message (generateVerificationCode (ch_draws ch) 6)" "vs_mail (w_verify w)"])
  case no_handle
  then show ?thesis
    by (intro failed [of "vs_mail (w_verify w)"]) (simp_all add: send_code_def sendVerifyCode_def Let_def)
next
  case failed
  then show ?thesis
    by (intro that(1) [of "(vs_mail (w_verify w))\<lparr>ms_handles := ms_handles (vs_mail (w_verify w)) + 1\<rparr>"])
      (simp_all add: send_code_def sendVerifyCode_def Let_def)
next
  case (sent req)
  then show ?thesis
    by (intro that(2) [of "(vs_mail (w_verify w))\<lparr>ms_sent := ms_sent (vs_mail (w_verify w)) @ [req]\<rparr>" req])
      (simp_all add: send_code_def sendVerifyCode_def Let_def)
qed

lemma ascii_code_messages:
  "ascii ''Missing email or action''" "ascii ''Invalid email format''" "ascii ''Invalid action''"
  "ascii ''Failed to send verification code''" "ascii ''Verification code sent''"
  "ascii ''code''" "ascii ''message''"
  by (simp_all add: ascii_def)

lemma dump_message:
  assumes "dumps_ascii lib" and "ascii m"
  obtains b where "jl_dump lib (message_json m) = Some b"
proof -
  have "\<forall>s \<in> set (json_strings (message_json m)). ascii s"
    using assms(2) ascii_code_messages(6,7) by (simp add: message_json_def)
  with assms(1) that show ?thesis unfolding dumps_ascii_def by blast
qed

lemma handleGetVerifyCode_cases:
  assumes d: "dumps_ascii (ev_json env)"
  obtains (refused) res where "handleGetVerifyCode env ch req w = (Ok res, w)" "rs_status res \<noteq> 200"
  | (tried) j email action ok w' res where "jl_parse (ev_json env) (rq_body req) = Some j"
      "get_string j ''email'' = Ok email" "get_string j ''action'' = Ok action" "isValidEmail email"
      "action \<in> {''register'', ''reset_password''}" "send_code env ch email action w = (Ok ok, w')"
      "handleGetVerifyCode env ch req w = (Ok res, w')" "rs_status res = (if ok then 200 else 500)"
proof -
  note m = ascii_code_messages ascii_messages(2)
  obtain e1 where e1: "reply_error env req 400 ''Missing email or action'' = ret e1" "rs_status e1 = 400"
    using reply_error_result [OF d m(1)] .
  obtain e2 where e2: "reply_error env req 400 ''Invalid email format'' = ret e2" "rs_status e2 = 400"
    using reply_error_result [OF d m(2)] .
  obtain e3 where e3: "reply_error env req 400 ''Invalid action'' = ret e3" "rs_status e3 = 400"
    using reply_error_result [OF d m(3)] .
  obtain e4 where e4: "reply_error env req 500 ''Failed to send verification code'' = ret e4" "rs_status e4 = 500"
    using reply_error_result [OF d m(4)] .
  obtain e5 where e5: "reply_error env req 400 ''Invalid JSON format'' = ret e5" "rs_status e5 = 400"
    using reply_error_result [OF d m(8)] .
  obtain b where "jl_dump (ev_json env) (message_json ''Verification code sent'') = Some b"
    using dump_message [OF d m(5)] .
  then obtain e6 where e6: "reply_json env req (message_json ''Verification code sent'') = ret e6"
    "rs_status e6 = 200"
    using that by (auto simp: reply_json_def dump_json_def prog_simps)
  note run = handleGetVerifyCode_def body_json_def parse_json_def prog_simps with_catch_def e1 e2 e3 e5
    member_text_def
  show ?thesis
  proof (cases "jl_parse (ev_json env) (rq_body req)")
    case None
    with e5(2) show ?thesis by (intro refused [of e5]; simp add: run; simp add: ret_def)
  next
    case (Some j)
    note j = this
    show ?thesis
    proof (cases "contains j ''email'' \<and> contains j ''action''")
      case False
      with j e1(2) show ?thesis by (intro refused [of e1]; simp add: run; simp add: ret_def)
    next
      case c: True
      consider email action where "get_string j ''email'' = Ok email" "get_string j ''action'' = Ok action"
        | "get_string j ''email'' = Raised JsonException"
        | email where "get_string j ''email'' = Ok email" "get_string j ''action'' = Raised JsonException"
        by (metis get_string_cases)
      then show ?thesis
      proof cases
        case (1 email action)
        show ?thesis
        proof (cases "isValidEmail email \<and> action \<in> {''register'', ''reset_password''}")
          case True
          obtain ok w' where s: "send_code env ch email action w = (Ok ok, w')"
            by (simp add: send_code_def case_prod_beta)
          have "handleGetVerifyCode env ch req w = (Ok (if ok then e6 else e4), w')"
            using j c 1 True s e4(1) e6(1)
            by (auto simp: run) (simp_all add: catch_exn_def and_then_def ret_def)
          with j 1 True s e4(2) e6(2) show ?thesis
            by (intro tried [of j email action ok w' "if ok then e6 else e4"]) simp_all
        next
          case False
          with j c 1 e2(2) e3(2) show ?thesis
            by (intro refused [of "if isValidEmail email then e3 else e2"]; simp add: run; simp add: ret_def)
        qed
      qed (use j c e5(2) in \<open>(intro refused [of e5]; simp add: run; simp add: ret_def)+\<close>)
    qed
  qed
qed

text \<open>
  the request for a verification code sends at most one mail, to the address in the request, and
  only when the address passes \<open>isValidEmail\<close>: none of its characters can end a line of the mail's
  header, and none is outside ASCII. The answer is 200 exactly when a code was stored, and then the
  code is the one that was drawn, for the action of the request and for no longer than the configured
  time; with any other answer the codes are unchanged.
\<close>

theorem verify_code_mail:
  assumes "dumps_ascii (ev_json env)"
  shows "\<exists>res w' mails. handleGetVerifyCode env ch req w = (Ok res, w') \<and>
    ms_sent (vs_mail (w_verify w')) = ms_sent (vs_mail (w_verify w)) @ mails \<and>
    (if rs_status res = 200
     then (\<exists>r to action. mails = [r] \<and> mr_rcpt r = [to] \<and> isValidEmail to \<and>
        (\<forall>c \<in> set to. 32 < (of_char c :: nat) \<and> (of_char c :: nat) < 128) \<and>
        action \<in> {''register'', ''reset_password''} \<and>
        vs_codes (w_verify w') = AList.update to
          \<lparr>vi_code = generateVerificationCode (ch_draws ch) 6,
           vi_expire = ch_clock ch 0 + seconds (vc_code_expiry (ev_verify env)), vi_action = action\<rparr>
          (vs_codes (w_verify w)))
     else mails = [] \<and> vs_codes (w_verify w') = vs_codes (w_verify w))"
  using assms
proof (cases rule: handleGetVerifyCode_cases [where ch = ch and req = req and w = w])
  case (refused res)
  then show ?thesis by (intro exI [of _ res] exI [of _ w] exI [of _ "[]"]) simp
next
  case (tried j email action ok w' res)
  have chars: "\<forall>c \<in> set email. 32 < (of_char c :: nat) \<and> (of_char c :: nat) < 128"
    using isValidEmail_printable [OF tried(4)] by blast
  show ?thesis
  proof (cases rule: send_code_result [of env ch email action w])
    case (failed ms)
    with tried show ?thesis by (intro exI [of _ res] exI [of _ w'] exI [of _ "[]"]) auto
  next
    case (sent ms r)
    with tried chars show ?thesis by (intro exI [of _ res] exI [of _ w'] exI [of _ "[r]"]) auto
  qed
qed

theorem verify_code_mail_witness:
  "\<exists>res w' mails. handleGetVerifyCode (demo_env Map.empty) (demo_chance 100) (demo_request [] ''x'') demo_world =
      (Ok res, w') \<and> ms_sent (vs_mail (w_verify w')) = ms_sent (vs_mail (w_verify demo_world)) @ mails"
  using verify_code_mail [of "demo_env Map.empty" "demo_chance 100" "demo_request [] ''x''" demo_world]
  by (simp only: demo_env_simps demo_dumps) blast

section \<open>Logging in\<close>

lemma handleLogin_success:
  assumes "handleLogin env ju ch req w = (Ok res, w')" and "rs_status res = 200"
  shows "\<exists>j n p d u t. jl_parse (ev_json env) (rq_body req) = Some j \<and> get_string j ''username'' = Ok n \<and>
    get_string j ''password'' = Ok p \<and> getUserByUsername (ev_server env) n (w_dao w) = (Ok (Some u), d) \<and>
    verifyPassword (ev_evp env) p (us_passwd_hash u) \<and> w' = w\<lparr>w_dao := d\<rparr> \<and>
    generateToken (ev_jwt env) ju (ch_clock ch 0) (us_username u)
      [(''email'', us_email u), (''id'', to_string (us_id u))] (24 * 120 * 3600) = Ok t \<and>
    rs_fields res ''Authorization'' = Some t"
  using with_catch_success [OF assms(1) [unfolded handleLogin_def] assms(2)] assms(2)
  by (simp only: success_simps) (simp, elim exE conjE, simp)

lemma id_claim_not_registered:
  "set (map fst [(''email'', a), (''id'', b)]) \<inter> set registered_claims = {}"
  by (simp add: registered_claims_def)

lemma atoi_to_string: "int32 i \<Longrightarrow> atoi (to_string i) = Some i"
  by (simp add: atoi_def atoi_value_to_string)

text \<open>What a token of a successful login is good for\<close>

lemma login_token:
  assumes c: "jwt_contract (ev_jwt env)"
    and g: "generateToken (ev_jwt env) ju now (us_username u)
      [(''email'', us_email u), (''id'', to_string (us_id u))] (24 * 120 * 3600) = Ok t"
    and i: "int32 (us_id u)" and t: "rq_field req ''Authorization'' = t"
    and clock: "now \<le> ch_clock ch 0" "ch_clock ch 0 \<le> ch_clock ch 1"
      "ch_clock ch 1 \<le> whole_seconds (now + seconds (24 * 120 * 3600))"
  shows "token_of env ju ch req = t \<and> t \<noteq> [] \<and> claimed_id env t w = (Ok (us_id u), w)"
proof -
  note life = generated_token [OF c g id_claim_not_registered, of "ch_clock ch 0" "ch_clock ch 1"]
  let ?b = "\<lparr>jb_issuer = ju_issuer ju, jb_type = ''JWT'', jb_issued_at = now,
         jb_expires_at = now + seconds (24 * 120 * 3600), jb_subject = us_username u,
         jb_claims = [(''email'', us_email u), (''id'', to_string (us_id u))]\<rparr>"
  have s: "jw_sign (ev_jwt env) (ju_secret ju) ?b = Some t"
    using g by (simp add: generateToken_def split: option.splits)
  have "jw_verify (ev_jwt env) (ju_secret ju) (jb_issuer ?b) 60 (ch_clock ch 0) t"
    using clock whole_seconds_le [of now] id_claim_not_registered
    by (intro contract_accept [OF c s]) (simp_all add: seconds_def)
  with life clock t have "token_of env ju ch req = t" "t \<noteq> []" by (auto simp: token_of_def)
  moreover have "getClaim (ev_jwt env) t ''id'' = Ok (to_string (us_id u))" using life by auto
  ultimately show ?thesis using i by (auto simp: claimed_id_Ok atoi_to_string)
qed

text \<open>
  C3: a successful login found a user whose stored hash is that of the password in the request, and
  its answer carries a token in the field \<open>Authorization\<close>: sent with a later request, until 120 days
  after the login, the token is accepted and the handlers read the identifier of that user from it.
\<close>

theorem login_authenticates:
  assumes "jwt_contract (ev_jwt env)" and "handleLogin env ju ch req w = (Ok res, w')"
    and "rs_status res = 200"
  shows "\<exists>j n p d u t. jl_parse (ev_json env) (rq_body req) = Some j \<and> get_string j ''username'' = Ok n \<and>
    get_string j ''password'' = Ok p \<and> getUserByUsername (ev_server env) n (w_dao w) = (Ok (Some u), d) \<and>
    verifyPassword (ev_evp env) p (us_passwd_hash u) \<and> rs_fields res ''Authorization'' = Some t \<and>
    (int32 (us_id u) \<longrightarrow> (\<forall>ch' req' v. rq_field req' ''Authorization'' = t \<and> ch_clock ch 0 \<le> ch_clock ch' 0 \<and>
       ch_clock ch' 0 \<le> ch_clock ch' 1 \<and>
       ch_clock ch' 1 \<le> whole_seconds (ch_clock ch 0 + seconds (24 * 120 * 3600)) \<longrightarrow>
       token_of env ju ch' req' = t \<and> claimed_id env t v = (Ok (us_id u), v)))"
proof -
  obtain j n p d u t where login: "jl_parse (ev_json env) (rq_body req) = Some j"
      "get_string j ''username'' = Ok n" "get_string j ''password'' = Ok p"
      "getUserByUsername (ev_server env) n (w_dao w) = (Ok (Some u), d)"
      "verifyPassword (ev_evp env) p (us_passwd_hash u)" "rs_fields res ''Authorization'' = Some t"
    and g: "generateToken (ev_jwt env) ju (ch_clock ch 0) (us_username u)
      [(''email'', us_email u), (''id'', to_string (us_id u))] (24 * 120 * 3600) = Ok t"
    using handleLogin_success [OF assms(2,3)] by blast
  with login_token [OF assms(1) g] show ?thesis by blast
qed

text \<open>The outcome of a login on a working server\<close>

definition login_body :: "env \<Rightarrow> http_request \<Rightarrow> string \<Rightarrow> string \<Rightarrow> bool" where
  "login_body env req n p \<longleftrightarrow> (\<exists>j. jl_parse (ev_json env) (rq_body req) = Some j \<and>
     get_string j ''username'' = Ok n \<and> get_string j ''password'' = Ok p)"

lemma get_string_contains: "get_string j k = Ok s \<Longrightarrow> contains j k"
  by (cases j) (auto simp: get_string_def split: option.splits)

text \<open>
  The answer to a login with the right password: 200, unless the library cannot sign the token (500)
  or print the body (400; it fails on text that is not UTF-8)
\<close>

definition login_accepted :: "env \<Rightarrow> jwt_util \<Rightarrow> http_response \<Rightarrow> bool" where
  "login_accepted env ju res \<longleftrightarrow> rs_status res = 200 \<or>
     rs_status res = 500 \<and> (\<exists>b. jw_sign (ev_jwt env) (ju_secret ju) b = None) \<or>
     rs_status res = 400 \<and> (\<exists>j. jl_dump (ev_json env) j = None)"

lemma login_result:
  assumes good: "dao_good (ev_server env) (w_dao w)" and body: "login_body env req n p"
    and d: "dumps_ascii (ev_json env)"
  obtains res w' where "handleLogin env ju ch req w = (Ok res, w')" "dao_good (ev_server env) (w_dao w')"
    "case user_by_name (ev_server env) (ds_db (w_dao w)) n of
       None \<Rightarrow> rs_status res = 404
     | Some u \<Rightarrow> if verifyPassword (ev_evp env) p (us_passwd_hash u)
                then login_accepted env ju res else rs_status res = 401"
proof -
  obtain j where j: "jl_parse (ev_json env) (rq_body req) = Some j" "get_string j ''username'' = Ok n"
      "get_string j ''password'' = Ok p" "contains j ''username''" "contains j ''password''"
    using body get_string_contains by (auto simp: login_body_def)
  note call = getUserByUsername_good [OF good, of n]
  let ?w = "w\<lparr>w_dao := served 2 (ds_db (w_dao w)) (w_dao w)\<rparr>"
  have w': "dao_good (ev_server env) (w_dao ?w)"
    using dao_good_served [OF good, of "ds_db (w_dao w)" 2] dao_goodD [OF good] by simp
  obtain e1 where e1: "reply_error env req 404 ''User not found'' = ret e1" "rs_status e1 = 404"
    using reply_error_result [OF d, of "''User not found''"] by (auto simp: ascii_def)
  obtain e2 where e2: "reply_error env req 401 ''Incorrect password'' = ret e2" "rs_status e2 = 401"
    using reply_error_result [OF d, of "''Incorrect password''"] by (auto simp: ascii_def)
  obtain e3 where e3: "reply_error env req 500 ''Internal server error'' = ret e3" "rs_status e3 = 500"
    using reply_error_result [OF d, of "''Internal server error''"] by (auto simp: ascii_def)
  obtain e4 where e4: "reply_error env req 400 ''Invalid JSON format'' = ret e4" "rs_status e4 = 400"
    using reply_error_result [OF d, of "''Invalid JSON format''"] by (auto simp: ascii_def)
  note run = handleLogin_def with_catch_def body_json_def parse_json_def member_text_def prog_simps j
  have lookup: "and_then (on_dao (getUserByUsername (ev_server env) n)) f w =
      f (user_by_name (ev_server env) (ds_db (w_dao w)) n) ?w" for f :: "_ \<Rightarrow> (world, http_response) prog"
    by (simp add: and_then_def on_dao_def zoom_def call)
  show ?thesis
  proof (cases "user_by_name (ev_server env) (ds_db (w_dao w)) n")
    case None
    have "handleLogin env ju ch req w = (Ok e1, ?w)"
      by (simp add: run catch_exn_def lookup None e1(1)) (simp add: ret_def)
    with that w' None e1(2) show ?thesis by simp
  next
    case (Some u)
    show ?thesis
    proof (cases "verifyPassword (ev_evp env) p (us_passwd_hash u)")
      case False
      then have "handleLogin env ju ch req w = (Ok e2, ?w)"
        by (simp add: run catch_exn_def lookup Some e2(1)) (simp add: ret_def)
      with that w' Some False e2(2) show ?thesis by simp
    next
      case True
      let ?b = "\<lparr>jb_issuer = ju_issuer ju, jb_type = ''JWT'', jb_issued_at = ch_clock ch 0,
          jb_expires_at = ch_clock ch 0 + seconds (24 * 120 * 3600), jb_subject = us_username u,
          jb_claims = [(''email'', us_email u), (''id'', to_string (us_id u))]\<rparr>"
      let ?j = "JObj [(''code'', JInt 200), (''message'', JString ''Login successful''), (''user'', user_json u)]"
      have "\<exists>res. handleLogin env ju ch req w = (Ok res, ?w) \<and> login_accepted env ju res"
      proof (cases "jw_sign (ev_jwt env) (ju_secret ju) ?b")
        case None
        then have "handleLogin env ju ch req w = (Ok e3, ?w)"
          using True by (simp add: run catch_exn_def lookup Some generateToken_def e3(1))
            (simp_all add: raise_def e3(1) ret_def)
        with None e3(2) show ?thesis by (auto simp: login_accepted_def)
      next
        case (Some t)
        note signed = this
        show ?thesis
        proof (cases "jl_dump (ev_json env) ?j")
          case None
          then have "handleLogin env ju ch req w = (Ok e4, ?w)"
            using True signed \<open>user_by_name _ _ n = Some u\<close>
            by (simp add: run catch_exn_def lookup generateToken_def reply_json_def dump_json_def e4(1))
              (simp_all add: raise_def e4(1) ret_def)
          with None e4(2) show ?thesis by (auto simp: login_accepted_def)
        next
          case (Some b)
          then show ?thesis
            using True signed \<open>user_by_name _ _ n = Some u\<close>
            by (simp add: run catch_exn_def lookup generateToken_def reply_json_def dump_json_def)
              (simp_all add: ret_def login_accepted_def)
        qed
      qed
      with that w' Some True show ?thesis by auto
    qed
  qed
qed

lemma login_with_hash:
  assumes "dao_good (ev_server env) (w_dao w)" and "login_body env req n q"
    and "dumps_ascii (ev_json env)"
    and "user_by_name (ev_server env) (ds_db (w_dao w)) n = Some v"
    and "us_passwd_hash v = hashPassword (ev_evp env) p"
  shows "\<exists>res w'. handleLogin env ju ch req w = (Ok res, w') \<and>
    (if hashPassword (ev_evp env) q = hashPassword (ev_evp env) p
     then login_accepted env ju res else rs_status res = 401)"
proof (rule login_result [OF assms(1-3), of ju ch])
  fix res w' assume "handleLogin env ju ch req w = (Ok res, w')"
    "case user_by_name (ev_server env) (ds_db (w_dao w)) n of
       None \<Rightarrow> rs_status res = 404
     | Some u \<Rightarrow> if verifyPassword (ev_evp env) q (us_passwd_hash u)
                then login_accepted env ju res else rs_status res = 401"
  with assms(4,5) show ?thesis
    by (intro exI [of _ res] exI [of _ w']) (simp add: verifyPassword_def)
qed

lemma handleRegister_success:
  assumes "handleRegister env ch req w = (Ok res, w')" and "rs_status res = 200"
  shows "\<exists>j n p e c d d' u'. jl_parse (ev_json env) (rq_body req) = Some j \<and>
      get_string j ''username'' = Ok n \<and> get_string j ''password'' = Ok p \<and>
      get_string j ''email'' = Ok e \<and> get_string j ''verify_code'' = Ok c \<and>
      verifyCode (vs_codes (w_verify w)) e ''register'' c (ch_clock ch 0) \<and>
      getUserByUsername (ev_server env) n (w_dao w) = (Ok None, d) \<and>
      createUser (ev_server env) (ev_evp env)
        (new_user\<lparr>us_username := n, us_passwd_hash := p, us_email := e\<rparr>) d =
        (Ok (True, u'), d') \<and> w' = w\<lparr>w_dao := d'\<rparr>"
  using with_catch_success [OF assms(1) [unfolded handleRegister_def] assms(2)] assms(2)
  by (simp only: success_simps) (simp, elim exE conjE, simp)

text \<open>The state after a registration on a working server\<close>

lemma register_good:
  assumes "dao_good (ev_server env) (w_dao w)"
    and "handleRegister env ch req w = (Ok res, w')" and "rs_status res = 200"
    and "jl_parse (ev_json env) (rq_body req) = Some j" and "get_string j ''username'' = Ok n"
    and "get_string j ''password'' = Ok p"
  obtains v where "dao_good (ev_server env) (w_dao w')"
    "user_by_name (ev_server env) (ds_db (w_dao w')) n = Some v"
    "us_passwd_hash v = hashPassword (ev_evp env) p"
proof -
  let ?srv = "ev_server env"
  obtain e d d' u' where d: "getUserByUsername ?srv n (w_dao w) = (Ok None, d)"
      "createUser ?srv (ev_evp env) (new_user\<lparr>us_username := n, us_passwd_hash := p, us_email := e\<rparr>) d =
        (Ok (True, u'), d')" "w' = w\<lparr>w_dao := d'\<rparr>"
    using handleRegister_success [OF assms(2,3)] assms(4-6) by auto
  have good: "dao_good ?srv d"
    using getUserByUsername_good [OF assms(1), of n] d(1) dao_goodD [OF assms(1)]
      dao_good_served [OF assms(1)] by auto
  let ?u = "new_user\<lparr>us_username := n, us_passwd_hash := p, us_email := e\<rparr>"
  have "can_create ?srv (ev_evp env) ?u (ds_db d)"
    using accounts.create_refused [OF good, of "ev_evp env" ?u] d(2) by auto
  from accounts.create_ok [OF good this] d(2,3) that show ?thesis by auto
qed

text \<open>
  C2: on a working server, whoever has registered can log in with the same name: a login with a
  password that has the digest of the one given at registration finds the user and accepts it (the
  answer is 200, unless the token or the JSON library fails); with any other password it answers 401.
\<close>

theorem register_then_login:
  assumes "dao_good (ev_server env) (w_dao w)" and "dumps_ascii (ev_json env)"
    and "handleRegister env ch req w = (Ok res, w1)" and "rs_status res = 200"
    and "jl_parse (ev_json env) (rq_body req) = Some j" and "get_string j ''username'' = Ok n"
    and "get_string j ''password'' = Ok p" and "login_body env req' n q"
  shows "\<exists>res' w2. handleLogin env ju ch' req' w1 = (Ok res', w2) \<and>
    (if hashPassword (ev_evp env) q = hashPassword (ev_evp env) p
     then login_accepted env ju res' else rs_status res' = 401)"
proof -
  obtain v where v: "dao_good (ev_server env) (w_dao w1)"
    "user_by_name (ev_server env) (ds_db (w_dao w1)) n = Some v"
    "us_passwd_hash v = hashPassword (ev_evp env) p"
    using register_good [OF assms(1,3-7)] .
  from login_with_hash [OF v(1) assms(8,2) v(2,3)] show ?thesis .
qed

section \<open>Changing the password\<close>

lemma handleChangePassword_success:
  assumes "handleChangePassword env ju ch req w = (Ok res, w')" and "rs_status res = 200"
  shows "\<exists>j i p e c d. jl_parse (ev_json env) (rq_body req) = Some j \<and>
      token_of env ju ch req \<noteq> [] \<and>
      (\<exists>s. getClaim (ev_jwt env) (token_of env ju ch req) ''id'' = Ok s \<and> atoi s = Some i) \<and>
      get_string j ''new_password'' = Ok p \<and> get_string j ''verify_code'' = Ok c \<and>
      get_string j ''email'' = Ok e \<and>
      verifyCode (vs_codes (w_verify w)) e ''reset_password'' c (ch_clock ch 2) \<and>
      updatePassword (ev_server env) (ev_evp env) i p (w_dao w) = (Ok True, d) \<and> w' = w\<lparr>w_dao := d\<rparr>"
  using with_catch_success [OF assms(1) [unfolded handleChangePassword_def] assms(2)] assms(2)
  by (simp only: success_simps Let_def) (simp, elim exE conjE, simp)

lemma change_password_good:
  assumes "dao_good (ev_server env) (w_dao w)" and "handleChangePassword env ju ch req w = (Ok res, w')"
    and "rs_status res = 200"
  obtains j i p e c where "jl_parse (ev_json env) (rq_body req) = Some j" "token_of env ju ch req \<noteq> []"
      "claimed_id env (token_of env ju ch req) w = (Ok i, w)" "get_string j ''new_password'' = Ok p"
      "verifyCode (vs_codes (w_verify w)) e ''reset_password'' c (ch_clock ch 2)"
      "dao_good (ev_server env) (w_dao w')" "w_verify w' = w_verify w"
      "\<And>n. map_option us_id (user_by_name (ev_server env) (ds_db (w_dao w')) n) =
           map_option us_id (user_by_name (ev_server env) (ds_db (w_dao w)) n)"
      "\<And>k. map_option us_passwd_hash (user_by_id (ev_server env) (ds_db (w_dao w')) k) =
         (if k = i then map_option (\<lambda>_. hashPassword (ev_evp env) p) (user_by_id (ev_server env) (ds_db (w_dao w)) k)
          else map_option us_passwd_hash (user_by_id (ev_server env) (ds_db (w_dao w)) k))"
proof -
  obtain j i p e c d where h: "jl_parse (ev_json env) (rq_body req) = Some j" "token_of env ju ch req \<noteq> []"
      "claimed_id env (token_of env ju ch req) w = (Ok i, w)" "get_string j ''new_password'' = Ok p"
      "verifyCode (vs_codes (w_verify w)) e ''reset_password'' c (ch_clock ch 2)"
    and d: "updatePassword (ev_server env) (ev_evp env) i p (w_dao w) = (Ok True, d)" "w' = w\<lparr>w_dao := d\<rparr>"
    using handleChangePassword_success [OF assms(2,3)] by (auto simp: claimed_id_Ok)
  from updatePassword_effect [OF assms(1) d(1)] d(2) show ?thesis
    by (intro that [OF h]) simp_all
qed

text \<open>
  on a working server a successful change of the password had an accepted token and an unexpired
  code for the action \<open>reset_password\<close>; it changes the hash of the user in the token and of nobody
  else. The code may have been sent to any address (nothing connects it with that user), and it can
  be used again: the store of codes is unchanged.
\<close>

theorem change_password_effect:
  assumes "dao_good (ev_server env) (w_dao w)" and "handleChangePassword env ju ch req w = (Ok res, w')"
    and "rs_status res = 200"
  shows "\<exists>j i p e c. jl_parse (ev_json env) (rq_body req) = Some j \<and> token_of env ju ch req \<noteq> [] \<and>
      claimed_id env (token_of env ju ch req) w = (Ok i, w) \<and> get_string j ''new_password'' = Ok p \<and>
      verifyCode (vs_codes (w_verify w)) e ''reset_password'' c (ch_clock ch 2) \<and> w_verify w' = w_verify w \<and>
      (\<forall>k. map_option us_passwd_hash (user_by_id (ev_server env) (ds_db (w_dao w')) k) =
         (if k = i then map_option (\<lambda>_. hashPassword (ev_evp env) p) (user_by_id (ev_server env) (ds_db (w_dao w)) k)
          else map_option us_passwd_hash (user_by_id (ev_server env) (ds_db (w_dao w)) k)))"
  using change_password_good [OF assms] by metis

text \<open>
  C4: after a successful change of the password on a working server, the user in the token can log in
  with exactly the passwords that have the digest of the new one.
\<close>

theorem change_password_then_login:
  assumes "dao_good (ev_server env) (w_dao w)" and "dumps_ascii (ev_json env)"
    and "handleChangePassword env ju ch req w = (Ok res, w1)" and "rs_status res = 200"
    and "user_by_name (ev_server env) (ds_db (w_dao w)) n = Some v"
    and "claimed_id env (token_of env ju ch req) w = (Ok (us_id v), w)"
    and "jl_parse (ev_json env) (rq_body req) = Some j" and "get_string j ''new_password'' = Ok p"
    and "login_body env req' n q"
  shows "\<exists>res' w2. handleLogin env ju ch' req' w1 = (Ok res', w2) \<and>
    (if hashPassword (ev_evp env) q = hashPassword (ev_evp env) p
     then login_accepted env ju res' else rs_status res' = 401)"
proof -
  let ?srv = "ev_server env"
  from assms(1,3,4) obtain v' where v': "dao_good ?srv (w_dao w1)"
    "user_by_name ?srv (ds_db (w_dao w1)) n = Some v'" "us_passwd_hash v' = hashPassword (ev_evp env) p"
  proof (cases rule: change_password_good)
    case (1 j' i p' e c)
    have p': "p' = p" "i = us_id v" using 1(1,3,4) assms(6-8) by auto
    obtain v' where name: "user_by_name ?srv (ds_db (w_dao w1)) n = Some v'" "us_id v' = us_id v"
      using 1(8) [of n] assms(5) by auto
    have "user_by_id ?srv (ds_db (w_dao w1)) (us_id v) = Some v'"
      using accounts.agree [OF 1(6) name(1)] name(2) by simp
    with accounts.agree [OF assms(1,5)] 1(9) [of "us_id v"] p' have "us_passwd_hash v' = hashPassword (ev_evp env) p"
      by simp
    with 1(6) name(1) that show ?thesis by blast
  qed
  from login_with_hash [OF v'(1) assms(9,2) v'(2,3)] show ?thesis .
qed

section \<open>Concrete accounts\<close>

definition demo_ann :: user_row where
  "demo_ann = \<lparr>ur_id = 1, ur_username = ''ann'', ur_passwd_hash = hashPassword demo_evp ''secret'',
     ur_email = ''a@b.cc'', ur_qq_id = None, ur_netease_id = None, ur_create_at = 0, ur_update_at = 0\<rparr>"

definition demo_account :: world where
  "demo_account = \<lparr>w_dao = demo_dao\<lparr>ds_db := empty_db\<lparr>users := [demo_ann], ai_users := 2\<rparr>\<rparr>,
     w_verify = (w_verify demo_world)\<lparr>vs_codes := [(''a@b.cc'',
       \<lparr>vi_code = ''444444'', vi_expire = seconds 400, vi_action = ''reset_password''\<rparr>)]\<rparr>,
     w_files = \<lparr>af_dir = False, af_file = Map.empty\<rparr>\<rparr>"

lemma demo_account_good: "dao_good demo_server (w_dao demo_account)"
  by (simp add: demo_account_def dao_good_def pool_live_def schema_defs empty_db_def ids_ok_def max_int_def
      demo_ann_def)

lemma demo_account_ann:
  "user_by_name demo_server (ds_db (w_dao demo_account)) ''ann'' = Some (buildFromResultSet demo_server demo_ann)"
  by (simp add: user_by_name_def demo_account_def demo_ann_def)

lemma demo_ann_simps [simp]:
  "us_id (buildFromResultSet demo_server demo_ann) = 1"
  "us_username (buildFromResultSet demo_server demo_ann) = ''ann''"
  "us_email (buildFromResultSet demo_server demo_ann) = ''a@b.cc''"
  "us_passwd_hash (buildFromResultSet demo_server demo_ann) = hashPassword demo_evp ''secret''"
  by (simp_all add: buildFromResultSet_def demo_ann_def)

lemma to_string_one: "to_string 1 = ''1''"
  by code_simp

lemma atoi_one: "atoi ''1'' = Some 1"
  by code_simp

lemma demo_login:
  "\<exists>res w'. handleLogin (demo_env demo_docs) (new_jwt_util ''key'') (demo_chance 100)
     (demo_request [] ''login'') demo_account = (Ok res, w') \<and> rs_status res = 200"
proof -
  have call: "getUserByUsername demo_server ''ann'' (w_dao demo_account) =
      (Ok (Some (buildFromResultSet demo_server demo_ann)),
       served 2 (ds_db (w_dao demo_account)) (w_dao demo_account))"
    using getUserByUsername_good [OF demo_account_good, of "''ann''"] demo_account_ann by simp
  have g: "generateToken demo_jwt (new_jwt_util ''key'') (seconds 100) ''ann''
      [(''email'', ''a@b.cc''), (''id'', ''1'')] 10368000 = Ok ''token''"
    by (simp add: generateToken_def demo_jwt_def new_jwt_util_def demo_builder_def)
  show ?thesis
    using g by (simp add: handleLogin_def eval_request call verifyPassword_def to_string_one)
qed

theorem login_authenticates_witness:
  "\<exists>res t. fst (handleLogin (demo_env demo_docs) (new_jwt_util ''key'') (demo_chance 100)
     (demo_request [] ''login'') demo_account) = Ok res \<and> rs_fields res ''Authorization'' = Some t"
proof -
  obtain res w' where r: "handleLogin (demo_env demo_docs) (new_jwt_util ''key'') (demo_chance 100)
     (demo_request [] ''login'') demo_account = (Ok res, w')" "rs_status res = 200"
    using demo_login by blast
  have "jwt_contract (ev_jwt (demo_env demo_docs))" using demo_jwt_contract by simp
  from login_authenticates [OF this r] r(1) show ?thesis by auto
qed

lemma demo_login_body: "login_body (demo_env demo_docs) (demo_request [] ''login'') ''ann'' ''secret''"
  by (simp add: login_body_def demo_docs_def demo_request_def get_string_def)

theorem register_then_login_witness:
  "\<exists>w1 res'. fst (handleLogin (demo_env demo_docs) (new_jwt_util ''key'') (demo_chance 100)
     (demo_request [] ''login'') w1) = Ok res' \<and> login_accepted (demo_env demo_docs) (new_jwt_util ''key'') res'"
proof -
  obtain res w1 where r: "handleRegister (demo_env demo_docs) (demo_chance 100)
     (demo_request [] ''register'') demo_coded = (Ok res, w1)" "rs_status res = 200"
    using demo_register by blast
  have g: "dao_good (ev_server (demo_env demo_docs)) (w_dao demo_coded)"
    using demo_dao_good by (simp add: demo_coded_def demo_world_def)
  obtain j where j: "jl_parse (ev_json (demo_env demo_docs)) (rq_body (demo_request [] ''register'')) = Some j"
    "get_string j ''username'' = Ok ''ann''" "get_string j ''password'' = Ok ''secret''"
    by (simp add: demo_docs_def demo_request_def get_string_def)
  have d: "dumps_ascii (ev_json (demo_env demo_docs))"
    by simp
  show ?thesis
    using register_then_login [OF g d r j demo_login_body, of "new_jwt_util ''key''" "demo_chance 100"]
    by (auto intro: exI [of _ w1])
qed

lemma demo_token: "t \<noteq> [] \<Longrightarrow> seconds 100 \<le> n \<Longrightarrow> n \<le> seconds 10368100 \<Longrightarrow> t = ''token'' \<Longrightarrow>
    verifyToken demo_jwt (new_jwt_util ''key'') n n t = t"
  by (simp add: verifyToken_def demo_jwt_def demo_decoded_def new_jwt_util_def isTokenExpired_def seconds_def)

lemma demo_token_of:
  "token_of (demo_env p) (new_jwt_util ''key'') (demo_chance 200) (demo_request ''token'' b) = ''token''"
  using demo_token [of "''token''" "seconds 200"]
  by (simp add: token_of_def demo_chance_def demo_request_def seconds_def)

lemma demo_clock [simp]: "ch_clock (demo_chance t) n = seconds t"
  by (simp add: demo_chance_def)

lemma demo_claim: "getClaim demo_jwt ''token'' ''id'' = Ok ''1''"
  by (simp add: getClaim_def demo_jwt_def demo_decoded_def)

lemma demo_claimed_id: "claimed_id (demo_env p) ''token'' w = (Ok 1, w)"
  by (simp add: claimed_id_Ok demo_claim atoi_one)

lemma demo_change:
  "\<exists>res w'. handleChangePassword (demo_env demo_docs) (new_jwt_util ''key'') (demo_chance 200)
     (demo_request ''token'' ''change'') demo_account = (Ok res, w') \<and> rs_status res = 200"
proof -
  obtain s' where "updatePassword demo_server demo_evp 1 ''better'' (w_dao demo_account) = (Ok True, s')"
    using updatePassword_good [OF demo_account_good, of demo_evp "''better''" 1] by auto
  moreover have "vs_codes (w_verify demo_account) = [(''a@b.cc'',
      \<lparr>vi_code = ''444444'', vi_expire = seconds 400, vi_action = ''reset_password''\<rparr>)]"
    by (simp add: demo_account_def)
  moreover have "rq_body (demo_request ''token'' ''change'') = ''change''" by (simp add: demo_request_def)
  moreover have "jl_parse (ev_json (demo_env demo_docs)) ''change'' =
      Some (JObj [(''new_password'', JString ''better''), (''verify_code'', JString ''444444''),
        (''email'', JString ''a@b.cc'')])"
    by (simp add: demo_docs_def)
  ultimately show ?thesis
    by (simp add: handleChangePassword_def Let_def demo_token_of with_catch_def catch_exn_def
        and_then_def body_json_def parse_json_def member_text_def get_string_def lift_outcome_def
        demo_claimed_id check_code_def gets_def verifyCode_def seconds_def on_dao_def
        zoom_def reply_json_def dump_json_def ret_def)
qed

theorem change_password_effect_witness:
  "\<exists>res w' p. handleChangePassword (demo_env demo_docs) (new_jwt_util ''key'') (demo_chance 200)
     (demo_request ''token'' ''change'') demo_account = (Ok res, w') \<and>
     map_option us_passwd_hash (user_by_id demo_server (ds_db (w_dao w')) 1) = Some (hashPassword demo_evp p)"
proof -
  obtain res w' where r: "handleChangePassword (demo_env demo_docs) (new_jwt_util ''key'') (demo_chance 200)
     (demo_request ''token'' ''change'') demo_account = (Ok res, w')" "rs_status res = 200"
    using demo_change by blast
  have g: "dao_good (ev_server (demo_env demo_docs)) (w_dao demo_account)"
    using demo_account_good by simp
  have u: "user_by_id demo_server (ds_db (w_dao demo_account)) 1 = Some (buildFromResultSet demo_server demo_ann)"
    by (simp add: user_by_id_def demo_account_def demo_ann_def)
  have "\<exists>p. map_option us_passwd_hash (user_by_id demo_server (ds_db (w_dao w')) 1) = Some (hashPassword demo_evp p)"
    using change_password_effect [OF g r] u by (fastforce simp: demo_token_of demo_claimed_id)
  with r show ?thesis by blast
qed

theorem change_password_then_login_witness:
  "\<exists>w1 res'. fst (handleLogin (demo_env demo_docs) (new_jwt_util ''key'') (demo_chance 100)
     (demo_request [] ''login'') w1) = Ok res' \<and>
     (if hashPassword demo_evp ''secret'' = hashPassword demo_evp ''better''
      then login_accepted (demo_env demo_docs) (new_jwt_util ''key'') res' else rs_status res' = 401)"
proof -
  obtain res w1 where r: "handleChangePassword (demo_env demo_docs) (new_jwt_util ''key'') (demo_chance 200)
     (demo_request ''token'' ''change'') demo_account = (Ok res, w1)" "rs_status res = 200"
    using demo_change by blast
  have g: "dao_good (ev_server (demo_env demo_docs)) (w_dao demo_account)"
    using demo_account_good by simp
  have n: "user_by_name (ev_server (demo_env demo_docs)) (ds_db (w_dao demo_account)) ''ann'' =
      Some (buildFromResultSet demo_server demo_ann)"
    using demo_account_ann by simp
  have i: "claimed_id (demo_env demo_docs) (token_of (demo_env demo_docs) (new_jwt_util ''key'') (demo_chance 200)
      (demo_request ''token'' ''change'')) demo_account =
      (Ok (us_id (buildFromResultSet demo_server demo_ann)), demo_account)"
    by (simp add: demo_token_of demo_claimed_id)
  obtain j where j: "jl_parse (ev_json (demo_env demo_docs)) (rq_body (demo_request ''token'' ''change'')) = Some j"
    "get_string j ''new_password'' = Ok ''better''"
    by (simp add: demo_docs_def demo_request_def get_string_def)
  have d: "dumps_ascii (ev_json (demo_env demo_docs))"
    by simp
  show ?thesis
    using change_password_then_login [OF g d r n i j demo_login_body, of "demo_chance 100"]
    by (simp only: demo_env_simps) (metis fst_conv)
qed

section \<open>Avatars\<close>

lemma make_avatar_dir_Ok:
  "make_avatar_dir env w = (Ok x, w') \<longleftrightarrow>
   (af_dir (w_files w) \<or> fe_mkdir (ev_fs env)) \<and> w' = w\<lparr>w_files := (w_files w)\<lparr>af_dir := True\<rparr>\<rparr>"
  by (auto simp: make_avatar_dir_def and_then_def gets_def ret_def modify_def raise_def)

lemma write_avatar_Ok:
  "write_avatar env p d w = (Ok b, w') \<longleftrightarrow> b = fe_open_out (ev_fs env) p \<and>
   w' = (if b then w\<lparr>w_files := (w_files w)\<lparr>af_file := (af_file (w_files w))(p \<mapsto> fe_written (ev_fs env) d)\<rparr>\<rparr>
         else w)"
  by (auto simp: write_avatar_def and_then_def modify_def ret_def)

lemma handleUpdateAvatar_success:
  assumes "handleUpdateAvatar env ju ch req w = (Ok res, w')" and "rs_status res = 200"
  shows "\<exists>j data i. jl_parse (ev_json env) (rq_body req) = Some j \<and> get_string j ''avatar_data'' = Ok data \<and>
      length data \<le> max_avatar \<and> token_of env ju ch req \<noteq> [] \<and>
      claimed_id env (token_of env ju ch req) w = (Ok i, w) \<and> w_dao w' = w_dao w \<and> w_verify w' = w_verify w \<and>
      w_files w' = \<lparr>af_dir = True,
        af_file = (af_file (w_files w))(avatar_path_of i \<mapsto> fe_written (ev_fs env) data)\<rparr>"
  using with_catch_success [OF assms(1) [unfolded handleUpdateAvatar_def] assms(2)] assms(2)
  by (simp only: success_simps Let_def make_avatar_dir_Ok write_avatar_Ok) (simp, elim exE conjE, simp)

lemma to_string_inj: "to_string i = to_string k \<Longrightarrow> i = k"
  by (metis atoi_value_to_string)

lemma avatar_path_inj: "avatar_path_of i = avatar_path_of k \<longleftrightarrow> i = k"
  by (auto simp: avatar_path_of_def dest: to_string_inj)

lemma handleGetAvatar_stored:
  assumes "token_of env ju ch req \<noteq> []" and "claimed_id env (token_of env ju ch req) w = (Ok i, w)"
    and "af_file (w_files w) (avatar_path_of i) = Some data" and "fe_open_in (ev_fs env) (avatar_path_of i)"
    and "jl_dump (ev_json env) (JObj [(''code'', JInt 200),
      (''message'', JString ''Avatar retrieved successfully''), (''avatar_data'', JString data)]) = Some b"
  shows "handleGetAvatar env ju ch req w = (Ok (buildSuccessResponse (rq_version req) b), w)"
proof -
  have claim: "and_then (claimed_id env (token_of env ju ch req)) f w = f i w"
    for f :: "_ \<Rightarrow> (world, http_response) prog"
    by (simp add: and_then_def assms(2))
  have "reply_json env req (JObj [(''code'', JInt 200),
      (''message'', JString ''Avatar retrieved successfully''), (''avatar_data'', JString data)]) =
      ret (buildSuccessResponse (rq_version req) b)"
    by (simp add: reply_json_def dump_json_def assms(5) prog_simps)
  with assms(1,3,4) show ?thesis
    by (simp add: handleGetAvatar_def Let_def with_catch_def catch_exn_def claim prog_simps)
      (simp add: ret_def)
qed

text \<open>
  C25: what a user stores as an avatar is what the user gets back: after a successful update, when the
  file took the whole text, a request with a token of the same user returns the text, which is not
  longer than a mebibyte; the files of all other users, the tables and the codes are unchanged.
\<close>

theorem avatar_roundtrip:
  assumes "handleUpdateAvatar env ju ch req w = (Ok res, w1)" and "rs_status res = 200"
    and "claimed_id env (token_of env ju ch req) w = (Ok i, w)"
    and "jl_parse (ev_json env) (rq_body req) = Some j" and "get_string j ''avatar_data'' = Ok data"
    and "fe_written (ev_fs env) data = data" and "fe_open_in (ev_fs env) (avatar_path_of i)"
    and "token_of env ju ch' req' \<noteq> []" and "claimed_id env (token_of env ju ch' req') w1 = (Ok i, w1)"
    and "jl_dump (ev_json env) (JObj [(''code'', JInt 200),
      (''message'', JString ''Avatar retrieved successfully''), (''avatar_data'', JString data)]) = Some b"
  shows "handleGetAvatar env ju ch' req' w1 = (Ok (buildSuccessResponse (rq_version req') b), w1) \<and>
    length data \<le> 1024 * 1024 \<and>
    (\<forall>k. k \<noteq> i \<longrightarrow> af_file (w_files w1) (avatar_path_of k) = af_file (w_files w) (avatar_path_of k)) \<and>
    w_dao w1 = w_dao w \<and> w_verify w1 = w_verify w"
proof -
  have h: "length data \<le> max_avatar" "w_dao w1 = w_dao w" "w_verify w1 = w_verify w"
    "af_file (w_files w1) = (af_file (w_files w))(avatar_path_of i \<mapsto> data)"
    using handleUpdateAvatar_success [OF assms(1,2)] assms(3-6) by auto
  then have "af_file (w_files w1) (avatar_path_of i) = Some data" by simp
  from handleGetAvatar_stored [OF assms(8,9) this assms(7,10)] h show ?thesis
    by (simp add: max_avatar_def avatar_path_inj)
qed

lemma demo_update_avatar:
  "\<exists>res w'. handleUpdateAvatar (demo_env demo_docs) (new_jwt_util ''key'') (demo_chance 200)
     (demo_request ''token'' ''avatar'') demo_account = (Ok res, w') \<and> rs_status res = 200"
proof -
  have "rq_body (demo_request ''token'' ''avatar'') = ''avatar''" by (simp add: demo_request_def)
  moreover have "jl_parse (ev_json (demo_env demo_docs)) ''avatar'' =
      Some (JObj [(''avatar_data'', JString ''picture'')])"
    by (simp add: demo_docs_def)
  ultimately show ?thesis
    by (simp add: handleUpdateAvatar_def Let_def demo_token_of with_catch_def catch_exn_def and_then_def
        body_json_def parse_json_def member_text_def get_string_def lift_outcome_def demo_claimed_id
        make_avatar_dir_def write_avatar_def gets_def modify_def reply_json_def dump_json_def ret_def
        max_avatar_def)
qed

theorem avatar_roundtrip_witness:
  "\<exists>w1. handleGetAvatar (demo_env demo_docs) (new_jwt_util ''key'') (demo_chance 200)
     (demo_request ''token'' []) w1 = (Ok (buildSuccessResponse 11 ''{}''), w1)"
proof -
  obtain res w1 where r: "handleUpdateAvatar (demo_env demo_docs) (new_jwt_util ''key'') (demo_chance 200)
     (demo_request ''token'' ''avatar'') demo_account = (Ok res, w1)" "rs_status res = 200"
    using demo_update_avatar by blast
  have "claimed_id (demo_env demo_docs) (token_of (demo_env demo_docs) (new_jwt_util ''key'') (demo_chance 200)
      (demo_request ''token'' ''avatar'')) demo_account = (Ok 1, demo_account)"
    by (simp add: demo_token_of demo_claimed_id)
  moreover have "jl_parse (ev_json (demo_env demo_docs)) (rq_body (demo_request ''token'' ''avatar'')) =
      Some (JObj [(''avatar_data'', JString ''picture'')])"
    by (simp add: demo_docs_def demo_request_def)
  moreover have "get_string (JObj [(''avatar_data'', JString ''picture'')]) ''avatar_data'' = Ok ''picture''"
    by (simp add: get_string_def)
  moreover have "rq_version (demo_request ''token'' []) = 11" by (simp add: demo_request_def)
  ultimately show ?thesis
    using avatar_roundtrip [OF r, of 1 _ "''picture''" "demo_chance 200" "demo_request ''token'' []" "''{}''"]
    by (auto simp: demo_token_of demo_claimed_id)
qed

section \<open>An empty pool\<close>

text \<open>
  when the pool has no connection to give, a login request with a well-formed body is undefined
  behaviour: the data access object dereferences the null pointer that the guard holds, and no
  \<open>catch\<close> of the handler sees it.
\<close>

theorem login_without_connection:
  assumes "login_body env req n p" and "ds_pool (w_dao w) = []"
  shows "fst (handleLogin env ju ch req w) = Undefined"
proof -
  obtain j where j: "jl_parse (ev_json env) (rq_body req) = Some j" "get_string j ''username'' = Ok n"
      "get_string j ''password'' = Ok p" "contains j ''username''" "contains j ''password''"
    using assms(1) get_string_contains by (auto simp: login_body_def)
  have "fst (getUserByUsername (ev_server env) n (w_dao w)) = Undefined"
    unfolding getUserByUsername_def using assms(2) by (subst dao_call_undefined) (intro pool_intros, simp)
  then obtain d where "getUserByUsername (ev_server env) n (w_dao w) = (Undefined, d)"
    by (metis prod.collapse)
  then have "and_then (on_dao (getUserByUsername (ev_server env) n)) f w = (Undefined, w\<lparr>w_dao := d\<rparr>)"
    for f :: "_ \<Rightarrow> (world, http_response) prog"
    by (simp add: and_then_def on_dao_def zoom_def)
  then show ?thesis
    by (simp add: handleLogin_def with_catch_def body_json_def parse_json_def member_text_def prog_simps j
        catch_exn_def)
qed

theorem login_without_connection_witness:
  "fst (handleLogin (demo_env demo_docs) (new_jwt_util ''key'') (demo_chance 100) (demo_request [] ''login'')
     (demo_world\<lparr>w_dao := demo_dao\<lparr>ds_pool := []\<rparr>\<rparr>)) = Undefined"
  by (rule login_without_connection [OF demo_login_body]) simp

section \<open>The profile and the bound platforms\<close>

definition profile_json :: "user \<Rightarrow> json" where
  "profile_json u =
     JObj [(''code'', JInt 200), (''message'', JString ''User profile retrieved successfully''),
           (''user'', user_json u)]"

text \<open>The profile is the body of the answer, unless it cannot be printed\<close>

definition shows_profile :: "env \<Rightarrow> http_request \<Rightarrow> user \<Rightarrow> http_response \<Rightarrow> bool" where
  "shows_profile env req u res \<longleftrightarrow>
     (case jl_dump (ev_json env) (profile_json u) of
        Some b \<Rightarrow> res = buildSuccessResponse (rq_version req) b
      | None \<Rightarrow> rs_status res = 400)"

lemma ascii_not_found: "ascii ''User not found''"
  by (simp add: ascii_def)

lemma handleGetProfile_good:
  assumes "dao_good (ev_server env) (w_dao w)" and "dumps_ascii (ev_json env)"
    and "token_of env ju ch req \<noteq> []" and "claimed_id env (token_of env ju ch req) w = (Ok i, w)"
  shows "\<exists>res. handleGetProfile env ju ch req w =
      (Ok res, w\<lparr>w_dao := served 2 (ds_db (w_dao w)) (w_dao w)\<rparr>) \<and>
    (case user_by_id (ev_server env) (ds_db (w_dao w)) i of
       None \<Rightarrow> rs_status res = 404
     | Some u \<Rightarrow> shows_profile env req u res)"
proof -
  let ?w = "w\<lparr>w_dao := served 2 (ds_db (w_dao w)) (w_dao w)\<rparr>"
  have call: "on_dao (getUserById (ev_server env) i) w =
      (Ok (user_by_id (ev_server env) (ds_db (w_dao w)) i), ?w)"
    by (simp add: on_dao_Ok getUserById_good [OF assms(1)])
  obtain r where r: "reply_error env req 404 ''User not found'' ?w = (Ok r, ?w)" "rs_status r = 404"
    using reply_error_is [OF assms(2) ascii_not_found] by blast
  show ?thesis
  proof (cases "user_by_id (ev_server env) (ds_db (w_dao w)) i")
    case None
    have "handleGetProfile env ju ch req w = (Ok r, ?w)"
      unfolding handleGetProfile_def Let_def using assms(3,4) call None r
      by (intro with_catch_Ok) (simp add: and_then_Ok_iff)
    with None r show ?thesis by simp
  next
    case (Some u)
    obtain r4 where r4: "reply_error env req 400 ''Invalid JSON format'' = ret r4" "rs_status r4 = 400"
      using reply_error_result [OF assms(2) ascii_messages(2)] .
    have "\<exists>res. handleGetProfile env ju ch req w = (Ok res, ?w) \<and> shows_profile env req u res"
    proof (cases "jl_dump (ev_json env) (profile_json u)")
      case None
      then show ?thesis
        using assms(3,4) call Some r4
        by (simp add: handleGetProfile_def Let_def with_catch_def catch_exn_def and_then_def reply_json_def
            dump_json_def lift_outcome_def profile_json_def shows_profile_def ret_def)
    next
      case (Some b)
      then have "handleGetProfile env ju ch req w = (Ok (buildSuccessResponse (rq_version req) b), ?w)"
        unfolding handleGetProfile_def Let_def using assms(3,4) call \<open>user_by_id _ _ i = Some u\<close>
        by (intro with_catch_Ok) (simp add: and_then_Ok_iff reply_json_Ok profile_json_def)
      with Some show ?thesis by (simp add: shows_profile_def)
    qed
    with Some show ?thesis by simp
  qed
qed

text \<open>
  on a working server a request for the profile with an accepted token answers 404 when the user
  in the token is gone, and otherwise 200 with the identifier, the name, the address, the time of
  creation and the bound platforms of that user's row (400 when they cannot be printed), and without the
  hash of the password; it changes no table, no code and no file.
\<close>

theorem profile_exact:
  assumes "dao_good (ev_server env) (w_dao w)" and "dumps_ascii (ev_json env)"
    and "token_of env ju ch req \<noteq> []" and "claimed_id env (token_of env ju ch req) w = (Ok i, w)"
  shows "\<exists>res w'. handleGetProfile env ju ch req w = (Ok res, w') \<and> ds_db (w_dao w') = ds_db (w_dao w) \<and>
    w_verify w' = w_verify w \<and> w_files w' = w_files w \<and>
    (if \<exists>r \<in> set (users (ds_db (w_dao w))). ur_id r = i
     then \<exists>r \<in> set (users (ds_db (w_dao w))). ur_id r = i \<and>
       shows_profile env req ((buildFromResultSet (ev_server env) r)\<lparr>us_passwd_hash := []\<rparr>) res
     else rs_status res = 404)"
proof -
  obtain res where res: "handleGetProfile env ju ch req w =
      (Ok res, w\<lparr>w_dao := served 2 (ds_db (w_dao w)) (w_dao w)\<rparr>)"
    "case user_by_id (ev_server env) (ds_db (w_dao w)) i of
       None \<Rightarrow> rs_status res = 404
     | Some u \<Rightarrow> shows_profile env req u res"
    using handleGetProfile_good [OF assms] by blast
  have "shows_profile env req (u\<lparr>us_passwd_hash := []\<rparr>) = shows_profile env req u" for u
    by (simp add: shows_profile_def profile_json_def user_json_def fun_eq_iff)
  then show ?thesis
    using res by (cases "find (\<lambda>r. ur_id r = i) (users (ds_db (w_dao w)))")
      (auto simp: user_by_id_def find_None_iff find_Some_iff)
qed

theorem profile_exact_witness:
  "\<exists>res w'. handleGetProfile (demo_env demo_docs) (new_jwt_util ''key'') (demo_chance 200)
     (demo_request ''token'' []) demo_account = (Ok res, w') \<and> rs_status res = 200"
proof -
  have d: "dumps_ascii (ev_json (demo_env demo_docs))"
    by simp
  have t: "token_of (demo_env demo_docs) (new_jwt_util ''key'') (demo_chance 200) (demo_request ''token'' []) = ''token''"
    by (rule demo_token_of)
  have g: "dao_good (ev_server (demo_env demo_docs)) (w_dao demo_account)"
    using demo_account_good by simp
  have "\<exists>r \<in> set (users (ds_db (w_dao demo_account))). ur_id r = 1"
    by (simp add: demo_account_def demo_ann_def)
  with profile_exact [OF g d, of "new_jwt_util ''key''" "demo_chance 200" "demo_request ''token'' []" 1]
  show ?thesis unfolding t using demo_claimed_id [of demo_docs demo_account]
    by (auto simp: shows_profile_def)
qed

section \<open>Binding a platform\<close>

lemma handleBindPlatform_success:
  assumes "handleBindPlatform env ju ch req w = (Ok res, w')" and "rs_status res = 200"
  shows "\<exists>j i p q d. jl_parse (ev_json env) (rq_body req) = Some j \<and> token_of env ju ch req \<noteq> [] \<and>
      claimed_id env (token_of env ju ch req) w = (Ok i, w) \<and>
      get_string j ''platform'' = Ok p \<and> get_string j ''platform_id'' = Ok q \<and> w' = w\<lparr>w_dao := d\<rparr> \<and>
      (p = ''qq'' \<and> updateQQId (ev_server env) i q (w_dao w) = (Ok True, d) \<or>
       p = ''netease'' \<and> updateNetEaseId (ev_server env) i q (w_dao w) = (Ok True, d))"
  using with_catch_success [OF assms(1) [unfolded handleBindPlatform_def] assms(2)] assms(2)
  by (simp only: success_simps Let_def) (auto simp: split: if_splits)

definition bound_user :: "string \<Rightarrow> string \<Rightarrow> user \<Rightarrow> user" where
  "bound_user p q u = (if p = ''qq'' then u\<lparr>us_qq_id := q\<rparr> else u\<lparr>us_netease_id := q\<rparr>)"

lemma bind_platform_good:
  assumes g: "dao_good (ev_server env) (w_dao w)"
    and "handleBindPlatform env ju ch req w = (Ok res, w')" and "rs_status res = 200"
  obtains j i p q where "jl_parse (ev_json env) (rq_body req) = Some j"
    "claimed_id env (token_of env ju ch req) w = (Ok i, w)"
    "get_string j ''platform'' = Ok p" "get_string j ''platform_id'' = Ok q" "p \<in> {''qq'', ''netease''}"
    "dao_good (ev_server env) (w_dao w')" "token_of env ju ch req \<noteq> []"
    "\<And>k. map_option user_json (user_by_id (ev_server env) (ds_db (w_dao w')) k) =
       map_option (\<lambda>u. user_json (if k = i then bound_user p q u else u))
         (user_by_id (ev_server env) (ds_db (w_dao w)) k)"
proof -
  let ?srv = "ev_server env"
  obtain j i p q d where h: "jl_parse (ev_json env) (rq_body req) = Some j" "token_of env ju ch req \<noteq> []"
      "claimed_id env (token_of env ju ch req) w = (Ok i, w)" "get_string j ''platform'' = Ok p"
      "get_string j ''platform_id'' = Ok q" "w' = w\<lparr>w_dao := d\<rparr>"
    and u: "p = ''qq'' \<and> updateQQId ?srv i q (w_dao w) = (Ok True, d) \<or>
      p = ''netease'' \<and> updateNetEaseId ?srv i q (w_dao w) = (Ok True, d)"
    using handleBindPlatform_success [OF assms(2,3)] by blast
  let ?f = "\<lambda>r. if p = ''qq'' then r\<lparr>ur_qq_id := Some q\<rparr> else r\<lparr>ur_netease_id := Some q\<rparr>"
  obtain t where t: "dao_good ?srv d"
    "users (ds_db d) = update_rows (\<lambda>r. ur_id r = i) ?f (\<lambda>r. r\<lparr>ur_update_at := t\<rparr>) (users (ds_db (w_dao w)))"
    using u updateQQId_effect [OF g] updateNetEaseId_effect [OF g] by fastforce
  have row: "user_json (buildFromResultSet ?srv (if ur_id r = i \<and> ?f r \<noteq> r then (?f r)\<lparr>ur_update_at := t\<rparr> else r)) =
      user_json (if ur_id r = i then bound_user p q (buildFromResultSet ?srv r) else buildFromResultSet ?srv r)" for r
  proof (cases "?f r = r")
    case True
    then have "(p = ''qq'' \<longrightarrow> ur_qq_id r = Some q) \<and> (p \<noteq> ''qq'' \<longrightarrow> ur_netease_id r = Some q)"
      by (cases r) (auto split: if_splits)
    with True show ?thesis
      by (auto simp: user_json_def bound_user_def buildFromResultSet_def empty_if_null_def)
  qed (auto simp: user_json_def bound_user_def buildFromResultSet_def empty_if_null_def)
  have "map_option user_json (user_by_id ?srv (ds_db d) k) =
      map_option (\<lambda>u. user_json (if k = i then bound_user p q u else u)) (user_by_id ?srv (ds_db (w_dao w)) k)" for k
  proof -
    have "find (\<lambda>r. ur_id r = k) (users (ds_db d)) =
        map_option (\<lambda>r. if ur_id r = i \<and> ?f r \<noteq> r then (?f r)\<lparr>ur_update_at := t\<rparr> else r)
          (find (\<lambda>r. ur_id r = k) (users (ds_db (w_dao w))))"
      unfolding t(2) by (rule find_update_rows) simp
    then show ?thesis
      by (cases "find (\<lambda>r. ur_id r = k) (users (ds_db (w_dao w)))")
        (auto simp: user_by_id_def row dest: find_SomeD)
  qed
  with h t(1) u show ?thesis by (intro that [OF h(1,3-5)]) auto
qed

lemma shows_profile_cong:
  "user_json u = user_json v \<Longrightarrow> shows_profile env req u res \<longleftrightarrow> shows_profile env req v res"
  by (simp add: shows_profile_def profile_json_def)

text \<open>
  C36: on a working server a binding with status 200 names the platform \<open>qq\<close> or \<open>netease\<close>, and the next
  request for the profile, with an accepted token of the same user, one whose row exists, shows the
  identifier given under that platform and everything else as it was (or answers 400 when that cannot
  be printed).
\<close>

theorem bind_then_profile:
  assumes "dao_good (ev_server env) (w_dao w)" and "dumps_ascii (ev_json env)"
    and "handleBindPlatform env ju ch req w = (Ok res, w1)" and "rs_status res = 200"
    and "jl_parse (ev_json env) (rq_body req) = Some j"
    and "get_string j ''platform'' = Ok p" and "get_string j ''platform_id'' = Ok q"
    and "claimed_id env (token_of env ju ch req) w = (Ok i, w)"
    and "user_by_id (ev_server env) (ds_db (w_dao w)) i = Some u"
    and "token_of env ju ch' req' \<noteq> []" and "claimed_id env (token_of env ju ch' req') w1 = (Ok i, w1)"
  shows "p \<in> {''qq'', ''netease''} \<and> (\<exists>res' w2. handleGetProfile env ju ch' req' w1 = (Ok res', w2) \<and>
    shows_profile env req' (if p = ''qq'' then u\<lparr>us_qq_id := q\<rparr> else u\<lparr>us_netease_id := q\<rparr>) res')"
  using assms(1,3,4)
proof (cases rule: bind_platform_good)
  case (1 j' i' p' q')
  then have same: "i' = i" "p' = p" "q' = q" using assms(5-8) by auto
  from 1(8) [of i] assms(9) obtain v where v: "user_by_id (ev_server env) (ds_db (w_dao w1)) i = Some v"
    "user_json v = user_json (bound_user p q u)"
    by (auto simp: same)
  from handleGetProfile_good [OF 1(6) assms(2,10,11)] v(1)
  show ?thesis using 1(5) shows_profile_cong [OF v(2)] by (auto simp: same bound_user_def)
qed

lemma demo_bind:
  "\<exists>res w'. handleBindPlatform (demo_env demo_docs) (new_jwt_util ''key'') (demo_chance 200)
     (demo_request ''token'' ''bind'') demo_account = (Ok res, w') \<and> rs_status res = 200"
proof -
  obtain s' where "updateQQId demo_server 1 ''12345'' (w_dao demo_account) = (Ok True, s')"
    using dao_goodD [OF demo_account_good]
    by (simp add: updateQQId_def dao_call_one update_qq_id_def update_users_def Let_def demo_account_def
        demo_ann_def update_rows_def)
  moreover have "rq_body (demo_request ''token'' ''bind'') = ''bind''" by (simp add: demo_request_def)
  moreover have "jl_parse (ev_json (demo_env demo_docs)) ''bind'' =
      Some (JObj [(''platform'', JString ''qq''), (''platform_id'', JString ''12345'')])"
    by (simp add: demo_docs_def)
  ultimately show ?thesis
    by (simp add: handleBindPlatform_def Let_def demo_token_of with_catch_def catch_exn_def
        and_then_def body_json_def parse_json_def member_text_def get_string_def lift_outcome_def
        demo_claimed_id on_dao_def zoom_def reply_json_def dump_json_def ret_def)
qed

theorem bind_then_profile_witness:
  "\<exists>w1 res' w2. handleGetProfile (demo_env demo_docs) (new_jwt_util ''key'') (demo_chance 200)
     (demo_request ''token'' []) w1 = (Ok res', w2) \<and> rs_status res' = 200"
proof -
  obtain res w1 where r: "handleBindPlatform (demo_env demo_docs) (new_jwt_util ''key'') (demo_chance 200)
     (demo_request ''token'' ''bind'') demo_account = (Ok res, w1)" "rs_status res = 200"
    using demo_bind by blast
  have d: "dumps_ascii (ev_json (demo_env demo_docs))" by simp
  have g: "dao_good (ev_server (demo_env demo_docs)) (w_dao demo_account)"
    using demo_account_good by simp
  obtain j where j: "jl_parse (ev_json (demo_env demo_docs)) (rq_body (demo_request ''token'' ''bind'')) = Some j"
    "get_string j ''platform'' = Ok ''qq''" "get_string j ''platform_id'' = Ok ''12345''"
    by (simp add: demo_docs_def demo_request_def get_string_def)
  have i: "claimed_id (demo_env demo_docs) (token_of (demo_env demo_docs) (new_jwt_util ''key'')
      (demo_chance 200) (demo_request ''token'' b)) w = (Ok 1, w)"
    "token_of (demo_env demo_docs) (new_jwt_util ''key'') (demo_chance 200) (demo_request ''token'' b) \<noteq> []" for b w
    by (simp_all add: demo_token_of demo_claimed_id)
  have u: "user_by_id (ev_server (demo_env demo_docs)) (ds_db (w_dao demo_account)) 1 =
      Some (buildFromResultSet demo_server demo_ann)"
    by (simp add: user_by_id_def demo_account_def demo_ann_def)
  show ?thesis
    using bind_then_profile [OF g d r j i(1) u i(2) i(1), of "[]"]
    by (auto simp: shows_profile_def intro!: exI [of _ w1])
qed

end
