(* ===== verification/Router.thy ===== *)
theory Router
  imports UserFlows "HOL-Library.AList"
begin

text \<open>
  \<open>src/server/Router.h\<close>, \<open>src/server/Router.cpp\<close> and \<open>setupRoutes\<close> of \<open>src/server/main.cpp\<close>: two maps
  from targets to handlers, the dispatch of a request, and the table of routes of the program.
\<close>

section \<open>The router\<close>

record router =
  m_router_get :: "(string \<times> handler) list"
  m_router_post :: "(string \<times> handler) list"

definition new_router :: router where
  "new_router = \<lparr>m_router_get = [], m_router_post = []\<rparr>"

definition addRouter :: "verb \<Rightarrow> string \<Rightarrow> handler \<Rightarrow> router \<Rightarrow> router" where
  "addRouter method url h r =
     (if method = Get then r\<lparr>m_router_get := AList.update url h (m_router_get r)\<rparr>
      else if method = Post then r\<lparr>m_router_post := AList.update url h (m_router_post r)\<rparr>
      else r)"

definition handleRouter :: "env \<Rightarrow> router \<Rightarrow> handler" where
  "handleRouter env r ch request =
     (if rq_method request = Get \<and> map_of (m_router_get r) (rq_target request) \<noteq> None
      then the (map_of (m_router_get r) (rq_target request)) ch request
      else if rq_method request = Post \<and> map_of (m_router_post r) (rq_target request) \<noteq> None
      then the (map_of (m_router_post r) (rq_target request)) ch request
      else reply_error env request status_not_found ''Not found'')"

section \<open>The contract of a table of routes\<close>

locale route_table =
  fixes find_route :: "'r \<Rightarrow> verb \<Rightarrow> string \<Rightarrow> 'h option"
    and add :: "verb \<Rightarrow> string \<Rightarrow> 'h \<Rightarrow> 'r \<Rightarrow> 'r"
    and empty :: "'r"
    and routable :: "verb \<Rightarrow> bool"
  assumes find_empty: "find_route empty m t = None"
    and find_add: "find_route (add m t h r) m' t' =
      (if routable m \<and> m' = m \<and> t' = t then Some h else find_route r m' t')"
begin

definition add_all :: "(verb \<times> string \<times> 'h) list \<Rightarrow> 'r \<Rightarrow> 'r" where
  "add_all rs r = fold (\<lambda>(m, t, h). add m t h) rs r"

text \<open>The last registration of a method and a target wins.\<close>

lemma find_add_all:
  "list_all (\<lambda>(m, t, h). routable m) rs \<Longrightarrow>
   find_route (add_all rs r) m t =
     (case map_of (rev (map (\<lambda>(m, t, h). ((m, t), h)) rs)) (m, t) of
        Some h \<Rightarrow> Some h | None \<Rightarrow> find_route r m t)"
  by (induction rs arbitrary: r)
    (auto simp: add_all_def find_add map_add_def split: option.splits)

lemma find_add_all_distinct:
  assumes "list_all (\<lambda>(m, t, h). routable m) rs" and "distinct (map (\<lambda>(m, t, h). (m, t)) rs)"
    and "(m, t, h) \<in> set rs"
  shows "find_route (add_all rs r) m t = Some h"
proof -
  let ?ps = "rev (map (\<lambda>(m, t, h). ((m, t), h)) rs)"
  have "map fst ?ps = rev (map (\<lambda>(m, t, h). (m, t)) rs)"
    by (simp add: rev_map o_def case_prod_unfold)
  then have "distinct (map fst ?ps)" using assms(2) by simp
  moreover have "((m, t), h) \<in> set ?ps" using assms(3) by force
  ultimately have "map_of ?ps (m, t) = Some h" by (rule map_of_is_SomeI)
  with assms(1) show ?thesis by (simp add: find_add_all)
qed

lemma find_add_all_None:
  assumes "list_all (\<lambda>(m, t, h). routable m) rs" and "(m, t) \<notin> set (map (\<lambda>(m, t, h). (m, t)) rs)"
  shows "find_route (add_all rs empty) m t = None"
proof -
  have "fst ` set (map (\<lambda>(m, t, h). ((m, t), h)) rs) = set (map (\<lambda>(m, t, h). (m, t)) rs)"
    by (force simp: image_iff)
  then have "map_of (rev (map (\<lambda>(m, t, h). ((m, t), h)) rs)) (m, t) = None"
    using assms(2) by (simp only: map_of_eq_None_iff set_rev not_False_eq_True)
  with assms(1) show ?thesis by (simp add: find_add_all find_empty)
qed

end

definition find_route :: "router \<Rightarrow> verb \<Rightarrow> string \<Rightarrow> handler option" where
  "find_route r m t =
     (case m of Get \<Rightarrow> map_of (m_router_get r) t | Post \<Rightarrow> map_of (m_router_post r) t | _ \<Rightarrow> None)"

interpretation routes: route_table find_route addRouter new_router "\<lambda>m. m = Get \<or> m = Post"
  by unfold_locales
    (auto simp: find_route_def addRouter_def new_router_def update_conv' split: verb.splits)

lemma handleRouter_eq:
  "handleRouter env r ch req =
     (case find_route r (rq_method req) (rq_target req) of
        Some h \<Rightarrow> h ch req
      | None \<Rightarrow> reply_error env req status_not_found ''Not found'')"
  by (cases "rq_method req") (auto simp: handleRouter_def find_route_def split: option.splits)

section \<open>The routes of the program\<close>

text \<open>
  A route that only answers with a fixed document. What the initialiser list of \<open>json{{text}}\<close> with a
  single text makes of it (an array in an array, or an array) depends on the compiler: \<open>wrap\<close>.
\<close>

definition fixed_answer :: "env \<Rightarrow> json \<Rightarrow> handler" where
  "fixed_answer env j ch req = reply_json env req j"

definition user_routes :: "env \<Rightarrow> jwt_util \<Rightarrow> (verb \<times> string \<times> handler) list" where
  "user_routes env ju =
     [(Post, ''/users/register'', handleRegister env),
      (Post, ''/users/verify_code'', handleGetVerifyCode env),
      (Post, ''/users/login'', handleLogin env ju),
      (Get, ''/users/info'', handleGetProfile env ju),
      (Post, ''/users/avatar'', handleUpdateAvatar env ju),
      (Get, ''/users/avatar'', handleGetAvatar env ju),
      (Post, ''/users/password'', handleChangePassword env ju),
      (Post, ''/users/bind'', handleBindPlatform env ju)]"

definition fixed_routes :: "(string \<Rightarrow> json) \<Rightarrow> (verb \<times> string \<times> json) list" where
  "fixed_routes wrap =
     [(Post, ''/playlists'', wrap ''Playlists retrieved successfully''),
      (Post, ''/playlists/songs'', wrap ''All songs in playlist retrieved''),
      (Post, ''/playlists/add'', JObj [(''msg'', JString ''Song added to playlist'')]),
      (Post, ''/playlists/erase'', JObj [(''msg'', JString ''Song removed from playlist'')]),
      (Post, ''/playlists/create'', wrap ''Playlist created successfully''),
      (Post, ''/playlists/delete'', JObj [(''msg'', JString ''Playlist deleted successfully'')]),
      (Post, ''/history'', wrap ''All songs in history retrieved''),
      (Post, ''/history/add'', wrap ''Song added to history''),
      (Post, ''/history/erase'', JObj [(''msg'', JString ''Song removed from history'')]),
      (Post, ''/history/clear'', wrap ''History cleared''),
      (Post, ''/history/like'', wrap ''Most played songs retrieved'')]"

definition all_routes :: "env \<Rightarrow> jwt_util \<Rightarrow> (string \<Rightarrow> json) \<Rightarrow> (verb \<times> string \<times> handler) list" where
  "all_routes env ju wrap =
     (Get, ''/'', fixed_answer env (JObj [(''message'', JString ''Welcome to HarmonyOS Music Player!'')])) #
     user_routes env ju @ map (\<lambda>(m, t, j). (m, t, fixed_answer env j)) (fixed_routes wrap)"

definition setupRoutes :: "env \<Rightarrow> string \<Rightarrow> (string \<Rightarrow> json) \<Rightarrow> router \<Rightarrow> router" where
  "setupRoutes env secret wrap server =
     fold (\<lambda>(m, t, h). addRouter m t h) (all_routes env (new_jwt_util secret) wrap) server"

definition program_router :: "env \<Rightarrow> string \<Rightarrow> (string \<Rightarrow> json) \<Rightarrow> router" where
  "program_router env secret wrap = setupRoutes env secret wrap new_router"

lemma all_routes_paths:
  "map (\<lambda>(m, t, h). (m, t)) (all_routes env ju wrap) =
   [(Get, ''/''), (Post, ''/users/register''), (Post, ''/users/verify_code''), (Post, ''/users/login''),
    (Get, ''/users/info''), (Post, ''/users/avatar''), (Get, ''/users/avatar''), (Post, ''/users/password''),
    (Post, ''/users/bind''), (Post, ''/playlists''), (Post, ''/playlists/songs''), (Post, ''/playlists/add''),
    (Post, ''/playlists/erase''), (Post, ''/playlists/create''), (Post, ''/playlists/delete''),
    (Post, ''/history''), (Post, ''/history/add''), (Post, ''/history/erase''), (Post, ''/history/clear''),
    (Post, ''/history/like'')]"
  by (simp add: all_routes_def fixed_routes_def user_routes_def)

lemma all_routes_routable:
  "list_all (\<lambda>(m, t, h). m = Get \<or> m = Post) (all_routes env ju wrap)"
  by (simp add: all_routes_def fixed_routes_def user_routes_def)

lemma all_routes_distinct: "distinct (map (\<lambda>(m, t, h). (m, t)) (all_routes env ju wrap))"
  unfolding all_routes_paths by simp

lemma program_router_find:
  "(m, t, h) \<in> set (all_routes env (new_jwt_util secret) wrap) \<Longrightarrow>
   find_route (program_router env secret wrap) m t = Some h"
  using routes.find_add_all_distinct [OF all_routes_routable all_routes_distinct]
  by (simp add: program_router_def setupRoutes_def routes.add_all_def)

lemma program_router_None:
  "(m, t) \<notin> set (map (\<lambda>(m, t, h). (m, t)) (all_routes env (new_jwt_util secret) wrap)) \<Longrightarrow>
   find_route (program_router env secret wrap) m t = None"
  using routes.find_add_all_None [OF all_routes_routable, of m t env "new_jwt_util secret" wrap]
  by (simp add: program_router_def setupRoutes_def routes.add_all_def)

section \<open>What every route keeps\<close>

lemma route_handler_cases:
  assumes "find_route (program_router env secret wrap) m t = Some h"
  obtains (user) "h \<in> set (user_handlers env (new_jwt_util secret))"
  | (fixed) j where "h = fixed_answer env j"
proof -
  let ?all = "all_routes env (new_jwt_util secret) wrap"
  have "(m, t) \<in> set (map (\<lambda>(m, t, h). (m, t)) ?all)"
    using assms program_router_None [of m t env secret wrap] by fastforce
  then obtain h' where h': "(m, t, h') \<in> set ?all" by auto
  with assms program_router_find [OF h'] have "h' = h" by simp
  with h' show ?thesis
    using user fixed by (auto simp: all_routes_def user_routes_def user_handlers_def)
qed

lemma handleRouter_keeps:
  "preserves (world_ok env) (handleRouter env (program_router env secret wrap) ch req)"
proof (cases "find_route (program_router env secret wrap) (rq_method req) (rq_target req)")
  case None
  then show ?thesis by (simp add: handleRouter_eq) (intro preserve_intros)
next
  case (Some h)
  then show ?thesis
  proof (cases rule: route_handler_cases)
    case user
    with Some handlers_keep show ?thesis by (simp add: handleRouter_eq)
  next
    case (fixed j)
    with Some show ?thesis by (simp add: handleRouter_eq fixed_answer_def) (intro preserve_intros)
  qed
qed

lemma handleRouter_safe:
  assumes "id_fits env (token_of env (new_jwt_util secret) ch req)"
  shows "safe_on has_connection (handleRouter env (program_router env secret wrap) ch req)"
proof (cases "find_route (program_router env secret wrap) (rq_method req) (rq_target req)")
  case None
  then show ?thesis by (simp add: handleRouter_eq) (intro total_intros)
next
  case (Some h)
  then show ?thesis
  proof (cases rule: route_handler_cases)
    case user
    with Some handlers_total [OF user assms] show ?thesis by (simp add: handleRouter_eq)
  next
    case (fixed j)
    with Some show ?thesis by (simp add: handleRouter_eq fixed_answer_def) (intro total_intros)
  qed
qed

section \<open>Properties\<close>

text \<open>
  the router of the program sends a request to the handler that \<open>setupRoutes\<close> registered for its
  method and its target, text for text, and answers every other request with 404 without any effect;
  that includes \<open>GET /history/like\<close>, which the comment announces but which is registered as \<open>POST\<close>.
\<close>

theorem routes_exact:
  assumes "dumps_ascii (ev_json env)"
  shows "(\<forall>(m, t, h) \<in> set (all_routes env (new_jwt_util secret) wrap).
      rq_method req = m \<and> rq_target req = t \<longrightarrow>
      handleRouter env (program_router env secret wrap) ch req = h ch req) \<and>
    ((rq_method req, rq_target req) \<notin>
        set (map (\<lambda>(m, t, h). (m, t)) (all_routes env (new_jwt_util secret) wrap)) \<or>
     rq_method req = Get \<and> rq_target req = ''/history/like'' \<longrightarrow>
      (\<exists>res. handleRouter env (program_router env secret wrap) ch req w = (Ok res, w) \<and>
         rs_status res = 404))"
proof -
  have like: "(Get, ''/history/like'') \<notin>
      set (map (\<lambda>(m, t, h). (m, t)) (all_routes env (new_jwt_util secret) wrap))"
    unfolding all_routes_paths by simp
  have "ascii ''Not found''" by (simp add: ascii_def)
  then obtain res where res: "buildErrorResponse (ev_json env) 404 (rq_version req) ''Not found'' = Ok res"
    "rs_status res = 404"
    using buildErrorResponse_ascii [OF assms] by blast
  have "handleRouter env (program_router env secret wrap) ch req w = (Ok res, w)"
    if "(rq_method req, rq_target req) \<notin>
        set (map (\<lambda>(m, t, h). (m, t)) (all_routes env (new_jwt_util secret) wrap))"
    using program_router_None [OF that] res
    by (simp add: handleRouter_eq reply_error_def lift_outcome_def)
  with like res(2) show ?thesis
    by (auto simp: handleRouter_eq program_router_find)
qed

theorem routes_exact_witness:
  "\<exists>res. handleRouter (demo_env Map.empty) (program_router (demo_env Map.empty) ''key'' JString) (demo_chance 1)
     ((demo_request [] [])\<lparr>rq_method := Get, rq_target := ''/history/like''\<rparr>) demo_world = (Ok res, demo_world) \<and>
   rs_status res = 404"
proof -
  let ?req = "(demo_request [] [])\<lparr>rq_method := Get, rq_target := ''/history/like''\<rparr>"
  have "dumps_ascii (ev_json (demo_env Map.empty))" by simp
  from routes_exact [OF this, of "''key''" JString ?req "demo_chance 1" demo_world] show ?thesis
    by simp
qed

end
