(* ===== verification/Session.thy ===== *)
theory Session
  imports Router
begin

text \<open>
  \<open>src/server/Session.h\<close> and \<open>src/server/Session.cpp\<close>: one connection. \<open>doRead\<close>, \<open>handleRequest\<close> and
  \<open>doWrite\<close> call each other through completion handlers, one at a time; the network is the list of
  the results that the reads and writes complete with.
\<close>

text \<open>What a read completes with, and whether the write after it succeeds\<close>

datatype read_result = Request http_request | EndOfStream | ReadError

type_synonym exchange = "read_result \<times> bool"

text \<open>
  How a session is left: still waiting for the next read; ended by an error of the connection; ended
  by \<open>shutdown_send\<close>; an exception has left the completion handler, and so the thread function, which
  ends the program; undefined behaviour.
\<close>

datatype session_end = Reading | Closed | ShutDown | Terminated | Crashed

text \<open>\<open>what e\<close> is \<open>e.what()\<close>.\<close>

definition handleRequest :: "env \<Rightarrow> (exn \<Rightarrow> string) \<Rightarrow> router \<Rightarrow> handler" where
  "handleRequest env what r ch req =
     catch_exn (handleRouter env r ch req)
       (\<lambda>e. reply_error env req status_internal_server_error (what e))"

text \<open>The responses written, the end of the session and the state after it\<close>

fun session ::
  "env \<Rightarrow> (exn \<Rightarrow> string) \<Rightarrow> router \<Rightarrow> (chance \<times> exchange) list \<Rightarrow> world \<Rightarrow>
   http_response list \<times> session_end \<times> world" where
  "session env what r [] w = ([], Reading, w)"
| "session env what r ((ch, EndOfStream, _) # _) w = ([], Closed, w)"
| "session env what r ((ch, ReadError, _) # _) w = ([], Closed, w)"
| "session env what r ((ch, Request req, written) # rest) w =
     (case handleRequest env what r ch req w of
        (Ok res, w') \<Rightarrow>
          if \<not> written then ([], Closed, w')
          else if rq_need_eof req then ([res], ShutDown, w')
          else (case session env what r rest w' of (out, fin, w'') \<Rightarrow> (res # out, fin, w''))
      | (Raised e, w') \<Rightarrow> ([], Terminated, w')
      | (Undefined, w') \<Rightarrow> ([], Crashed, w'))"

section \<open>One request\<close>

lemma handleRequest_keeps:
  "preserves (world_ok env) (handleRequest env what (program_router env secret wrap) ch req)"
  unfolding handleRequest_def by (intro preserve_intros handleRouter_keeps)

lemma handleRequest_answers:
  assumes "dumps_ascii (ev_json env)" and "\<And>e. ascii (what e)"
    and "id_fits env (token_of env (new_jwt_util secret) ch req)" and "has_connection w"
  obtains res w' where "handleRequest env what (program_router env secret wrap) ch req w = (Ok res, w')"
    "has_connection w'"
proof -
  let ?m = "handleRequest env what (program_router env secret wrap) ch req"
  obtain r w' where r: "?m w = (r, w')" by fastforce
  have "safe_on has_connection ?m"
    unfolding handleRequest_def by (intro total_intros handleRouter_safe assms(3))
  from safe_onD [OF this assms(4) r] have safe: "r \<noteq> Undefined" "has_connection w'" by simp_all
  have "r \<noteq> Raised e" for e
  proof
    assume "r = Raised e"
    then obtain e' v where "reply_error env req 500 (what e') v = (Raised e, w')"
      using r by (auto simp: handleRequest_def catch_exn_def split: prod.splits outcome.splits)
    moreover obtain res where "buildErrorResponse (ev_json env) 500 (rq_version req) (what e') = Ok res"
      using buildErrorResponse_ascii [OF assms(1,2)] by blast
    ultimately show False by (simp add: reply_error_def lift_outcome_def)
  qed
  with safe r show ?thesis using that by (cases r) auto
qed

section \<open>Properties\<close>

text \<open>The requests that a session reads before it ends\<close>

fun read_requests :: "(chance \<times> exchange) list \<Rightarrow> (chance \<times> http_request) list" where
  "read_requests [] = []"
| "read_requests ((ch, Request req, written) # rest) =
     (ch, req) # (if written \<and> \<not> rq_need_eof req then read_requests rest else [])"
| "read_requests (_ # _) = []"

text \<open>The number of responses that reach the client: the last one is lost when its write fails\<close>

fun written_responses :: "(chance \<times> exchange) list \<Rightarrow> nat" where
  "written_responses [] = 0"
| "written_responses ((ch, Request req, written) # rest) =
     (if \<not> written then 0 else if rq_need_eof req then 1 else Suc (written_responses rest))"
| "written_responses (_ # _) = 0"

text \<open>
  C5: a session of the program answers the requests one after the other, each exactly once: with a
  connection in the pool and tokens whose identifiers are numbers, it never ends the program, neither
  by an exception nor by undefined behaviour, whatever the requests, the server and the clock do; the
  number of responses is that of the requests read, less one whose write failed; and after it every
  constraint of the schema holds and the addresses in the store of codes are distinct.
\<close>

theorem session_answers:
  assumes "dumps_ascii (ev_json env)" and "\<forall>e. ascii (what e)" and "has_connection w" and "world_ok env w"
    and "\<forall>(ch, req) \<in> set (read_requests xs). id_fits env (token_of env (new_jwt_util secret) ch req)"
    and "session env what (program_router env secret wrap) xs w = (out, fin, w')"
  shows "fin \<notin> {Terminated, Crashed} \<and> length out = written_responses xs \<and> has_connection w' \<and> world_ok env w'"
  using assms(3-6)
proof (induction xs arbitrary: w out fin w')
  case (Cons x xs)
  obtain ch ex written where x: "x = (ch, ex, written)" by (cases x) auto
  show ?case
  proof (cases ex)
    case (Request req)
    have id: "id_fits env (token_of env (new_jwt_util secret) ch req)"
      using Cons.prems(3) x Request by simp
    obtain res v where v: "handleRequest env what (program_router env secret wrap) ch req w = (Ok res, v)"
      "has_connection v"
      using handleRequest_answers [OF assms(1) _ id Cons.prems(1)] assms(2) by metis
    have ok: "world_ok env v"
      using preservesD_eq [OF handleRequest_keeps Cons.prems(2) v(1)] .
    obtain out1 fin1 w1 where rest: "session env what (program_router env secret wrap) xs v = (out1, fin1, w1)"
      using prod_cases3 by blast
    have ih: "fin1 \<notin> {Terminated, Crashed} \<and> length out1 = written_responses xs \<and> has_connection w1 \<and>
        world_ok env w1" if "written" "\<not> rq_need_eof req"
      by (rule Cons.IH [OF v(2) ok _ rest]) (use Cons.prems(3) x Request that in simp)
    show ?thesis
      using Cons.prems(4) x Request v ok rest ih by (auto split: if_splits)
  qed (use Cons.prems x in auto)
qed simp

lemma demo_world_ok: "world_ok (demo_env p) demo_world \<and> has_connection demo_world"
  by (simp add: world_ok_def has_connection_def demo_world_def demo_state_def schema_ok_empty)

theorem session_answers_witness:
  "\<exists>out fin w'. session (demo_env Map.empty) (\<lambda>e. ''error'') (program_router (demo_env Map.empty) ''key'' JString)
     [(demo_chance 200, Request (demo_request [] ''x''), True), (demo_chance 200, EndOfStream, True)]
     demo_world = (out, fin, w') \<and> length out = 1 \<and> fin \<noteq> Terminated"
proof -
  let ?xs = "[(demo_chance 200, Request (demo_request [] ''x''), True), (demo_chance 200, EndOfStream, True)]"
  obtain out fin w' where r: "session (demo_env Map.empty) (\<lambda>e. ''error'')
      (program_router (demo_env Map.empty) ''key'' JString) ?xs demo_world = (out, fin, w')"
    using prod_cases3 by blast
  have "id_fits (demo_env Map.empty) []"
    by (simp add: id_fits_def getClaim_def demo_jwt_def)
  then have ids: "\<forall>(ch, req) \<in> set (read_requests ?xs).
      id_fits (demo_env Map.empty) (token_of (demo_env Map.empty) (new_jwt_util ''key'') ch req)"
    by (simp add: demo_no_token)
  have d: "dumps_ascii (ev_json (demo_env Map.empty))" "\<forall>e. ascii ((\<lambda>e :: exn. ''error'') e)"
    by (simp_all add: ascii_def)
  have "length out = 1 \<and> fin \<noteq> Terminated"
    using session_answers [OF d conjunct2 [OF demo_world_ok] conjunct1 [OF demo_world_ok] ids r]
    by (simp add: demo_request_def)
  with r show ?thesis by blast
qed

end
