(* ===== verification/Server.thy ===== *)
theory Server
  imports Router
begin

text \<open>
  \<open>src/server/Server.h\<close> and \<open>src/server/Server.cpp\<close>: the life of the server object: construction, \<open>run\<close>
  with its worker threads and the sweep of expired codes every five seconds, \<open>stop\<close> from the signal
  handler or the destructor, and the start of the program in \<open>src/server/main.cpp\<close>.
\<close>

text \<open>
  \<open>se_threads\<close> are the joinable threads by number, \<open>se_acceptor\<close> whether the listening socket is open,
  \<open>se_accepting\<close> whether an accept is outstanding.
\<close>

record server_object =
  se_running :: bool
  se_num_threads :: int
  se_acceptor :: bool
  se_accepting :: bool
  se_guard :: bool
  se_ioc_stopped :: bool
  se_threads :: "nat list"

text \<open>\<open>open_ok\<close>: the address can be parsed, bound and listened on; otherwise the constructor throws.\<close>

definition new_server :: "bool \<Rightarrow> int \<Rightarrow> server_object outcome" where
  "new_server open_ok num_threads =
     (if open_ok
      then Ok \<lparr>se_running = False, se_num_threads = num_threads, se_acceptor = True, se_accepting = False,
               se_guard = True, se_ioc_stopped = False, se_threads = []\<rparr>
      else Raised (StdException ''bind''))"

definition doAccept :: "server_object \<Rightarrow> server_object" where
  "doAccept s = (if \<not> se_running s then s else s\<lparr>se_accepting := True\<rparr>)"

text \<open>
  The start of \<open>run\<close>: \<open>m_threads.reserve\<close> throws \<open>std::length_error\<close> for a negative number, after
  \<open>m_running\<close> is set.
\<close>

definition run_start :: "(server_object, unit) prog" where
  "run_start s =
     (let s = doAccept (s\<lparr>se_running := True\<rparr>) in
      if se_num_threads s < 0 then (Raised (StdException ''vector::reserve''), s)
      else (Ok (), s\<lparr>se_threads := se_threads s @ [0 ..< nat (se_num_threads s)]\<rparr>))"

text \<open>
  \<open>stop\<close> as thread \<open>me\<close> runs it (\<open>None\<close>: a thread that is not one of the workers, such as the main
  thread). A worker that joins itself gets a \<open>std::system_error\<close>.
\<close>

fun join_all :: "nat option \<Rightarrow> nat list \<Rightarrow> nat list outcome" where
  "join_all me [] = Ok []"
| "join_all me (t # ts) = (if me = Some t then Raised (StdException ''join'') else join_all me ts)"

definition stop :: "nat option \<Rightarrow> (server_object, unit) prog" where
  "stop me s =
     (if \<not> se_running s then (Ok (), s)
      else
        (let s = s\<lparr>se_acceptor := False, se_accepting := False, se_ioc_stopped := True, se_guard := False\<rparr> in
         case join_all me (se_threads s) of
           Ok ts \<Rightarrow> (Ok (), s\<lparr>se_threads := ts, se_running := False\<rparr>)
         | Raised e \<Rightarrow> (Raised e, s)
         | Undefined \<Rightarrow> (Undefined, s)))"

text \<open>
  The loop of \<open>run\<close> in the main thread: after each sleep, one sweep at the time given, and the flag is
  read again. The result is the number of entries erased.
\<close>

fun sweep_loop :: "(int \<times> bool) list \<Rightarrow> codes \<Rightarrow> nat \<times> codes" where
  "sweep_loop [] m = (0, m)"
| "sweep_loop ((now, running) # rest) m =
     (case cleanupExpiredCodes now m of
        (n, m') \<Rightarrow>
          if running then (case sweep_loop rest m' of (k, m'') \<Rightarrow> (n + k, m'')) else (n, m'))"

section \<open>The start of the program\<close>

text \<open>
  \<open>main\<close>: load the configuration, make the pool, construct the server, register the routes, run. The
  exit status is 1 when the load fails or an exception arrives; otherwise what \<open>run\<close> starts is the
  result. \<open>level_ok\<close> and the driver belong to libraries.
\<close>

datatype started = Exit int | Running config "conn list" server_object router

definition program_main ::
  "(string \<Rightarrow> json option) \<Rightarrow> string option \<Rightarrow> driver \<Rightarrow> bool \<Rightarrow> (config \<Rightarrow> env) \<Rightarrow> (string \<Rightarrow> json) \<Rightarrow> started" where
  "program_main read file dr open_ok mk_env wrap =
     (case loadFromFile read file default_config of
        (Ok True, c) \<Rightarrow>
          (let pool = new_pool dr (unat (db_pool_size (m_db c))) in
           case new_server open_ok (sv_threads (m_server c)) of
             Ok s \<Rightarrow>
               (case run_start s of
                  (Ok _, s') \<Rightarrow> Running c pool s' (program_router (mk_env c) (jc_secret (m_jwt c)) wrap)
                | _ \<Rightarrow> Exit 1)
           | _ \<Rightarrow> Exit 1)
      | _ \<Rightarrow> Exit 1)"

section \<open>Properties\<close>

lemma join_all_eq:
  "join_all me ts = (if \<exists>t \<in> set ts. me = Some t then Raised (StdException ''join'') else Ok [])"
  by (induction ts) auto

text \<open>
  after \<open>run\<close> has started \<open>n\<close> workers, \<open>stop\<close> from any other thread joins all of them, closes the
  acceptor and stops the event loop, so that the destructor, which calls \<open>stop\<close> again, has nothing to
  do; \<open>stop\<close> on one of the workers, where the signal may be delivered, throws and leaves every thread
  joinable.
\<close>

theorem server_shutdown:
  assumes "new_server True n = Ok s" and "0 \<le> n" and "run_start s = (r, s1)" and "stop me s1 = (r2, s2)"
  shows "r = Ok () \<and> length (se_threads s1) = nat n \<and> se_accepting s1 \<and>
    (if \<exists>t < nat n. me = Some t
     then r2 = Raised (StdException ''join'') \<and> se_threads s2 = se_threads s1
     else r2 = Ok () \<and> se_threads s2 = [] \<and> \<not> se_acceptor s2 \<and> se_ioc_stopped s2 \<and> \<not> se_running s2 \<and>
          stop None s2 = (Ok (), s2))"
  using assms
  by (auto simp: new_server_def run_start_def doAccept_def stop_def join_all_eq Let_def split: if_splits)

theorem server_shutdown_witness:
  "\<exists>s s1 s2. new_server True 4 = Ok s \<and> run_start s = (Ok (), s1) \<and> stop None s1 = (Ok (), s2) \<and>
     se_threads s2 = []"
proof -
  obtain s where s: "new_server True 4 = Ok s" by (simp add: new_server_def)
  obtain r s1 where s1: "run_start s = (r, s1)" by fastforce
  obtain r2 s2 where s2: "stop None s1 = (r2, s2)" by fastforce
  from server_shutdown [OF s _ s1 s2] s s1 s2 show ?thesis by auto
qed

lemma sweep_loop_inv: "codes_inv m \<Longrightarrow> sweep_loop ts m = (n, m') \<Longrightarrow> codes_inv m' \<and> n + length m' = length m"
proof (induction ts m arbitrary: n m' rule: sweep_loop.induct)
  case (2 now running rest m)
  obtain k m1 where c: "cleanupExpiredCodes now m = (k, m1)" by fastforce
  have m1: "codes_inv m1" using codes.invar_sweep [OF "2.prems"(1), of now] c by simp
  have len: "k + length m1 = length m"
    using c sum_length_filter_compl [of "\<lambda>x. vi_expire (snd x) < now" m]
    by (auto simp: cleanupExpiredCodes_def cleanup_loop_eq)
  obtain k2 m2 where r: "sweep_loop rest m1 = (k2, m2)" by fastforce
  show ?case
    using "2.prems"(2) "2.IH" [OF c [symmetric] _ m1 r] c r m1 len by (auto split: if_splits)
qed simp

text \<open>
  the sweeps of the main thread only remove what no request could use: at the time of the last
  sweep or later, \<open>verifyCode\<close> has the same answers as if no sweep had run, provided the clock did not
  go back between sweeps; every entry left has not expired at the last sweep; and the count is the
  number of entries removed.
\<close>

theorem sweep_loop_invisible:
  assumes "codes_inv m" and "sweep_loop ts m = (n, m')" and "\<forall>(t, _) \<in> set ts. t \<le> now"
  shows "(verifyCode m' e a c now \<longleftrightarrow> verifyCode m e a c now) \<and> codes_inv m' \<and> n + length m' = length m"
  using assms
proof (induction ts m arbitrary: n m' rule: sweep_loop.induct)
  case (2 t running rest m)
  obtain k m1 where c1: "cleanupExpiredCodes t m = (k, m1)" by fastforce
  have m1: "codes_inv m1" using codes.invar_sweep [OF "2.prems"(1), of t] c1 by simp
  have same: "verifyCode m1 e a c now \<longleftrightarrow> verifyCode m e a c now"
    using codes.check_sweep [OF "2.prems"(1), of t now e a c] c1 "2.prems"(3) by simp
  obtain k2 m2 where r: "sweep_loop rest m1 = (k2, m2)" by fastforce
  have "verifyCode m' e a c now \<longleftrightarrow> verifyCode m e a c now"
    using "2.prems"(2,3) "2.IH" [OF c1 [symmetric] _ m1 r] c1 r same by (auto split: if_splits)
  with sweep_loop_inv [OF "2.prems"(1,2)] show ?case by simp
qed simp

theorem sweep_loop_invisible_witness:
  "\<exists>n m'. sweep_loop [(5, True), (8, False)] [(''a'', demo_info 3), (''b'', demo_info 9)] = (n, m') \<and>
     n + length m' = 2"
proof -
  obtain n m' where r: "sweep_loop [(5, True), (8, False)] [(''a'', demo_info 3), (''b'', demo_info 9)] = (n, m')"
    by fastforce
  from sweep_loop_invisible [OF _ r, of 9] r show ?thesis by simp
qed

lemma new_pool_empty: "new_pool dr n = [] \<longleftrightarrow> n = 0 \<or> \<not> dr_connect dr 0"
  by (cases n) (simp_all add: new_pool_def)

text \<open>
  C40: the program starts exactly when the configuration is accepted, the address can be listened on and
  the number of threads is not negative; otherwise its exit status is 1. It then runs with the
  configuration of the file, as many workers as it says, and a pool that is empty when the first
  connection to the database failed: a database that cannot be reached does not stop the start.
\<close>

theorem program_start:
  "case program_main read file dr open_ok mk_env wrap of
     Exit n \<Rightarrow> n = 1 \<and> \<not> (config_accepted read file \<and> open_ok \<and>
       0 \<le> sv_threads (m_server (snd (loadFromFile read file default_config))))
   | Running c p s r \<Rightarrow> config_accepted read file \<and> open_ok \<and>
       c = snd (loadFromFile read file default_config) \<and> 0 \<le> sv_threads (m_server c) \<and>
       length (se_threads s) = nat (sv_threads (m_server c)) \<and> se_accepting s \<and>
       (p \<noteq> [] \<longleftrightarrow> db_pool_size (m_db c) \<noteq> 0 \<and> dr_connect dr 0)"
proof (cases "config_accepted read file")
  case False
  then obtain c where "loadFromFile read file default_config = (Ok False, c)"
    using loadFromFile_not_ok [of read "file" default_config] by (metis prod.collapse)
  with False show ?thesis by (simp add: program_main_def)
next
  case True
  then obtain t j where "file = Some t" "read t = Some j" "sections_ok j"
    by (auto simp: config_accepted_def split: option.splits)
  then have load: "loadFromFile read file default_config = (Ok True, config_of j (m_verify default_config))"
    by (simp add: loadFromFile_ok)
  then show ?thesis
    using True
    by (cases "open_ok \<and> 0 \<le> sv_threads (m_server (config_of j (m_verify default_config)))")
      (auto simp: program_main_def new_server_def run_start_def doAccept_def Let_def new_pool_empty
        unat_eq_0)
qed

end
