(* ===== verification/Tasks.thy ===== *)
theory Tasks
  imports Dao
begin

text \<open>
  The operations as threads run them. A worker executes a data access operation in several atomic
  actions (a connection is taken under the lock of the pool, every statement is one call of the
  server, the connection is given back), and other workers act in between. A task is an operation
  cut into these actions; a schedule is the order in which the threads act.
\<close>

section \<open>Tasks\<close>

datatype ('s, 'a) task = Done "'a outcome" | Atom "'s \<Rightarrow> ('s, 'a) task \<times> 's"

text \<open>A task that no other thread interrupts\<close>

primrec run_task :: "('s, 'a) task \<Rightarrow> ('s, 'a) prog" where
  "run_task (Done r) = (\<lambda>s. (r, s))"
| "run_task (Atom f) = (\<lambda>s. case map_prod run_task (\<lambda>t. t) (f s) of (m, t) \<Rightarrow> m t)"

text \<open>One task after another; an exception ends the first, not the thread: its caller catches it.\<close>

primrec then_task :: "('s, unit) task \<Rightarrow> ('s, unit) task \<Rightarrow> ('s, unit) task" where
  "then_task (Done r) g = (case r of Undefined \<Rightarrow> Done Undefined | _ \<Rightarrow> g)"
| "then_task (Atom f) g = Atom (\<lambda>s. map_prod (\<lambda>t. then_task t g) (\<lambda>t. t) (f s))"

lemma run_then_task:
  "run_task (then_task t g) s =
   (case run_task t s of (Undefined, s') \<Rightarrow> (Undefined, s') | (_, s') \<Rightarrow> run_task g s')"
proof (induction t arbitrary: s)
  case (Done r)
  then show ?case by (cases r) simp_all
next
  case (Atom f)
  obtain t s' where f: "f s = (t, s')" by fastforce
  then have "(t, s') \<in> range f" by (metis rangeI)
  from Atom.IH [OF this, of t s'] f show ?case by simp
qed

section \<open>Data access operations as tasks\<close>

text \<open>One statement on the connection \<open>c\<close>, and what follows it\<close>

definition stmt :: "server \<Rightarrow> conn \<Rightarrow> 'x stmt \<Rightarrow> ('x \<Rightarrow> (dao_state, 'a) task) \<Rightarrow> (dao_state, 'a) task" where
  "stmt srv c st k = Atom (\<lambda>s.
     case jdbc srv c st s of
       (Ok x, s') \<Rightarrow> (k x, s')
     | (Raised e, s') \<Rightarrow> (Done (Raised e), s')
     | (Undefined, s') \<Rightarrow> (Done Undefined, s'))"

lemma run_stmt: "run_task (stmt srv c st k) = and_then (jdbc srv c st) (\<lambda>x. run_task (k x))"
  by (rule ext) (auto simp: stmt_def and_then_def split: prod.splits outcome.splits)

text \<open>
  The rest of an operation under its guard: when the body ends, by \<open>return\<close> or by an exception, the
  guard gives the connection back, then an \<open>SQLException\<close> is caught.
\<close>

primrec guarded :: "conn \<Rightarrow> 'a \<Rightarrow> (dao_state, 'a) task \<Rightarrow> (dao_state, 'a) task" where
  "guarded c failed (Done r) = Atom (\<lambda>s.
     (Done (if r = Raised SqlException then Ok failed else r),
      s\<lparr>ds_pool := releaseConnection c (ds_pool s)\<rparr>))"
| "guarded c failed (Atom f) = Atom (\<lambda>s. map_prod (guarded c failed) (\<lambda>t. t) (f s))"

text \<open>
  A whole operation. The first action is the end of \<open>getConnection\<close>: a thread that waits for a
  connection does not act, and \<open>nullptr\<close> is what it finds when it acts on an empty pool, its time
  having run out.
\<close>

definition dao_task :: "server \<Rightarrow> 'a \<Rightarrow> (conn \<Rightarrow> (dao_state, 'a) task) \<Rightarrow> (dao_state, 'a) task" where
  "dao_task srv failed body = Atom (\<lambda>s.
     let k = ds_tick s in
     case getConnection (my_driver srv) k (ds_pool s) of
       (None, p) \<Rightarrow> (Done Undefined, s\<lparr>ds_pool := p, ds_tick := Suc k\<rparr>)
     | (Some c, p) \<Rightarrow> (guarded c failed (body c), s\<lparr>ds_pool := p, ds_tick := Suc k\<rparr>))"

lemma run_guarded:
  "run_task (guarded c failed t) s =
   (case run_task t s of
      (r, s') \<Rightarrow> (if r = Raised SqlException then Ok failed else r,
                 s'\<lparr>ds_pool := releaseConnection c (ds_pool s')\<rparr>))"
proof (induction t arbitrary: s)
  case (Atom f)
  obtain t s' where f: "f s = (t, s')" by fastforce
  then have "(t, s') \<in> range f" by (metis rangeI)
  from Atom.IH [OF this, of t s'] f show ?case by simp
qed simp

lemma run_dao_task: "run_task (dao_task srv failed body) = dao_call srv failed (\<lambda>c. run_task (body c))"
  by (rule ext)
    (auto simp: dao_task_def dao_call_def with_connection_def catch_sql_def catch_exn_def ret_def
      raise_def run_guarded Let_def split: prod.splits option.splits outcome.splits)

section \<open>Schedules\<close>

text \<open>
  The threads and the state they share. A schedule names the thread that acts next; one that has
  ended, or that does not exist, does nothing.
\<close>

type_synonym ('s, 'a) threads = "('s, 'a) task list \<times> 's"

fun act :: "nat \<Rightarrow> ('s, 'a) threads \<Rightarrow> ('s, 'a) threads" where
  "act i (ts, s) =
     (if i < length ts
      then (case ts ! i of
              Done r \<Rightarrow> (ts, s)
            | Atom f \<Rightarrow> (case f s of (t, s') \<Rightarrow> (ts[i := t], s')))
      else (ts, s))"

definition run_schedule :: "nat list \<Rightarrow> ('s, 'a) threads \<Rightarrow> ('s, 'a) threads" where
  "run_schedule is c = fold act is c"

lemma run_schedule_Nil [simp]: "run_schedule [] c = c"
  by (simp add: run_schedule_def)

lemma run_schedule_Cons [simp]: "run_schedule (i # is) c = run_schedule is (act i c)"
  by (simp add: run_schedule_def)

lemma act_cases:
  obtains (idle) "act i (ts, s) = (ts, s)"
  | (acted) f t s' where "i < length ts" "ts ! i = Atom f" "f s = (t, s')" "act i (ts, s) = (ts[i := t], s')"
proof (cases "i < length ts \<and> (\<exists>f. ts ! i = Atom f)")
  case True
  then obtain f where f: "i < length ts" "ts ! i = Atom f" by blast
  obtain t s' where "f s = (t, s')" by fastforce
  with f acted show ?thesis by simp
next
  case False
  then show ?thesis by (intro idle) (auto split: task.splits)
qed

lemma length_act [simp]: "length (fst (act i c)) = length (fst c)"
  by (cases c; cases rule: act_cases [of i "fst c" "snd c"]) simp_all

lemma length_run_schedule [simp]: "length (fst (run_schedule is c)) = length (fst c)"
  by (induction "is" arbitrary: c) simp_all

text \<open>Invariants of a schedule\<close>

lemma run_schedule_inv:
  assumes "P ts s" and "run_schedule is (ts, s) = (ts', s')"
    and "\<And>ts s i f t s'. P ts s \<Longrightarrow> i < length ts \<Longrightarrow> ts ! i = Atom f \<Longrightarrow> f s = (t, s') \<Longrightarrow> P (ts[i := t]) s'"
  shows "P ts' s'"
  using assms(1,2)
proof (induction "is" arbitrary: ts s)
  case (Cons i "is")
  show ?case
  proof (cases rule: act_cases [of i ts s])
    case idle
    then show ?thesis using Cons by (simp del: act.simps)
  next
    case (acted f t u)
    then show ?thesis using Cons.IH [OF assms(3) [OF Cons.prems(1) acted(1-3)]] Cons.prems(2)
      by (simp del: act.simps)
  qed
qed simp

section \<open>Tasks that end\<close>

text \<open>\<open>ends_in n t\<close>: after \<open>n\<close> actions of its thread the task is done, whatever state the others make.\<close>

inductive ends_in :: "nat \<Rightarrow> ('s, 'a) task \<Rightarrow> bool" where
  Done: "ends_in n (Done r)"
| Atom: "(\<And>s. ends_in n (fst (f s))) \<Longrightarrow> ends_in (Suc n) (Atom f)"

inductive_cases ends_in_AtomE: "ends_in n (Atom f)"

inductive_simps ends_in_Done [simp]: "ends_in n (Done r)"
inductive_simps ends_in_0_Atom [simp]: "ends_in 0 (Atom f)"
inductive_simps ends_in_Suc_Atom: "ends_in (Suc n) (Atom f)"

lemma ends_in_mono: "ends_in m t \<Longrightarrow> m \<le> n \<Longrightarrow> ends_in n t"
proof (induction arbitrary: n rule: ends_in.induct)
  case (Atom m f)
  then obtain k where "n = Suc k" "m \<le> k" by (cases n) auto
  with Atom show ?case by (auto intro: ends_in.Atom)
qed simp

lemma ends_in_stmt: "(\<And>x. ends_in n (k x)) \<Longrightarrow> ends_in (Suc n) (stmt srv c st k)"
  by (auto simp: stmt_def split: prod.splits outcome.splits intro!: ends_in.Atom)

lemma ends_in_guarded: "ends_in n t \<Longrightarrow> ends_in (Suc n) (guarded c failed t)"
proof (induction rule: ends_in.induct)
  case (Done n r)
  show ?case by (simp add: ends_in_Suc_Atom)
next
  case (Atom n f)
  then show ?case by (simp add: ends_in_Suc_Atom)
qed

lemma ends_in_dao_task: "(\<And>c. ends_in n (body c)) \<Longrightarrow> ends_in (n + 2) (dao_task srv failed body)"
  by (auto simp: dao_task_def Let_def ends_in_Suc_Atom ends_in_guarded split: prod.splits option.splits)

lemma ends_in_then_task: "ends_in m t \<Longrightarrow> ends_in n g \<Longrightarrow> ends_in (m + n) (then_task t g)"
proof (induction rule: ends_in.induct)
  case (Done m r)
  then show ?case by (auto split: outcome.splits intro: ends_in_mono)
next
  case (Atom m f)
  then show ?case by (simp add: ends_in_Suc_Atom)
qed

lemma act_other: "i \<noteq> j \<Longrightarrow> fst (act i c) ! j = fst c ! j"
  by (cases c; cases rule: act_cases [of i "fst c" "snd c"]) simp_all

text \<open>A thread that acts often enough is done, however the others are scheduled.\<close>

lemma run_schedule_ends:
  assumes "i < length ts" and "ends_in n (ts ! i)" and "n \<le> count_list is i"
    and "run_schedule is (ts, s) = (ts', s')"
  shows "\<exists>r. ts' ! i = Done r"
  using assms
proof (induction "is" arbitrary: ts s n)
  case Nil
  then show ?case by (cases "ts ! i") auto
next
  case (Cons j "is")
  obtain ts1 s1 where step: "act j (ts, s) = (ts1, s1)" by fastforce
  have len: "i < length ts1" using length_act [of j "(ts, s)"] step Cons.prems(1) by simp
  have rest: "run_schedule is (ts1, s1) = (ts', s')" using Cons.prems(4) step by simp
  show ?case
  proof (cases "j = i")
    case False
    then have "ts1 ! i = ts ! i" using act_other [of j i "(ts, s)"] step by simp
    with Cons.IH [OF len _ _ rest, of n] Cons.prems(2,3) False show ?thesis by simp
  next
    case True
    show ?thesis
    proof (cases "ts ! i")
      case (Done r)
      then have "ts1 ! i = Done r" using step True by (auto split: if_splits)
      then show ?thesis using Cons.IH [OF len _ _ rest, of 0] by simp
    next
      case (Atom f)
      then obtain m where m: "n = Suc m" using Cons.prems(2) by (cases n) auto
      have "ts1 ! i = fst (f s)" using step True Atom Cons.prems(1) by (auto split: prod.splits)
      moreover have "ends_in m (fst (f s))" using Cons.prems(2) m Atom by (simp add: ends_in_Suc_Atom)
      ultimately show ?thesis using Cons.IH [OF len _ _ rest, of m] Cons.prems(3) m True by simp
    qed
  qed
qed

text \<open>A thread that acts while the others wait\<close>

lemma run_schedule_append: "run_schedule (is @ js) c = run_schedule js (run_schedule is c)"
  by (simp add: run_schedule_def)

lemma run_schedule_alone:
  assumes "i < length ts" and "ends_in n (ts ! i)" and "run_task (ts ! i) s = (r, s')"
  shows "run_schedule (replicate n i) (ts, s) = (ts[i := Done r], s')"
  using assms
proof (induction n arbitrary: ts s)
  case 0
  then show ?case by (cases "ts ! i") (auto, metis list_update_id)
next
  case (Suc n)
  show ?case
  proof (cases "ts ! i")
    case (Done q)
    then show ?thesis using Suc.IH [of ts s] Suc.prems by simp
  next
    case (Atom f)
    obtain t u where f: "f s = (t, u)" by fastforce
    with Suc.prems Atom have "ends_in n t" "run_task t u = (r, s')" by (auto simp: ends_in_Suc_Atom) (metis fst_conv)
    then show ?thesis using Suc.IH [of "ts[i := t]" u] Suc.prems Atom f by simp
  qed
qed

lemma run_schedule_Done:
  assumes "run_schedule is (ts, s) = (ts', s')" and "i < length ts" and "ts ! i = Done r"
  shows "ts' ! i = Done r"
proof -
  have "i < length ts' \<and> ts' ! i = Done r"
    by (rule run_schedule_inv [where P = "\<lambda>ts s. i < length ts \<and> ts ! i = Done r", OF _ assms(1)])
      (use assms(2,3) in \<open>auto simp: nth_list_update\<close>)
  then show ?thesis by blast
qed

section \<open>Moments\<close>

text \<open>
  A moment of a run: thread \<open>i\<close> acts in a state of which \<open>P\<close> holds.
\<close>

definition at_moment :: "nat list \<Rightarrow> ('s, 'a) threads \<Rightarrow> nat \<Rightarrow> ('s \<Rightarrow> bool) \<Rightarrow> bool" where
  "at_moment is c i P \<longleftrightarrow> (\<exists>js ks us u. is = js @ i # ks \<and> run_schedule js c = (us, u) \<and> P u)"

lemma at_moment_append: "at_moment js c i P \<Longrightarrow> at_moment (js @ ks) c i P"
  unfolding at_moment_def by (metis append.assoc append_Cons)

lemma at_moment_snoc: "at_moment is c i P \<Longrightarrow> at_moment (is @ [k]) c i P"
  unfolding at_moment_def by (metis append.assoc append_Cons)

lemma at_moment_mono: "at_moment is c i P \<Longrightarrow> (\<And>u. P u \<Longrightarrow> Q u) \<Longrightarrow> at_moment is c i Q"
  unfolding at_moment_def by blast

lemma at_moment_logic:
  "at_moment is c i (\<lambda>u. P u \<or> Q u) \<longleftrightarrow> at_moment is c i P \<or> at_moment is c i Q"
  "at_moment is c i (\<lambda>u. b \<and> P u) \<longleftrightarrow> b \<and> at_moment is c i P"
  unfolding at_moment_def by blast+

text \<open>An action of a run: thread \<open>i\<close> acts, and \<open>P\<close> holds of the states before and after it.\<close>

definition at_action :: "nat list \<Rightarrow> ('s, 'a) threads \<Rightarrow> nat \<Rightarrow> ('s \<Rightarrow> 's \<Rightarrow> bool) \<Rightarrow> bool" where
  "at_action is c i P \<longleftrightarrow> (\<exists>js ks us u vs v. is = js @ i # ks \<and> run_schedule js c = (us, u) \<and>
     act i (us, u) = (vs, v) \<and> P u v)"

lemma at_action_append: "at_action js c i P \<Longrightarrow> at_action (js @ ks) c i P"
  unfolding at_action_def by (metis append.assoc append_Cons)

end
