(* ===== verification/Threads.thy ===== *)
theory Threads
  imports Tasks
begin

text \<open>
  Threads that share a pool of connections: the account of the connections, a rely-guarantee contract
  for threads under any schedule, and its instance for threads that use one connection at a time.
\<close>

section \<open>Threads that own connections\<close>

text \<open>
  The account of the connections: each is in the pool or held by one thread. \<open>g\<close> gives every thread
  the facts that the proof tracks of it, \<open>own\<close> the connection among them.
\<close>

definition held :: "nat option \<Rightarrow> nat multiset" where
  "held h = (case h of None \<Rightarrow> {#} | Some i \<Rightarrow> {#i#})"

definition account :: "nat \<Rightarrow> (nat \<Rightarrow> nat option) \<Rightarrow> conn list \<Rightarrow> nat multiset" where
  "account n h p = mset (pool_ids p) + (\<Sum>i<n. held (h i))"

text \<open>What one action does to the pool: nothing, a take from its front, a give to its end\<close>

definition moves :: "nat option \<Rightarrow> nat option \<Rightarrow> nat list \<Rightarrow> nat list \<Rightarrow> bool" where
  "moves h h' p p' \<longleftrightarrow> h' = h \<and> p' = p \<or> (\<exists>i. h = None \<and> h' = Some i \<and> p = i # p') \<or>
     (\<exists>i. h = Some i \<and> h' = None \<and> p' = p @ [i])"

lemma held_simps [simp]: "held None = {#}" "held (Some i) = {#i#}"
  by (simp_all add: held_def)

lemma moves_held: "moves h h' p p' \<Longrightarrow> mset p' + held h' = mset p + held h"
  by (auto simp: moves_def)

lemma account_upd:
  assumes "i < n" and "moves (h i) h' (pool_ids p) (pool_ids p')"
  shows "account n (h(i := h')) p' = account n h p"
proof -
  have "(\<Sum>j<n. held ((h(i := h')) j)) = held h' + (\<Sum>j\<in>{..<n} - {i}. held (h j))"
    using assms(1) by (simp add: sum.remove [of _ i])
  moreover have "(\<Sum>j<n. held (h j)) = held (h i) + (\<Sum>j\<in>{..<n} - {i}. held (h j))"
    using assms(1) by (simp add: sum.remove [of _ i])
  ultimately show ?thesis
    using moves_held [OF assms(2)] by (simp add: account_def add.assoc [symmetric] del: mset_map)
qed

lemma account_distinct:
  assumes "\<And>x. count (account n h p) x \<le> 1" and "i < n" and "j < n" and "i \<noteq> j" and "h i = Some x"
  shows "h j \<noteq> Some x"
proof
  assume j: "h j = Some x"
  have "count (\<Sum>k\<in>{i, j}. held (h k)) x \<le> count (\<Sum>k<n. held (h k)) x"
    using assms(2,3) by (simp add: count_sum) (intro sum_mono2; auto)
  then have "2 \<le> count (account n h p) x"
    using assms(4,5) j by (simp add: account_def)
  with assms(1) [of x] show False by simp
qed

text \<open>Thread \<open>i\<close> is among those that use connections: when it has none, the others do not have more.\<close>

lemma account_starved:
  assumes "i < n" and "borrows i" and "h i = None" and "p = []" and "\<And>j. j < n \<Longrightarrow> h j \<noteq> None \<Longrightarrow> borrows j"
  shows "size (account n h p) < card {j. j < n \<and> borrows j}"
proof -
  let ?A = "{j. j < n \<and> borrows j}"
  have "size (\<Sum>j<n. held (h j)) = (\<Sum>j<n. size (held (h j)))"
    by (induction n) simp_all
  also have "\<dots> = (\<Sum>j\<in>?A - {i}. size (held (h j)))"
    using assms(3,5) by (intro sum.mono_neutral_right) (auto simp: held_def split: option.splits)
  also have "\<dots> \<le> (\<Sum>j\<in>?A - {i}. 1)"
    by (rule sum_mono) (simp add: held_def split: option.splits)
  also have "\<dots> = card (?A - {i})" by simp
  also have "\<dots> < card ?A" using assms(1,2) by (intro card_Diff1_less) auto
  finally show ?thesis using assms(4) by (simp add: account_def)
qed

lemma distinct_count_le: "distinct xs \<longleftrightarrow> (\<forall>x. count (mset xs) x \<le> 1)"
proof
  assume *: "\<forall>x. count (mset xs) x \<le> 1"
  have "count (mset xs) x = (if x \<in> set xs then 1 else 0)" for x
    using * [rule_format, of x] by (cases "x \<in> set xs") (auto simp: le_Suc_eq count_mset_0_iff)
  then show "distinct xs" by (simp add: distinct_count_atmost_1)
qed (simp add: distinct_count_atmost_1)

text \<open>
  The contract of the threads: an action keeps the assertion \<open>thread\<close> of its own thread, the
  invariant \<open>inv\<close> and what holds between two threads (\<open>compat\<close>), takes or gives at most one
  connection, and stays within \<open>guar\<close>; or it crashes, as it finds no connection in the pool. A thread
  is doomed (the first argument of \<open>thread\<close>) only if it acted at a moment of \<open>danger\<close>; what becomes of
  it then is open, but it still keeps its account. The assertion of a thread is stable under what
  threads with other connections may do. The threads that \<open>borrows\<close> leaves out take no connection, and
  those that \<open>points\<close> leaves out need not fear the danger.
\<close>

locale connection_threads =
  fixes thread :: "bool \<Rightarrow> nat \<Rightarrow> 'g \<Rightarrow> ('s, 'a) task \<Rightarrow> 's \<Rightarrow> bool"
    and own :: "'g \<Rightarrow> nat option"
    and pool :: "'s \<Rightarrow> conn list"
    and inv :: "'s \<Rightarrow> bool"
    and guar :: "nat option \<Rightarrow> 's \<Rightarrow> 's \<Rightarrow> bool"
    and compat :: "'g \<Rightarrow> 'g \<Rightarrow> bool"
    and danger :: "'s \<Rightarrow> bool"
    and borrows :: "nat \<Rightarrow> bool"
    and points :: "nat \<Rightarrow> bool"
  assumes action: "thread b i g (Atom f) s \<Longrightarrow> inv s \<Longrightarrow> f s = (t, s') \<Longrightarrow>
      inv s' \<and> guar (own g) s s' \<and>
      ((\<exists>b' g'. thread b' i g' t s' \<and> (b' \<longrightarrow> b \<or> points i \<and> danger s) \<and>
          moves (own g) (own g') (pool_ids (pool s)) (pool_ids (pool s')) \<and>
          (\<forall>a j q u. j \<noteq> i \<longrightarrow> thread a j q u s \<longrightarrow> compat g q \<longrightarrow> compat g' q)) \<or>
       own g = None \<and> pool s' = pool s \<and> pool s = [] \<and> borrows i \<and> t = Done Undefined)"
    and stable: "thread b j q u s \<Longrightarrow> guar h s s' \<Longrightarrow> own q = None \<or> own q \<noteq> h \<Longrightarrow> inv s' \<Longrightarrow> thread b j q u s'"
    and compat_sym: "compat g q \<Longrightarrow> compat q g"
    and owner: "thread b i g t s \<Longrightarrow> own g \<noteq> None \<Longrightarrow> borrows i"
begin

text \<open>\<open>E\<close>: the threads that acted at a moment of danger\<close>

definition thread_or_crash :: "nat \<Rightarrow> nat \<Rightarrow> nat multiset \<Rightarrow> nat set \<Rightarrow> 'g \<Rightarrow> ('s, 'a) task \<Rightarrow> 's \<Rightarrow> bool" where
  "thread_or_crash n i M E g t s \<longleftrightarrow> (\<exists>b. thread b i g t s \<and> (b \<longrightarrow> points i \<and> i \<in> E)) \<or>
     t = Done Undefined \<and> own g = None \<and> size M < card {j. j < n \<and> borrows j}"

definition together :: "nat multiset \<Rightarrow> nat set \<Rightarrow> ('s, 'a) task list \<Rightarrow> 's \<Rightarrow> bool" where
  "together M E ts s \<longleftrightarrow> inv s \<and> (\<exists>g. account (length ts) (own \<circ> g) (pool s) = M \<and>
     (\<forall>i < length ts. thread_or_crash (length ts) i M E (g i) (ts ! i) s) \<and>
     (\<forall>i < length ts. \<forall>j < length ts. i \<noteq> j \<longrightarrow> ts ! i \<noteq> Done Undefined \<longrightarrow> ts ! j \<noteq> Done Undefined \<longrightarrow>
        compat (g i) (g j)))"

lemma thread_or_crash_mono: "thread_or_crash n i M E g t s \<Longrightarrow> E \<subseteq> E' \<Longrightarrow> thread_or_crash n i M E' g t s"
  unfolding thread_or_crash_def by blast

lemma together_mono:
  assumes "together M E ts s" and "E \<subseteq> E'"
  shows "together M E' ts s"
proof -
  obtain g where "inv s" "account (length ts) (own \<circ> g) (pool s) = M"
    "\<forall>i < length ts. thread_or_crash (length ts) i M E (g i) (ts ! i) s"
    "\<forall>i < length ts. \<forall>j < length ts. i \<noteq> j \<longrightarrow> ts ! i \<noteq> Done Undefined \<longrightarrow> ts ! j \<noteq> Done Undefined \<longrightarrow>
       compat (g i) (g j)"
    using assms(1) unfolding together_def by blast
  then show ?thesis
    unfolding together_def using thread_or_crash_mono [OF _ assms(2)] by (intro conjI exI [of _ g]) simp_all
qed

lemma together_step:
  assumes T: "together M E ts s" and M: "\<And>x. count M x \<le> 1" and E: "E \<subseteq> E'" "danger s \<Longrightarrow> i \<in> E'"
    and i: "i < length ts" "ts ! i = Atom f" "f s = (t, s')"
  shows "together M E' (ts[i := t]) s'"
proof -
  let ?n = "length ts"
  obtain g where g: "inv s" "account ?n (own \<circ> g) (pool s) = M"
    "\<And>j. j < ?n \<Longrightarrow> thread_or_crash ?n j M E' (g j) (ts ! j) s"
    "\<And>j k. j < ?n \<Longrightarrow> k < ?n \<Longrightarrow> j \<noteq> k \<Longrightarrow> ts ! j \<noteq> Done Undefined \<Longrightarrow> ts ! k \<noteq> Done Undefined \<Longrightarrow>
      compat (g j) (g k)"
    using together_mono [OF T E(1)] unfolding together_def by blast
  obtain b where th: "thread b i (g i) (Atom f) s" "b \<longrightarrow> points i \<and> i \<in> E'"
    using g(3) [OF i(1)] i(2) by (auto simp: thread_or_crash_def)
  note act = action [OF th(1) g(1) i(3)]
  then have inv': "inv s'" and guar: "guar (own (g i)) s s'" by simp_all
  have others: "thread_or_crash ?n j M E' (g j) (ts ! j) s'" if "j < ?n" "j \<noteq> i" for j
  proof -
    have "own (g j) = None \<or> own (g j) \<noteq> own (g i)"
      using account_distinct [of ?n "own \<circ> g" "pool s" j i] M g(2) i(1) that by (cases "own (g j)") auto
    with g(3) [OF that(1)] guar inv' show ?thesis by (auto simp: thread_or_crash_def intro: stable)
  qed
  from act consider (crash) "own (g i) = None" "pool s' = pool s" "pool s = []" "borrows i" "t = Done Undefined"
    | (acted) b' g' where "thread b' i g' t s'" "b' \<longrightarrow> b \<or> points i \<and> danger s"
      "moves (own (g i)) (own g') (pool_ids (pool s)) (pool_ids (pool s'))"
      "\<forall>a j q u. j \<noteq> i \<longrightarrow> thread a j q u s \<longrightarrow> compat (g i) q \<longrightarrow> compat g' q"
    by (elim conjE disjE exE) simp_all
  then show ?thesis
  proof cases
    case crash
    have "borrows j" if "j < ?n" "own (g j) \<noteq> None" for j
      using owner g(3) [OF that(1)] that(2) by (auto simp: thread_or_crash_def)
    then have "size M < card {j. j < ?n \<and> borrows j}"
      using account_starved [of i ?n borrows "own \<circ> g" "pool s"] i(1) crash g(2) by auto
    moreover have "account ?n (own \<circ> g) (pool s') = M" using g(2) crash by simp
    ultimately show ?thesis
      using crash inv' others g(4) i(1) unfolding together_def
      by (intro conjI exI [of _ g]) (auto simp: nth_list_update thread_or_crash_def)
  next
    case (acted b' g')
    let ?g = "g(i := g')" and ?ts = "ts[i := t]"
    have acc: "account ?n (own \<circ> ?g) (pool s') = M"
      using account_upd [OF i(1), of "own \<circ> g" "own g'" "pool s" "pool s'"] acted(3) g(2)
      by (simp add: fun_upd_comp)
    have new: "compat g' (g j)" if "j < ?n" "j \<noteq> i" "ts ! j \<noteq> Done Undefined" for j
      using acted(4) g(3) [OF that(1)] g(4) [OF i(1) that(1)] that i(2)
      by (auto simp: thread_or_crash_def)
    have all: "thread_or_crash ?n j M E' (?g j) (?ts ! j) s'" if "j < ?n" for j
      using others [OF that] acted(1,2) th(2) E(2) that i(1)
      by (cases "j = i") (auto simp: thread_or_crash_def)
    have pairs: "compat (?g j) (?g k)"
      if "j < ?n" "k < ?n" "j \<noteq> k" "?ts ! j \<noteq> Done Undefined" "?ts ! k \<noteq> Done Undefined" for j k
    proof -
      consider "j = i" | "k = i" | "j \<noteq> i" "k \<noteq> i" by blast
      then show ?thesis
        using that new [of j] new [of k] g(4) [of j k] compat_sym by cases (simp_all add: nth_list_update)
    qed
    show ?thesis
      unfolding together_def length_list_update using inv' acc all pairs by blast
  qed
qed

text \<open>Threads that start without a connection, under any schedule\<close>

lemma together_run:
  assumes "run_schedule is (ts, s) = (ts', s')" and "distinct (pool_ids (pool s))" and "inv s"
    and "\<And>i. i < length ts \<Longrightarrow> thread False i g0 (ts ! i) s" and "own g0 = None" and "compat g0 g0"
  shows "length ts' = length ts \<and>
    together (mset (pool_ids (pool s))) {i. at_moment is (ts, s) i danger} ts' s'"
proof
  let ?M = "mset (pool_ids (pool s))" and ?E = "\<lambda>is. {i. at_moment is (ts, s) i danger}"
  show "length ts' = length ts" using length_run_schedule [of "is" "(ts, s)"] assms(1) by simp
  have M: "\<And>x. count ?M x \<le> 1" using assms(2) by (simp add: distinct_count_le)
  show "together ?M (?E is) ts' s'"
    using assms(1)
  proof (induction "is" arbitrary: ts' s' rule: rev_induct)
    case Nil
    then show ?case
      using assms(3-6) unfolding together_def thread_or_crash_def
      by (intro conjI exI [of _ "\<lambda>_. g0"]) (auto simp: account_def)
  next
    case (snoc k "is")
    obtain us u where run: "run_schedule is (ts, s) = (us, u)" by fastforce
    have last: "act k (us, u) = (ts', s')" using snoc.prems run by (simp add: run_schedule_append del: act.simps)
    note T = snoc.IH [OF run]
    have sub: "?E is \<subseteq> ?E (is @ [k])" using at_moment_snoc by blast
    show ?case
    proof (cases rule: act_cases [of k us u])
      case idle
      then show ?thesis using last together_mono [OF T sub] by simp
    next
      case (acted f t v)
      have "k \<in> ?E (is @ [k])" if "danger u" using run that unfolding at_moment_def by blast
      from together_step [OF T M sub this acted(1-3)] acted(4) last show ?thesis by simp
    qed
  qed
qed

end

section \<open>Threads that use one connection at a time\<close>

text \<open>
  A thread that holds \<open>h\<close>: each of its actions keeps \<open>I\<close> and takes or gives at most one connection, or
  crashes for want of a connection; at the end it holds none. It ends in undefined behaviour only if it
  is doomed (the first argument), and becomes so only if it may (\<open>c\<close>), by an action in danger (\<open>D\<close>).
\<close>

inductive conn_runs ::
  "('s \<Rightarrow> conn list) \<Rightarrow> ('s \<Rightarrow> bool) \<Rightarrow> ('s \<Rightarrow> bool) \<Rightarrow> bool \<Rightarrow> bool \<Rightarrow> nat option \<Rightarrow>
    ('s, 'a) task \<Rightarrow> bool" for pool I D c where
  Done: "(r = Undefined \<Longrightarrow> b) \<Longrightarrow> conn_runs pool I D c b None (Done r)"
| Act: "(\<And>s. I s \<Longrightarrow> I (snd (f s)) \<and>
      ((\<exists>b' h'. (b' \<longrightarrow> b \<or> c \<and> D s) \<and> moves h h' (pool_ids (pool s)) (pool_ids (pool (snd (f s)))) \<and>
          conn_runs pool I D c b' h' (fst (f s))) \<or>
       h = None \<and> pool (snd (f s)) = pool s \<and> pool s = [] \<and> fst (f s) = Done Undefined)) \<Longrightarrow>
    conn_runs pool I D c b h (Atom f)"

inductive_simps conn_runs_Done [simp]: "conn_runs pool I D c b h (Done r)"
inductive_simps conn_runs_Atom: "conn_runs pool I D c b h (Atom f)"

abbreviation conn_thread ::
  "('s \<Rightarrow> conn list) \<Rightarrow> ('s \<Rightarrow> bool) \<Rightarrow> ('s \<Rightarrow> bool) \<Rightarrow> bool \<Rightarrow> nat option \<Rightarrow> ('s, 'a) task \<Rightarrow> bool" where
  "conn_thread pool I D c \<equiv> conn_runs pool I D c False"

lemma conn_runs_weaken:
  "conn_runs pool I D c b h t \<Longrightarrow> (b \<Longrightarrow> b') \<Longrightarrow> (c \<Longrightarrow> c') \<Longrightarrow> conn_runs pool I D c' b' h t"
proof (induction arbitrary: b' rule: conn_runs.induct)
  case (Act f b h)
  show ?case
  proof (rule conn_runs.Act)
    fix s assume "I s"
    from Act.IH [OF this] Act.prems show "I (snd (f s)) \<and>
      ((\<exists>a h'. (a \<longrightarrow> b' \<or> c' \<and> D s) \<and> moves h h' (pool_ids (pool s)) (pool_ids (pool (snd (f s)))) \<and>
          conn_runs pool I D c' a h' (fst (f s))) \<or>
       h = None \<and> pool (snd (f s)) = pool s \<and> pool s = [] \<and> fst (f s) = Done Undefined)" by blast
  qed
qed auto

lemma conn_thread_doomed: "conn_thread pool I D c h t \<Longrightarrow> conn_runs pool I D c b h t"
  using conn_runs_weaken [of pool I D c False h t b c] by simp

text \<open>An action of a thread that has not met danger: it may end in undefined behaviour there and then.\<close>

lemma conn_thread_Act:
  assumes "\<And>s. I s \<Longrightarrow> I (snd (f s)) \<and>
      ((\<exists>h'. moves h h' (pool_ids (pool s)) (pool_ids (pool (snd (f s)))) \<and> conn_thread pool I D c h' (fst (f s))) \<or>
       h = None \<and> pool (snd (f s)) = pool s \<and> (pool s = [] \<or> c \<and> D s) \<and> fst (f s) = Done Undefined)"
  shows "conn_thread pool I D c h (Atom f)"
proof (rule conn_runs.Act)
  fix s assume "I s"
  have "conn_runs pool I D c True None (Done Undefined)" "moves None None p p" for p by (simp_all add: moves_def)
  with assms [OF \<open>I s\<close>] show "I (snd (f s)) \<and>
      ((\<exists>b' h'. (b' \<longrightarrow> False \<or> c \<and> D s) \<and> moves h h' (pool_ids (pool s)) (pool_ids (pool (snd (f s)))) \<and>
          conn_runs pool I D c b' h' (fst (f s))) \<or>
       h = None \<and> pool (snd (f s)) = pool s \<and> pool s = [] \<and> fst (f s) = Done Undefined)"
    by metis
qed

text \<open>A thread that uses no connection and never crashes\<close>

inductive bystander :: "('s \<Rightarrow> conn list) \<Rightarrow> ('s \<Rightarrow> bool) \<Rightarrow> ('s, 'a) task \<Rightarrow> bool" for pool I where
  Done: "r \<noteq> Undefined \<Longrightarrow> bystander pool I (Done r)"
| Act: "(\<And>s. I s \<Longrightarrow> I (snd (f s)) \<and> pool (snd (f s)) = pool s \<and> bystander pool I (fst (f s))) \<Longrightarrow>
    bystander pool I (Atom f)"

inductive_simps bystander_Done [simp]: "bystander pool I (Done r)"
inductive_simps bystander_Atom: "bystander pool I (Atom f)"

text \<open>What follows a task keeps this, if it starts without a connection.\<close>

lemma conn_thread_map:
  assumes atom: "\<And>f. F (Atom f) = Atom (\<lambda>s. map_prod F (\<lambda>t. t) (f s))"
    and crash: "F (Done Undefined) = Done Undefined"
    and done_: "\<And>r. r \<noteq> Undefined \<Longrightarrow> conn_thread pool I D c None (F (Done r))"
    and t: "conn_runs pool I D c b h t"
  shows "conn_runs pool I D c b h (F t)"
  using t
proof (induction rule: conn_runs.induct)
  case (Done r b)
  then show ?case using conn_thread_doomed [OF done_] crash by (cases "r = Undefined") simp_all
next
  case (Act f b h)
  show ?case
    unfolding atom
  proof (rule conn_runs.Act)
    fix s assume "I s"
    note act = Act [OF this]
    have "fst (f s) = Done Undefined \<Longrightarrow> F (fst (f s)) = Done Undefined" by (simp add: crash)
    with act have "I (snd (f s)) \<and>
      ((\<exists>b' h'. (b' \<longrightarrow> b \<or> c \<and> D s) \<and> moves h h' (pool_ids (pool s)) (pool_ids (pool (snd (f s)))) \<and>
          conn_runs pool I D c b' h' (F (fst (f s)))) \<or>
       h = None \<and> pool (snd (f s)) = pool s \<and> pool s = [] \<and> F (fst (f s)) = Done Undefined)" by blast
    then show "I (snd (map_prod F (\<lambda>t. t) (f s))) \<and>
      ((\<exists>b' h'. (b' \<longrightarrow> b \<or> c \<and> D s) \<and>
          moves h h' (pool_ids (pool s)) (pool_ids (pool (snd (map_prod F (\<lambda>t. t) (f s))))) \<and>
          conn_runs pool I D c b' h' (fst (map_prod F (\<lambda>t. t) (f s)))) \<or>
       h = None \<and> pool (snd (map_prod F (\<lambda>t. t) (f s))) = pool s \<and> pool s = [] \<and>
         fst (map_prod F (\<lambda>t. t) (f s)) = Done Undefined)"
      by (simp only: fst_map_prod snd_map_prod)
  qed
qed

lemma conn_thread_then:
  assumes "conn_runs pool I D c b h t" and "conn_thread pool I D c None g"
  shows "conn_runs pool I D c b h (then_task t g)"
  by (rule conn_thread_map [where F = "\<lambda>t. then_task t g"])
    (use assms in \<open>auto split: outcome.splits\<close>)

text \<open>The first \<open>m\<close> threads use connections, the others are bystanders.\<close>

definition member :: "('s \<Rightarrow> conn list) \<Rightarrow> ('s \<Rightarrow> bool) \<Rightarrow> ('s \<Rightarrow> bool) \<Rightarrow> (nat \<Rightarrow> bool) \<Rightarrow> nat \<Rightarrow> bool \<Rightarrow> nat \<Rightarrow>
    nat option \<Rightarrow> ('s, 'a) task \<Rightarrow> bool" where
  "member pool I D c m b i h t \<longleftrightarrow> (if i < m then conn_runs pool I D (c i) b h t else h = None \<and> bystander pool I t)"

interpretation conn_threads: connection_threads "\<lambda>b i h t _. member pool I D c m b i h t" "\<lambda>h. h" pool I
  "\<lambda>_ _ _. True" "\<lambda>_ _. True" D "\<lambda>i. i < m" c for pool I D c m
proof (unfold_locales, goal_cases)
  case (1 b i g f s t s')
  show ?case
  proof (cases "i < m")
    case True
    then have "conn_runs pool I D (c i) b g (Atom f)" using 1(1) by (simp add: member_def)
    then have "I s' \<and>
      ((\<exists>b' h'. (b' \<longrightarrow> b \<or> c i \<and> D s) \<and> moves g h' (pool_ids (pool s)) (pool_ids (pool s')) \<and>
          conn_runs pool I D (c i) b' h' t) \<or>
       g = None \<and> pool s' = pool s \<and> pool s = [] \<and> t = Done Undefined)"
      using 1(2,3) by (metis conn_runs_Atom fst_conv snd_conv)
    with True show ?thesis by (auto simp: member_def)
  next
    case False
    then have g: "g = None" and "bystander pool I (Atom f)" using 1(1) by (simp_all add: member_def)
    then have "I s' \<and> pool s' = pool s \<and> bystander pool I t"
      using 1(2,3) by (metis bystander_Atom fst_conv snd_conv)
    with False g show ?thesis by (auto simp: member_def moves_def)
  qed
qed (auto simp: member_def split: if_splits)

text \<open>What every schedule of such threads keeps\<close>

lemma conn_threads_run:
  assumes "run_schedule is (ts, s) = (ts', s')" and "distinct (pool_ids (pool s))" and "I s"
    and "\<And>i. i < m \<Longrightarrow> i < length ts \<Longrightarrow> conn_thread pool I D (c i) None (ts ! i)"
    and "\<And>t. t \<in> set (drop m ts) \<Longrightarrow> bystander pool I t"
  shows "I s' \<and> distinct (pool_ids (pool s')) \<and> set (pool_ids (pool s')) \<subseteq> set (pool_ids (pool s)) \<and>
    ((\<forall>t \<in> set (take m ts'). \<exists>r. t = Done r) \<longrightarrow> mset (pool_ids (pool s')) = mset (pool_ids (pool s))) \<and>
    (m \<le> length (pool s) \<longrightarrow>
      (\<forall>i < length ts. ts' ! i = Done Undefined \<longrightarrow> c i \<and> at_moment is (ts, s) i D))"
proof -
  let ?M = "mset (pool_ids (pool s))"
  have "member pool I D c m False i None (ts ! i)" if "i < length ts" for i
  proof (cases "i < m")
    case True
    with that show ?thesis by (simp add: member_def assms(4))
  next
    case False
    with that have "drop m ts ! (i - m) = ts ! i" "i - m < length (drop m ts)" by simp_all
    then have "ts ! i \<in> set (drop m ts)" by (metis nth_mem)
    with False show ?thesis by (simp add: member_def assms(5))
  qed
  then have "length ts' = length ts" "conn_threads.together pool I D c m ?M {i. at_moment is (ts, s) i D} ts' s'"
    using conn_threads.together_run [where pool = pool and I = I and D = D and c = c and m = m and ?g0.0 = None, OF assms(1,2,3)]
    by auto
  then obtain h where h: "I s'" "account (length ts') h (pool s') = ?M"
    "\<And>i. i < length ts' \<Longrightarrow> (\<exists>b. member pool I D c m b i (h i) (ts' ! i) \<and> (b \<longrightarrow> c i \<and> at_moment is (ts, s) i D)) \<or>
      ts' ! i = Done Undefined \<and> h i = None \<and> size ?M < card {j. j < length ts' \<and> j < m}"
    and len: "length ts' = length ts"
    by (auto simp: conn_threads.together_def conn_threads.thread_or_crash_def o_def)
  have sub: "mset (pool_ids (pool s')) \<subseteq># ?M" using h(2) by (metis account_def mset_subset_eq_add_left)
  have "distinct (pool_ids (pool s'))"
    using assms(2) mset_subset_eq_count [OF sub] le_trans unfolding distinct_count_le by blast
  moreover have "mset (pool_ids (pool s')) = ?M" if "\<forall>t \<in> set (take m ts'). \<exists>r. t = Done r"
  proof -
    have "ts' ! i \<in> set (take m ts')" if "i < length ts'" "i < m" for i
      using that by (auto simp: in_set_conv_nth intro!: exI [of _ i])
    then have "held (h i) = {#}" if "i < length ts'" for i
      using h(3) [OF that] \<open>\<forall>t \<in> set (take m ts'). _\<close> that
      by (cases "i < m") (fastforce simp: member_def)+
    with h(2) show ?thesis by (simp add: account_def)
  qed
  moreover have "c i \<and> at_moment is (ts, s) i D"
    if "m \<le> length (pool s)" "i < length ts" "ts' ! i = Done Undefined" for i
  proof -
    have "card {j. j < length ts' \<and> j < m} \<le> card {..<m}" by (rule card_mono) auto
    then have "\<not> size ?M < card {j. j < length ts' \<and> j < m}" using that(1) by simp
    with h(3) [of i] that(2,3) len show ?thesis by (auto simp: member_def split: if_splits)
  qed
  ultimately show ?thesis using h(1) set_mset_mono [OF sub] by auto
qed

end
