(* ===== verification/Workers.thy ===== *)
theory Workers
  imports DaoSystem Threads
begin

text \<open>
  Worker threads that call the data access objects at the same time: every operation as a task, what
  every schedule of any number of threads keeps, and when every thread ends.
\<close>

section \<open>The operations as tasks\<close>

abbreviation one_stmt :: "server \<Rightarrow> conn \<Rightarrow> 'x stmt \<Rightarrow> (dao_state, unit) task" where
  "one_stmt srv c st \<equiv> stmt srv c st (\<lambda>_. Done (Ok ()))"

text \<open>The bodies of the operations, between the guard's construction and its end\<close>

fun op_body :: "server \<Rightarrow> digest_fun \<Rightarrow> dao_op \<Rightarrow> conn \<Rightarrow> (dao_state, unit) task" where
  "op_body srv evp (Users (CreateUser u)) c =
     stmt srv c (insert_user srv (c_id c) (us_username u) (hashPassword evp (us_passwd_hash u)) (us_email u))
       (\<lambda>_. one_stmt srv c (select_last_insert_id (c_id c)))"
| "op_body srv evp (Users (GetUserById i)) c = one_stmt srv c (select_users_by_id srv i)"
| "op_body srv evp (Users (GetUserByUsername n)) c = one_stmt srv c (select_users_by_username srv n)"
| "op_body srv evp (Users (UpdateUser u)) c =
     one_stmt srv c (update_user_row srv (us_username u) (us_email u) (null_if_empty (us_qq_id u))
       (null_if_empty (us_netease_id u)) (us_id u))"
| "op_body srv evp (Users (DeleteUser i)) c = one_stmt srv c (delete_user_row i)"
| "op_body srv evp (Users (UpdatePassword i p)) c = one_stmt srv c (update_passwd_hash srv (hashPassword evp p) i)"
| "op_body srv evp (Users (UpdateQQId i q)) c = one_stmt srv c (update_qq_id srv q i)"
| "op_body srv evp (Users (UpdateNetEaseId i q)) c = one_stmt srv c (update_netease_id srv q i)"
| "op_body srv evp (Playlists (CreatePlaylist p)) c =
     stmt srv c (insert_playlist srv (c_id c) (pl_name p) (pl_user_id p) (null_if_empty (pl_cover p)))
       (\<lambda>_. one_stmt srv c (text_query srv (select_last_insert_id (c_id c))))"
| "op_body srv evp (Playlists (GetPlaylistById i)) c = one_stmt srv c (select_playlists srv (\<lambda>r. pr_id r = i))"
| "op_body srv evp (Playlists (GetPlaylistsByUserId i)) c = one_stmt srv c (select_playlists srv (\<lambda>r. pr_user_id r = i))"
| "op_body srv evp (Playlists (UpdatePlaylist p)) c =
     one_stmt srv c (update_playlist_row srv (pl_name p) (null_if_empty (pl_cover p)) (pl_id p))"
| "op_body srv evp (Playlists (DeletePlaylist i)) c = one_stmt srv c (delete_playlist_row i)"
| "op_body srv evp (Playlists (AddSongToPlaylist i x)) c =
     stmt srv c (count_songs (song_is srv i (so_song_id x) (so_where x))) (\<lambda>result.
       if (case result of n # _ \<Rightarrow> 0 < n | [] \<Rightarrow> False) then Done (Ok ())
       else one_stmt srv c (insert_song srv (c_id c) i (so_song_id x) (so_name x) (so_singer x)
              (null_if_empty (so_pic x)) (so_where x)))"
| "op_body srv evp (Playlists (RemoveSongFromPlaylist i x w)) c = one_stmt srv c (delete_songs (song_is srv i x w))"
| "op_body srv evp (Playlists (GetSongsInPlaylist i)) c = one_stmt srv c (select_songs srv (\<lambda>r. sr_playlist_id r = i))"
| "op_body srv evp (Playlists (CountSongsInPlaylist i)) c = one_stmt srv c (count_songs (\<lambda>r. sr_playlist_id r = i))"
| "op_body srv evp (History (AddPlayHistory h)) c =
     stmt srv c (select_history_of srv (ph_user_id h) (ph_song_id h)) (\<lambda>check_result.
       case check_result of
         r # _ \<Rightarrow> if hr_song_count r = max_int then Done Undefined
                  else one_stmt srv c (update_song_count srv (hr_song_count r + 1) (hr_id r))
       | [] \<Rightarrow> one_stmt srv c (insert_history srv (c_id c) (ph_user_id h) (ph_song_id h)
                 (ph_song_name h) (ph_song_singer h) (null_if_empty (ph_song_pic h)) (ph_song_where h)))"
| "op_body srv evp (History (GetUserPlayHistory u p)) c =
     stmt srv c (select_history srv u (int \<circ> hr_played_at) (page_limit p) (page_offset p))
       (\<lambda>_. Done (if page_limit p < 0 then Raised (StdException ''vector::reserve'') else Ok ()))"
| "op_body srv evp (History (ClearUserPlayHistory u)) c = one_stmt srv c (delete_history (\<lambda>h. hr_user_id h = u))"
| "op_body srv evp (History (DeletePlayHistory i u)) c =
     one_stmt srv c (delete_history (\<lambda>h. hr_id h = i \<and> hr_user_id h = u))"
| "op_body srv evp (History (GetUserTotalPlayCount u)) c = one_stmt srv c (count_history (\<lambda>h. hr_user_id h = u))"
| "op_body srv evp (History (GetUserRecentPlayCount u n)) c = one_stmt srv c (count_recent srv u (or_default 7 n))"
| "op_body srv evp (History (GetUserTopArtists u l)) c = one_stmt srv c (select_top_artists srv u (or_default 5 l))"
| "op_body srv evp (History (GetUserTopSongs u l)) c = one_stmt srv c (select_history srv u hr_song_count (or_default 5 l) 0)"
| "op_body srv evp (History (GetMostPlayedSongs u l)) c =
     one_stmt srv c (select_history srv u hr_song_count (or_default 10 l) 0)"

definition task_of_op :: "server \<Rightarrow> digest_fun \<Rightarrow> dao_op \<Rightarrow> (dao_state, unit) task" where
  "task_of_op srv evp op = dao_task srv () (op_body srv evp op)"

text \<open>A worker that makes one call after the other\<close>

fun task_of_ops :: "server \<Rightarrow> digest_fun \<Rightarrow> dao_op list \<Rightarrow> (dao_state, unit) task" where
  "task_of_ops srv evp [] = Done (Ok ())"
| "task_of_ops srv evp (op # ops) = then_task (task_of_op srv evp op) (task_of_ops srv evp ops)"

section \<open>A thread alone\<close>

lemma void_dao_call: "void (dao_call srv failed body) = dao_call srv () (\<lambda>c. void (body c))"
  by (rule ext)
    (auto simp: void_def dao_call_def with_connection_def catch_sql_def catch_exn_def and_then_def
      ret_def raise_def Let_def split: prod.splits option.splits outcome.splits)

lemma void_and_then: "void (and_then m f) = and_then m (\<lambda>x. void (f x))"
  by (simp add: void_def and_then_assoc)

lemma void_ret: "void (ret x) = ret ()"
  by (simp add: void_def and_then_ret)

lemma void_raise: "void (raise e) = raise e"
  by (simp add: void_def and_then_raise)

lemma void_undef: "void undef = undef"
  by (simp add: void_def and_then_undef)

lemma run_Done: "run_task (Done (Ok x)) = ret x" "run_task (Done (Raised e)) = raise e"
  "run_task (Done Undefined) = undef"
  by (simp_all add: fun_eq_iff ret_def raise_def undef_def)

lemma if_run_task: "run_task (if b then t else u) = (if b then run_task t else run_task u)"
  by simp

lemma if_void: "void (if b then m else m') = (if b then void m else void m')"
  by simp

lemma list_run_task:
  "run_task (case xs of [] \<Rightarrow> t | x # ys \<Rightarrow> f x ys) = (case xs of [] \<Rightarrow> run_task t | x # ys \<Rightarrow> run_task (f x ys))"
  by (cases xs) simp_all

lemma list_void:
  "void (case xs of [] \<Rightarrow> m | x # ys \<Rightarrow> f x ys) = (case xs of [] \<Rightarrow> void m | x # ys \<Rightarrow> void (f x ys))"
  by (cases xs) simp_all

lemmas void_simps = void_dao_call void_and_then void_ret void_raise void_undef if_void list_void

lemma run_task_of_op: "run_task (task_of_op srv evp op) = run_op srv evp g op"
proof (cases op rule: dao_op_cases)
  case (GetUserPlayHistory u p)
  then show ?thesis
    by (cases "page_limit p < 0") (simp_all add: task_of_op_def run_dao_task run_stmt history_dao_defs void_simps run_Done
        del: run_task.simps)
qed (simp_all only: task_of_op_def op_body.simps run_op.simps run_dao_task run_stmt user_dao_defs
    playlist_dao_defs history_dao_defs Let_def void_simps run_Done if_run_task list_run_task)

section \<open>The data access objects meet the contract\<close>

text \<open>
  The body of an operation: it leaves the pool alone, keeps \<open>I\<close>, and its behaviour is undefined only if
  it may be (\<open>c\<close>) and one of its actions met danger (\<open>D\<close>), after which it is doomed (\<open>b\<close>).
\<close>

inductive op_body_runs :: "(dao_state \<Rightarrow> bool) \<Rightarrow> (dao_state \<Rightarrow> bool) \<Rightarrow> bool \<Rightarrow> bool \<Rightarrow> (dao_state, 'a) task \<Rightarrow> bool"
  for I D c where
  Done: "(r = Undefined \<Longrightarrow> b) \<Longrightarrow> op_body_runs I D c b (Done r)"
| Atom: "(\<And>s. I s \<Longrightarrow> ds_pool (snd (f s)) = ds_pool s \<and> I (snd (f s)) \<and>
      (\<exists>b'. (b' \<longrightarrow> b \<or> c \<and> D s) \<and> op_body_runs I D c b' (fst (f s)))) \<Longrightarrow>
    op_body_runs I D c b (Atom f)"

abbreviation op_body_ok :: "(dao_state \<Rightarrow> bool) \<Rightarrow> (dao_state \<Rightarrow> bool) \<Rightarrow> bool \<Rightarrow> (dao_state, 'a) task \<Rightarrow> bool" where
  "op_body_ok I D c \<equiv> op_body_runs I D c False"

abbreviation dao_thread :: "(db \<Rightarrow> bool) \<Rightarrow> (db \<Rightarrow> bool) \<Rightarrow> bool \<Rightarrow> nat option \<Rightarrow> (dao_state, 'a) task \<Rightarrow> bool" where
  "dao_thread J D c \<equiv> conn_thread ds_pool (on_db J) (on_db D) c"

lemma dao_thread_guarded:
  assumes "op_body_runs (on_db J) (on_db D) c b t"
  shows "conn_runs ds_pool (on_db J) (on_db D) c b (Some (c_id k)) (guarded k failed t)"
  using assms
proof (induction rule: op_body_runs.induct)
  case (Done r b)
  then show ?case
    unfolding guarded.simps
    by (intro conn_runs.Act) (auto simp: releaseConnection_def moves_def intro!: exI [of _ b] exI [of _ None])
next
  case (Atom f b)
  show ?case
    unfolding guarded.simps
  proof (rule conn_runs.Act)
    fix s :: dao_state assume "J (ds_db s)"
    note f = Atom [OF this]
    have "moves (Some (c_id k)) (Some (c_id k)) p p" for p by (simp add: moves_def)
    with f show "J (ds_db (snd (map_prod (guarded k failed) (\<lambda>t. t) (f s)))) \<and>
      ((\<exists>b' h'. (b' \<longrightarrow> b \<or> c \<and> D (ds_db s)) \<and> moves (Some (c_id k)) h' (pool_ids (ds_pool s))
           (pool_ids (ds_pool (snd (map_prod (guarded k failed) (\<lambda>t. t) (f s))))) \<and>
          conn_runs ds_pool (on_db J) (on_db D) c b' h' (fst (map_prod (guarded k failed) (\<lambda>t. t) (f s)))) \<or>
       Some (c_id k) = None \<and> ds_pool (snd (map_prod (guarded k failed) (\<lambda>t. t) (f s))) = ds_pool s \<and>
         ds_pool s = [] \<and> fst (map_prod (guarded k failed) (\<lambda>t. t) (f s)) = Done Undefined)"
      by auto
  qed
qed

lemma dao_thread_task:
  assumes "\<And>k. op_body_ok (on_db J) (on_db D) c (body k)"
  shows "dao_thread J D c None (dao_task srv failed body)"
  unfolding dao_task_def
proof (rule conn_thread_Act, goal_cases)
  case (1 s)
  show ?case
  proof (cases "ds_pool s")
    case (Cons k p)
    with 1 dao_thread_guarded [OF assms, of "refresh (my_driver srv) (ds_tick s) k" failed] show ?thesis
      by (auto simp: getConnection_def Let_def moves_def)
  qed (use 1 in \<open>simp add: getConnection_def Let_def\<close>)
qed

text \<open>A statement, and what follows it in the tables that it saw\<close>

lemma op_body_stmt_in:
  assumes "stmt_keeps J st"
    and "\<And>k d x d'. J d \<Longrightarrow> st k d = (Inr x, d') \<Longrightarrow> \<exists>b. (b \<longrightarrow> c \<and> D d) \<and> op_body_runs (on_db J) (on_db D) c b (g x)"
  shows "op_body_ok (on_db J) (on_db D) c (stmt srv k st g)"
  unfolding stmt_def
proof (rule op_body_runs.Atom)
  fix s :: dao_state assume J: "J (ds_db s)"
  obtain r s' where r: "jdbc srv k st s = (r, s')" by fastforce
  have "J (ds_db s')" using preservesD_eq [OF jdbc_preserves [OF assms(1)] J r] .
  moreover have "ds_pool s' = ds_pool s"
    using r by (rule jdbc_cases) simp_all
  moreover have "\<exists>b. (b \<longrightarrow> False \<or> c \<and> D (ds_db s)) \<and> op_body_runs (on_db J) (on_db D) c b
      (fst (case (r, s') of (Ok x, s') \<Rightarrow> (g x, s') | (Raised e, s') \<Rightarrow> (Done (Raised e), s')
        | (Undefined, s') \<Rightarrow> (Done Undefined, s')))"
    using r
  proof (cases rule: jdbc_cases)
    case (ok x d)
    with assms(2) [OF J] show ?thesis by simp
  qed (auto intro!: exI [of _ False] op_body_runs.Done)
  ultimately show "ds_pool (snd (case jdbc srv k st s of (Ok x, s') \<Rightarrow> (g x, s')
        | (Raised e, s') \<Rightarrow> (Done (Raised e), s') | (Undefined, s') \<Rightarrow> (Done Undefined, s'))) = ds_pool s \<and>
      J (ds_db (snd (case jdbc srv k st s of (Ok x, s') \<Rightarrow> (g x, s')
        | (Raised e, s') \<Rightarrow> (Done (Raised e), s') | (Undefined, s') \<Rightarrow> (Done Undefined, s')))) \<and>
      (\<exists>b. (b \<longrightarrow> False \<or> c \<and> D (ds_db s)) \<and> op_body_runs (on_db J) (on_db D) c b
         (fst (case jdbc srv k st s of (Ok x, s') \<Rightarrow> (g x, s')
        | (Raised e, s') \<Rightarrow> (Done (Raised e), s') | (Undefined, s') \<Rightarrow> (Done Undefined, s'))))"
    unfolding r by (cases r) simp_all
qed

lemma op_body_stmt:
  assumes "stmt_keeps J st" and "\<And>k d x d'. J d \<Longrightarrow> st k d = (Inr x, d') \<Longrightarrow> op_body_ok (on_db J) (on_db D) c (g x)"
  shows "op_body_ok (on_db J) (on_db D) c (stmt srv k st g)"
proof (rule op_body_stmt_in [OF assms(1)])
  fix k d x d' assume "J d" "st k d = (Inr x, d')"
  then have "op_body_ok (on_db J) (on_db D) c (g x)" by (rule assms(2))
  then show "\<exists>b. (b \<longrightarrow> c \<and> D d) \<and> op_body_runs (on_db J) (on_db D) c b (g x)"
    by (intro exI [of _ False]) simp
qed

lemma op_body_value: "r \<noteq> Undefined \<Longrightarrow> op_body_ok I D c (Done r)"
  by (rule op_body_runs.Done) simp

text \<open>
  The one undefined behaviour of the data access objects on a connection: \<open>addPlayHistory\<close> adds one to a
  counter of type \<open>int\<close> that is full.
\<close>

definition full_counter :: "db \<Rightarrow> bool" where
  "full_counter d \<longleftrightarrow> (\<exists>r \<in> set (play_history d). hr_song_count r = max_int)"

definition adds_play :: "dao_op \<Rightarrow> bool" where
  "adds_play op \<longleftrightarrow> (\<exists>h. op = History (AddPlayHistory h))"

lemma op_body_ok_op: "op_body_ok (on_db (schema_ok srv)) (on_db full_counter) (adds_play op) (op_body srv evp op k)"
proof (cases op rule: dao_op_cases)
  case (AddPlayHistory h)
  show ?thesis
    unfolding AddPlayHistory op_body.simps
  proof (rule op_body_stmt_in)
    show "stmt_keeps (schema_ok srv) (select_history_of srv (ph_user_id h) (ph_song_id h))"
      by (intro stmt_intros)
    fix n d x d'
    assume "select_history_of srv (ph_user_id h) (ph_song_id h) n d = (Inr x, d')"
    then have rows: "set x \<subseteq> set (play_history d)" by (auto simp: select_history_of_def)
    show "\<exists>b. (b \<longrightarrow> adds_play (History (AddPlayHistory h)) \<and> full_counter d) \<and>
       op_body_runs (on_db (schema_ok srv)) (on_db full_counter) (adds_play (History (AddPlayHistory h))) b (case x of
         r # _ \<Rightarrow> if hr_song_count r = max_int then Done Undefined
                  else one_stmt srv k (update_song_count srv (hr_song_count r + 1) (hr_id r))
       | [] \<Rightarrow> one_stmt srv k (insert_history srv (c_id k) (ph_user_id h) (ph_song_id h)
                 (ph_song_name h) (ph_song_singer h) (null_if_empty (ph_song_pic h)) (ph_song_where h)))"
    proof (cases "\<exists>r y. x = r # y \<and> hr_song_count r = max_int")
      case True
      then have "full_counter d" using rows by (auto simp: full_counter_def)
      with True show ?thesis by (intro exI [of _ True]) (auto simp: adds_play_def intro: op_body_runs.Done)
    next
      case False
      then show ?thesis
        by (intro exI [of _ False]) (auto split: list.splits intro!: op_body_stmt stmt_intros op_body_value)
    qed
  qed
qed (simp only: op_body.simps;
    intro op_body_stmt stmt_intros;
    auto intro!: op_body_stmt stmt_intros op_body_value)+

lemma dao_thread_ops:
  "dao_thread (schema_ok srv) full_counter (\<exists>op \<in> set ops. adds_play op) None (task_of_ops srv evp ops)"
proof (induction ops)
  case (Cons op ops)
  let ?c = "\<exists>x \<in> set (op # ops). adds_play x"
  have "dao_thread (schema_ok srv) full_counter ?c None (task_of_op srv evp op)"
    unfolding task_of_op_def by (rule conn_runs_weaken [OF dao_thread_task [OF op_body_ok_op]]) simp_all
  moreover have "dao_thread (schema_ok srv) full_counter ?c None (task_of_ops srv evp ops)"
    by (rule conn_runs_weaken [OF Cons]) auto
  ultimately show ?case by (simp only: task_of_ops.simps conn_thread_then)
qed simp

lemma ends_in_op: "ends_in 4 (task_of_op srv evp op)"
proof -
  have "ends_in 2 (op_body srv evp op c)" for c
    by (cases op rule: dao_op_cases; simp only: op_body.simps numeral_2_eq_2)
      (auto intro!: ends_in_stmt split: list.splits)
  from ends_in_dao_task [OF this] show ?thesis by (simp add: task_of_op_def)
qed

lemma ends_in_ops: "ends_in (4 * length ops) (task_of_ops srv evp ops)"
proof (induction ops)
  case (Cons op ops)
  from ends_in_then_task [OF ends_in_op Cons] show ?case by simp
qed simp

section \<open>Properties\<close>

text \<open>
  An operation cut into its actions (taking the connection, each statement, giving it back) is the
  operation when no other thread acts in between: the tasks refine the data access objects, all
  twenty-six operations of them, on every server and with every failure.
\<close>

theorem tasks_refine_operations: "run_task (task_of_op srv evp op) s = run_op srv evp g op s"
  by (rule fun_cong [OF run_task_of_op])

lemma workers_keep:
  assumes "schema_ok srv (ds_db s)" and "distinct (pool_ids (ds_pool s))"
    and "run_schedule is (map (task_of_ops srv evp) opss, s) = (ts', s')"
  shows "schema_ok srv (ds_db s') \<and> distinct (pool_ids (ds_pool s')) \<and>
    set (pool_ids (ds_pool s')) \<subseteq> set (pool_ids (ds_pool s)) \<and>
    ((\<forall>t \<in> set ts'. \<exists>r. t = Done r) \<longrightarrow> mset (pool_ids (ds_pool s')) = mset (pool_ids (ds_pool s))) \<and>
    (length opss \<le> length (ds_pool s) \<longrightarrow> (\<forall>i < length opss. ts' ! i = Done Undefined \<longrightarrow>
       (\<exists>op \<in> set (opss ! i). adds_play op) \<and>
       at_moment is (map (task_of_ops srv evp) opss, s) i (on_db full_counter)))"
proof -
  have "length ts' = length opss"
    using length_run_schedule [of "is" "(map (task_of_ops srv evp) opss, s)"] assms(3) by simp
  then show ?thesis
    using conn_threads_run [where pool = ds_pool and I = "on_db (schema_ok srv)" and D = "on_db full_counter" and
        c = "\<lambda>i. \<exists>op \<in> set (opss ! i). adds_play op" and m = "length opss", OF assms(3,2,1)]
    by (auto simp: dao_thread_ops in_set_conv_nth)
qed

text \<open>
  C6: any number of workers that call any operations, under any schedule, on any server and on any tables
  that meet the constraints of the schema: the constraints hold throughout; no connection is in the
  pool twice or comes from nowhere; when all workers are done, without undefined behaviour, the pool
  holds the connections it had; and as long as there are at least as many connections as workers, no
  worker dereferences a null pointer: the one undefined behaviour left is that of a worker which calls
  \<open>addPlayHistory\<close> and acts while a counter of plays is full, at the largest \<open>int\<close>.
\<close>

theorem workers_safe:
  assumes "schema_ok srv (ds_db s)" and "distinct (pool_ids (ds_pool s))"
    and "run_schedule is (map (task_of_ops srv evp) opss, s) = (ts', s')"
  shows "schema_ok srv (ds_db s') \<and> distinct (pool_ids (ds_pool s')) \<and>
    set (pool_ids (ds_pool s')) \<subseteq> set (pool_ids (ds_pool s)) \<and>
    ((\<forall>t \<in> set ts'. \<exists>r. t = Done r \<and> r \<noteq> Undefined) \<longrightarrow>
       mset (pool_ids (ds_pool s')) = mset (pool_ids (ds_pool s))) \<and>
    (length opss \<le> length (ds_pool s) \<longrightarrow> (\<forall>i < length opss. ts' ! i = Done Undefined \<longrightarrow>
       (\<exists>h. History (AddPlayHistory h) \<in> set (opss ! i)) \<and>
       at_moment is (map (task_of_ops srv evp) opss, s) i
         (\<lambda>u. \<exists>r \<in> set (play_history (ds_db u)). hr_song_count r = max_int)))"
  using workers_keep [OF assms] by (simp add: full_counter_def adds_play_def) blast

theorem workers_safe_witness:
  "\<exists>ts' s'. run_schedule [0, 1, 0, 1, 1, 0, 0, 1]
     (map (task_of_ops demo_server demo_evp) [[Users (CreateUser demo_user)], [Playlists (CountSongsInPlaylist 1), Users (DeleteUser 1)]], demo_dao) =
     (ts', s') \<and> schema_ok demo_server (ds_db s') \<and> ts' ! 0 \<noteq> Done Undefined"
proof -
  let ?ts = "map (task_of_ops demo_server demo_evp) [[Users (CreateUser demo_user)], [Playlists (CountSongsInPlaylist 1), Users (DeleteUser 1)]]"
  obtain ts' s' where r: "run_schedule [0, 1, 0, 1, 1, 0, 0, 1] (?ts, demo_dao) = (ts', s')" by fastforce
  have "schema_ok demo_server (ds_db demo_dao)"
    by (simp add: schema_ok_empty)
  from workers_safe [OF this _ r] r show ?thesis by auto
qed

text \<open>
  no worker can keep another from finishing: whatever the others do and wherever they stop, a
  worker that makes \<open>n\<close> calls is done after \<open>4 * n\<close> actions of its own.
\<close>

theorem workers_end:
  assumes "i < length opss" and "4 * length (opss ! i) \<le> count_list is i"
    and "run_schedule is (map (task_of_ops srv evp) opss, s) = (ts', s')"
  shows "\<exists>r. ts' ! i = Done r"
  using run_schedule_ends [OF _ _ assms(2,3)] assms(1) by (simp add: ends_in_ops)

theorem workers_end_witness:
  "\<exists>ts' s' r. run_schedule [0, 1, 0, 1, 1, 0, 0]
     (map (task_of_ops demo_server demo_evp) [[Users (CreateUser demo_user)], [Playlists (CountSongsInPlaylist 1)]], demo_dao) =
     (ts', s') \<and> ts' ! 0 = Done r"
proof -
  let ?ts = "map (task_of_ops demo_server demo_evp) [[Users (CreateUser demo_user)], [Playlists (CountSongsInPlaylist 1)]]"
  obtain ts' s' where r: "run_schedule [0, 1, 0, 1, 1, 0, 0] (?ts, demo_dao) = (ts', s')" by fastforce
  from workers_end [OF _ _ r, of 0] r show ?thesis by auto
qed

end
