(* ===== verification/Races.thy ===== *)
theory Races
  imports Workers
begin

text \<open>
  Workers whose calls meet on the same rows: registrations at the same time, and one song added to one
  playlist by several requests. Both operations check or read in one statement what another one
  wrote, so what they promise depends on who acts in between.
\<close>

section \<open>Creating users at the same time\<close>

definition create_tail :: "server \<Rightarrow> user \<Rightarrow> conn \<Rightarrow> (dao_state, bool \<times> user) task" where
  "create_tail srv u c = stmt srv c (select_last_insert_id (c_id c))
     (\<lambda>result. Done (Ok (case result of i # _ \<Rightarrow> (True, u\<lparr>us_id := i\<rparr>) | [] \<Rightarrow> (False, u))))"

definition create_body :: "server \<Rightarrow> digest_fun \<Rightarrow> user \<Rightarrow> conn \<Rightarrow> (dao_state, bool \<times> user) task" where
  "create_body srv evp u c =
     stmt srv c (insert_user srv (c_id c) (us_username u) (hashPassword evp (us_passwd_hash u)) (us_email u))
       (\<lambda>_. create_tail srv u c)"

definition createUser_task :: "server \<Rightarrow> digest_fun \<Rightarrow> user \<Rightarrow> (dao_state, bool \<times> user) task" where
  "createUser_task srv evp u = dao_task srv (False, u) (create_body srv evp u)"

lemma run_createUser_task: "run_task (createUser_task srv evp u) = createUser srv evp u"
  by (simp add: createUser_task_def create_body_def create_tail_def run_dao_task run_stmt createUser_def
      run_Done del: run_task.simps)

text \<open>What a thread may claim: the identifier \<open>k\<close> of a row that it inserted\<close>

definition claims :: "server \<Rightarrow> digest_fun \<Rightarrow> user \<Rightarrow> int option \<Rightarrow> db \<Rightarrow> bool" where
  "claims srv evp u cl d \<longleftrightarrow> (\<forall>k. cl = Some k \<longrightarrow> (\<exists>t. stored_user srv evp u t k \<in> set (users d)))"

definition create_result :: "user \<Rightarrow> int option \<Rightarrow> (bool \<times> user) outcome \<Rightarrow> bool" where
  "create_result u cl r \<longleftrightarrow> r \<noteq> Undefined \<and> (\<forall>u'. r = Ok (True, u') \<longrightarrow> (\<exists>k. cl = Some k \<and> u' = u\<lparr>us_id := k\<rparr>))"

inductive creating :: "server \<Rightarrow> digest_fun \<Rightarrow> user \<Rightarrow> nat option \<times> int option \<Rightarrow>
    (dao_state, bool \<times> user) task \<Rightarrow> dao_state \<Rightarrow> bool" for srv evp u where
  Start: "creating srv evp u (None, None) (createUser_task srv evp u) s"
| Taken: "creating srv evp u (Some (c_id c), None) (guarded c (False, u) (create_body srv evp u c)) s"
| Inserted: "last_insert (ds_db s) (c_id c) = k \<Longrightarrow> claims srv evp u (Some k) (ds_db s) \<Longrightarrow>
    creating srv evp u (Some (c_id c), Some k) (guarded c (False, u) (create_tail srv u c)) s"
| Ending: "claims srv evp u cl (ds_db s) \<Longrightarrow> create_result u cl r \<Longrightarrow>
    creating srv evp u (Some (c_id c), cl) (guarded c (False, u) (Done r)) s"
| Finished: "claims srv evp u cl (ds_db s) \<Longrightarrow> create_result u cl r \<Longrightarrow>
    creating srv evp u (None, cl) (Done r) s"

definition other_claims :: "nat option \<times> int option \<Rightarrow> nat option \<times> int option \<Rightarrow> bool" where
  "other_claims g q \<longleftrightarrow> (\<forall>k. snd g = Some k \<longrightarrow> snd q \<noteq> Some k)"

text \<open>What creating a user does to the tables: rows are only added, on the thread's own connection\<close>

definition only_adds :: "nat option \<Rightarrow> dao_state \<Rightarrow> dao_state \<Rightarrow> bool" where
  "only_adds h s s' \<longleftrightarrow> set (users (ds_db s)) \<subseteq> set (users (ds_db s')) \<and>
     (\<forall>x. h \<noteq> Some x \<longrightarrow> last_insert (ds_db s') x = last_insert (ds_db s) x)"

lemma creating_stable:
  assumes "creating srv evp u q t s" and "only_adds h s s'" and "fst q = None \<or> fst q \<noteq> h"
  shows "creating srv evp u q t s'"
proof -
  have mono: "claims srv evp u cl (ds_db s')" if "claims srv evp u cl (ds_db s)" for cl
    using that assms(2) unfolding claims_def only_adds_def by blast
  from assms(1) show ?thesis
  proof (cases rule: creating.cases)
    case (Inserted c k)
    then show ?thesis using mono assms(2,3) by (auto simp: only_adds_def intro!: creating.Inserted)
  qed (use mono in \<open>auto simp del: guarded.simps intro: creating.intros\<close>)
qed


lemma creating_claims: "creating srv evp u q t s \<Longrightarrow> claims srv evp u (snd q) (ds_db s)"
  by (cases rule: creating.cases) (auto simp: claims_def)

lemma guarded_not_Done [simp]: "guarded c x t \<noteq> Done r" "Done r \<noteq> guarded c x t"
  by (cases t, simp_all)+

lemma creating_not_undefined: "creating srv evp u q t s \<Longrightarrow> t \<noteq> Done Undefined"
  by (cases rule: creating.cases) (auto simp: create_result_def createUser_task_def dao_task_def simp del: guarded.simps)

lemma insert_user_adds:
  "insert_user srv cid n h m k d = (r, d') \<Longrightarrow>
   set (users d) \<subseteq> set (users d') \<and> (\<forall>x. x \<noteq> cid \<longrightarrow> last_insert d' x = last_insert d x)"
  by (auto simp: insert_user_def split: if_splits)

text \<open>The three calls of the operation, as the driver may answer them\<close>

lemma insert_call:
  assumes "jdbc srv c (insert_user srv (c_id c) (us_username u) (hashPassword evp (us_passwd_hash u)) (us_email u)) s = (r, s')"
    and "schema_ok srv (ds_db s)"
  shows "ds_pool s' = ds_pool s \<and> schema_ok srv (ds_db s') \<and> only_adds (Some (c_id c)) s s' \<and>
    (r = Raised SqlException \<or>
     r = Ok 1 \<and> last_insert (ds_db s') (c_id c) = ai_users (ds_db s) \<and>
       claims srv evp u (Some (ai_users (ds_db s))) (ds_db s'))"
proof -
  have "schema_ok srv (ds_db s')"
    by (rule preservesD_eq [OF jdbc_preserves [OF insert_user_keeps] assms(2,1)])
  with assms(1) show ?thesis
  proof (cases rule: jdbc_cases)
    case (ok x d)
    from insert_user_adds [OF ok(2)] have "only_adds (Some (c_id c)) s s'" using ok(3) by (simp add: only_adds_def)
    with ok(2) show ?thesis
      by (cases rule: insert_user_cases)
        (use ok \<open>schema_ok srv (ds_db s')\<close> in \<open>auto simp: claims_def stored_user_def\<close>)
  next
    case (refused e d)
    from insert_user_adds [OF refused(2)] refused \<open>schema_ok srv (ds_db s')\<close> show ?thesis by (simp add: only_adds_def)
  next
    case (lost x d)
    from insert_user_adds [OF lost(2)] lost \<open>schema_ok srv (ds_db s')\<close> show ?thesis by (simp add: only_adds_def)
  qed (simp add: only_adds_def)
qed

lemma last_id_call:
  assumes "jdbc srv c (select_last_insert_id (c_id c)) s = (r, s')"
  shows "ds_pool s' = ds_pool s \<and> ds_db s' = ds_db s \<and>
    (r = Raised SqlException \<or> r = Ok [last_insert (ds_db s) (c_id c)])"
  using assms by (cases rule: jdbc_cases) (auto simp: select_last_insert_id_def)

lemma only_adds_refl [simp]: "ds_db s' = ds_db s \<Longrightarrow> only_adds h s s'"
  by (simp add: only_adds_def)

lemma creating_acts:
  assumes "creating srv evp u g (Atom f) s" and ok: "schema_ok srv (ds_db s)"
    and take: "fst g \<noteq> None \<or> ds_pool s \<noteq> []" and f: "f s = (t, s')"
  shows "\<exists>g'. creating srv evp u g' t s' \<and> moves (fst g) (fst g') (pool_ids (ds_pool s)) (pool_ids (ds_pool s')) \<and>
    schema_ok srv (ds_db s') \<and> only_adds (fst g) s s' \<and>
    (snd g' = snd g \<or> snd g' = Some (ai_users (ds_db s)))"
  using assms(1)
proof (cases rule: creating.cases)
  case Start
  then obtain c p where p: "ds_pool s = c # p" using take by (cases "ds_pool s") auto
  let ?c = "refresh (my_driver srv) (ds_tick s) c"
  have "t = guarded ?c (False, u) (create_body srv evp u ?c)"
    "s' = s\<lparr>ds_pool := p, ds_tick := Suc (ds_tick s)\<rparr>"
    using Start p f by (simp_all add: createUser_task_def dao_task_def getConnection_def Let_def)
  then show ?thesis using Start p ok
    using creating.Taken [of srv evp u ?c s']
    by (intro exI [of _ "(Some (c_id ?c), None)"]) (simp add: moves_def del: guarded.simps)
next
  case (Taken c)
  obtain r s1 where call: "jdbc srv c (insert_user srv (c_id c) (us_username u)
      (hashPassword evp (us_passwd_hash u)) (us_email u)) s = (r, s1)" by fastforce
  note eff = insert_call [OF call ok]
  have eq: "(t, s') = (guarded c (False, u) (case r of Ok x \<Rightarrow> create_tail srv u c | Raised e \<Rightarrow> Done (Raised e)
      | Undefined \<Rightarrow> Done Undefined), s1)"
    using Taken(2) f call by (auto simp: create_body_def stmt_def split: outcome.splits)
  show ?thesis
  proof (cases "r = Raised SqlException")
    case True
    then have "creating srv evp u (Some (c_id c), None) t s'"
      using eq by (auto simp: claims_def create_result_def simp del: guarded.simps intro!: creating.Ending)
    then show ?thesis using eff eq Taken(1) by (auto simp: moves_def)
  next
    case False
    then have "creating srv evp u (Some (c_id c), Some (ai_users (ds_db s))) t s'"
      using eff eq by (auto simp del: guarded.simps intro!: creating.Inserted)
    then show ?thesis using eff eq Taken(1) by (auto simp: moves_def)
  qed
next
  case (Inserted c k)
  obtain r s1 where call: "jdbc srv c (select_last_insert_id (c_id c)) s = (r, s1)" by fastforce
  note eff = last_id_call [OF call]
  have eq: "(t, s') = (guarded c (False, u) (case r of
       Ok x \<Rightarrow> Done (Ok (case x of i # _ \<Rightarrow> (True, u\<lparr>us_id := i\<rparr>) | [] \<Rightarrow> (False, u)))
     | Raised e \<Rightarrow> Done (Raised e) | Undefined \<Rightarrow> Done Undefined), s1)"
    using Inserted(2) f call by (auto simp: create_tail_def stmt_def split: outcome.splits)
  have "creating srv evp u (Some (c_id c), Some k) t s'"
    using eff eq Inserted(3,4) by (auto simp: create_result_def simp del: guarded.simps intro!: creating.Ending)
  then show ?thesis using eff eq Inserted(1) ok by (auto simp: moves_def)
next
  case (Ending cl r c)
  have "t = Done (if r = Raised SqlException then Ok (False, u) else r)"
    "s' = s\<lparr>ds_pool := releaseConnection c (ds_pool s)\<rparr>"
    using Ending(2) f by simp_all
  moreover have "creating srv evp u (None, cl) (Done (if r = Raised SqlException then Ok (False, u) else r)) s'"
    using Ending(3,4) \<open>s' = _\<close> by (intro creating.Finished) (auto simp: create_result_def)
  ultimately show ?thesis using Ending(1) ok
    by (intro exI [of _ "(None, cl)"]) (auto simp: moves_def releaseConnection_def)
qed


lemma creating_starves:
  assumes "creating srv evp u g (Atom f) s" and "fst g = None" and "ds_pool s = []" and "f s = (t, s')"
  shows "t = Done Undefined \<and> ds_pool s' = [] \<and> ds_db s' = ds_db s"
  using assms(1)
proof (cases rule: creating.cases)
  case Start
  then show ?thesis using assms(3,4) by (auto simp: createUser_task_def dao_task_def getConnection_def Let_def)
qed (use assms(2) in simp_all)

lemma claims_not_next:
  assumes "schema_ok srv d" and "claims srv evp u cl d"
  shows "cl \<noteq> Some (ai_users d)"
  using assms(2) fresh_id [OF assms(1)] by (fastforce simp: claims_def stored_user_def)

lemma creating_won:
  assumes "creating srv evp u q (Done (Ok (True, v))) s"
  shows "snd q = Some (us_id v) \<and> v = u\<lparr>us_id := us_id v\<rparr> \<and>
    (\<exists>t. stored_user srv evp u t (us_id v) \<in> set (users (ds_db s)))"
  using assms
proof (cases rule: creating.cases)
  case (Finished cl)
  then show ?thesis by (auto simp: claims_def create_result_def)
qed (simp_all add: createUser_task_def dao_task_def del: guarded.simps)

lemma schema_unique_email:
  "schema_ok srv d \<Longrightarrow> r \<in> set (users d) \<Longrightarrow> r' \<in> set (users d) \<Longrightarrow>
   same srv (ur_email r) (ur_email r') \<Longrightarrow> r = r'"
  by (auto simp: schema_defs same_def dest: distinct_map_unique)

lemma rows_apart:
  assumes "schema_ok srv d" and "k \<noteq> k'"
    and "v = u\<lparr>us_id := k\<rparr>" and "stored_user srv evp u t k \<in> set (users d)"
    and "v' = u'\<lparr>us_id := k'\<rparr>" and "stored_user srv evp u' t' k' \<in> set (users d)"
  shows "\<not> same srv (us_username v) (us_username v') \<and> \<not> same srv (us_email v) (us_email v')"
  using schema_unique_username [OF assms(1,4,6)] schema_unique_email [OF assms(1,4,6)] assms(2,3,5)
  by (auto simp: stored_user_def)

interpretation registrations: connection_threads "\<lambda>_ i. creating srv evp (us i)" fst ds_pool "on_db (schema_ok srv)"
  only_adds other_claims "\<lambda>_. False" "\<lambda>_. True" "\<lambda>_. False" for srv evp us
proof (unfold_locales, goal_cases)
  case (1 b i g f s t s')
  show ?case
  proof (cases "fst g = None \<and> ds_pool s = []")
    case True
    then have "t = Done Undefined \<and> ds_pool s' = [] \<and> ds_db s' = ds_db s"
      using creating_starves [OF 1(1) _ _ 1(3)] by blast
    with True 1(2) show ?thesis by simp
  next
    case False
    then have "fst g \<noteq> None \<or> ds_pool s \<noteq> []" by simp
    from creating_acts [OF 1(1,2) this 1(3)] obtain g' where g': "creating srv evp (us i) g' t s'"
      "moves (fst g) (fst g') (pool_ids (ds_pool s)) (pool_ids (ds_pool s'))" "schema_ok srv (ds_db s')"
      "only_adds (fst g) s s'" "snd g' = snd g \<or> snd g' = Some (ai_users (ds_db s))" by blast
    have "other_claims g' q" if "creating srv evp (us j) q v s" "other_claims g q" for j q v
      using claims_not_next [OF 1(2) creating_claims [OF that(1)]] that(2) g'(5)
      by (auto simp: other_claims_def)
    with g' show ?thesis by blast
  qed
next
  case (2 b j q u h s s')
  then show ?case by (intro creating_stable [OF 2(1,2)]) auto
qed (auto simp: other_claims_def)

section \<open>Adding one song at the same time\<close>

definition add_tail :: "server \<Rightarrow> int \<Rightarrow> song \<Rightarrow> conn \<Rightarrow> (dao_state, bool) task" where
  "add_tail srv p x c =
     stmt srv c (insert_song srv (c_id c) p (so_song_id x) (so_name x) (so_singer x)
       (null_if_empty (so_pic x)) (so_where x)) (\<lambda>affected_row. Done (Ok (0 < affected_row)))"

definition add_body :: "server \<Rightarrow> int \<Rightarrow> song \<Rightarrow> conn \<Rightarrow> (dao_state, bool) task" where
  "add_body srv p x c = stmt srv c (count_songs (song_is srv p (so_song_id x) (so_where x))) (\<lambda>result.
     if (case result of n # _ \<Rightarrow> 0 < n | [] \<Rightarrow> False) then Done (Ok True) else add_tail srv p x c)"

definition addSong_task :: "server \<Rightarrow> int \<Rightarrow> song \<Rightarrow> (dao_state, bool) task" where
  "addSong_task srv p x = dao_task srv False (add_body srv p x)"

lemma run_addSong_task: "run_task (addSong_task srv p x) = addSongToPlaylist srv p x"
  by (simp add: addSong_task_def add_body_def add_tail_def run_dao_task run_stmt addSongToPlaylist_def
      run_Done if_run_task del: run_task.simps cong: if_cong)

definition with_song :: "server \<Rightarrow> int \<Rightarrow> song \<Rightarrow> (int \<Rightarrow> (string \<times> string) set) \<Rightarrow> int \<Rightarrow> (string \<times> string) set" where
  "with_song srv p x K = K(p := insert (new_song_key srv x) (K p))"

abbreviation in_list :: "server \<Rightarrow> int \<Rightarrow> song \<Rightarrow> dao_state \<Rightarrow> bool" where
  "in_list srv p x s \<equiv> new_song_key srv x \<in> keys_in srv (ds_db s) p"

lemma insert_song_cases:
  assumes "insert_song srv cid p (so_song_id x) (so_name x) (so_singer x) (null_if_empty (so_pic x))
      (so_where x) k d = (r, d')"
  obtains (inserted) "r = Inr 1" "keys_in srv d' = with_song srv p x (keys_in srv d)"
  | (refused) e where "r = Inl e" "keys_in srv d' = keys_in srv d"
proof (cases r)
  case (Inl e)
  with assms have "playlist_songs d' = playlist_songs d"
    by (auto simp: insert_song_def split: if_splits option.splits)
  with Inl refused show ?thesis by (simp add: keys_in_def fun_eq_iff)
next
  case (Inr n)
  with assms obtain w r' where w: "enum_value srv (so_where x) = Some w" "n = 1"
    "playlist_songs d' = playlist_songs d @ [r']" "sr_playlist_id r' = p" "sr_song_id r' = so_song_id x"
    "sr_song_where r' = w"
    by (fastforce simp: insert_song_def split: if_splits option.splits)
  then have "row_key srv r' = new_song_key srv x"
    using enum_value_member [OF w(1)] by (simp add: row_key_def new_song_key_def same_def)
  with keys_in_snoc [OF w(3)] w Inr inserted show ?thesis by (simp add: with_song_def)
qed

text \<open>
  What holds of the tables at every moment: the lists are as they were, or have the song more. On a
  working server (\<open>W\<close>) the song can still be added as long as it is missing.
\<close>

definition add_inv :: "server \<Rightarrow> int \<Rightarrow> song \<Rightarrow> (int \<Rightarrow> (string \<times> string) set) \<Rightarrow> bool \<Rightarrow> dao_state \<Rightarrow> bool" where
  "add_inv srv p x K W s \<longleftrightarrow> schema_ok srv (ds_db s) \<and>
     keys_in srv (ds_db s) \<in> {K, with_song srv p x K} \<and>
     (W \<longrightarrow> healthy srv \<and> list_all c_live (ds_pool s) \<and> (in_list srv p x s \<or> can_add srv (ds_db s) p x))"

definition add_result :: "server \<Rightarrow> int \<Rightarrow> song \<Rightarrow> bool \<Rightarrow> bool outcome \<Rightarrow> dao_state \<Rightarrow> bool" where
  "add_result srv p x W r s \<longleftrightarrow>
     r \<in> {Ok True, Ok False, Raised SqlException} \<and> (r = Ok True \<or> W \<longrightarrow> in_list srv p x s)"

inductive adding :: "server \<Rightarrow> int \<Rightarrow> song \<Rightarrow> bool \<Rightarrow> nat option \<Rightarrow> (dao_state, bool) task \<Rightarrow> dao_state \<Rightarrow> bool"
  for srv p x W where
  Start: "adding srv p x W None (addSong_task srv p x) s"
| Taken: "(W \<Longrightarrow> c_live c) \<Longrightarrow> adding srv p x W (Some (c_id c)) (guarded c False (add_body srv p x c)) s"
| Missing: "(W \<Longrightarrow> c_live c) \<Longrightarrow> adding srv p x W (Some (c_id c)) (guarded c False (add_tail srv p x c)) s"
| Ending: "(W \<Longrightarrow> c_live c) \<Longrightarrow> add_result srv p x W r s \<Longrightarrow>
    adding srv p x W (Some (c_id c)) (guarded c False (Done r)) s"
| Finished: "add_result srv p x W r s \<Longrightarrow> r \<noteq> Raised SqlException \<Longrightarrow> adding srv p x W None (Done r) s"

definition keeps_song :: "server \<Rightarrow> int \<Rightarrow> song \<Rightarrow> dao_state \<Rightarrow> dao_state \<Rightarrow> bool" where
  "keeps_song srv p x s s' \<longleftrightarrow> (in_list srv p x s \<longrightarrow> in_list srv p x s')"

lemma adding_stable:
  assumes "adding srv p x W h t s" and "keeps_song srv p x s s'"
  shows "adding srv p x W h t s'"
proof -
  have "add_result srv p x W r s'" if "add_result srv p x W r s" for r
    using that assms(2) by (auto simp: add_result_def keeps_song_def)
  with assms(1) show ?thesis
    by (cases rule: adding.cases) (auto simp del: guarded.simps intro: adding.intros)
qed

lemma in_with_song [simp]: "new_song_key srv x \<in> with_song srv p x K p"
  by (simp add: with_song_def)

lemma with_song_idem [simp]: "with_song srv p x (with_song srv p x K) = with_song srv p x K"
  by (simp add: with_song_def)

lemma count_call:
  assumes "jdbc srv c (count_songs (song_is srv p (so_song_id x) (so_where x))) s = (r, s')"
    and "add_inv srv p x K W s" and "W \<Longrightarrow> c_live c"
  shows "ds_pool s' = ds_pool s \<and> ds_db s' = ds_db s \<and>
    (r = Raised SqlException \<and> \<not> W \<or>
     (\<exists>n. r = Ok [n] \<and> (0 < n \<longleftrightarrow> in_list srv p x s)))"
proof -
  have "r \<noteq> Raised SqlException" if W
    using assms that jdbc_healthy [of srv c "count_songs (song_is srv p (so_song_id x) (so_where x))" s]
    by (auto simp: add_inv_def count_songs_def)
  with assms(1) show ?thesis
    by (cases rule: jdbc_cases)
      (auto simp: count_songs_def in_keys_iff filter_empty_conv)
qed


lemma insert_call_song:
  assumes "jdbc srv c (insert_song srv (c_id c) p (so_song_id x) (so_name x) (so_singer x)
      (null_if_empty (so_pic x)) (so_where x)) s = (r, s')"
    and inv: "add_inv srv p x K W s" and live: "W \<Longrightarrow> c_live c"
  shows "ds_pool s' = ds_pool s \<and> add_inv srv p x K W s' \<and> keeps_song srv p x s s' \<and>
    (r = Ok 1 \<or> r = Raised SqlException) \<and> (r = Ok 1 \<or> W \<longrightarrow> in_list srv p x s')"
proof -
  let ?st = "insert_song srv (c_id c) p (so_song_id x) (so_name x) (so_singer x)
      (null_if_empty (so_pic x)) (so_where x)"
  have ok: "schema_ok srv (ds_db s')"
    using preservesD_eq [OF jdbc_preserves [OF insert_song_keeps] _ assms(1)] inv by (simp add: add_inv_def)
  have K: "with_song srv p x (keys_in srv (ds_db s)) \<in> {K, with_song srv p x K}"
    using inv by (auto simp: add_inv_def)
  have stored: "in_list srv p x s'" if W "\<not> in_list srv p x s"
  proof -
    have "can_add srv (ds_db s) p x" "healthy srv" using inv that by (auto simp: add_inv_def)
    moreover obtain d' where "?st (ds_tick s) (ds_db s) = (Inr 1, d')"
      "keys_in srv d' = with_song srv p x (keys_in srv (ds_db s))"
      using insert_song_ok [OF calculation(1)] unfolding with_song_def by blast
    ultimately show ?thesis
      using jdbc_healthy [of srv c ?st s] live [OF that(1)] assms(1) by auto
  qed
  have "ds_pool s' = ds_pool s \<and> keys_in srv (ds_db s') \<in> {keys_in srv (ds_db s), with_song srv p x (keys_in srv (ds_db s))} \<and>
      (r = Ok 1 \<or> r = Raised SqlException) \<and> (r = Ok 1 \<longrightarrow> in_list srv p x s')"
    using assms(1)
  proof (cases rule: jdbc_cases)
    case (ok y d)
    from ok(2) show ?thesis by (cases rule: insert_song_cases) (use ok in simp_all)
  next
    case (refused e d)
    from refused(2) show ?thesis by (cases rule: insert_song_cases) (use refused in simp_all)
  next
    case (lost y d)
    from lost(2) show ?thesis by (cases rule: insert_song_cases) (use lost in simp_all)
  qed simp
  moreover from this have "keeps_song srv p x s s'" by (auto simp: keeps_song_def with_song_def)
  ultimately show ?thesis using ok K stored inv by (auto simp: add_inv_def keeps_song_def)
qed

lemma adding_acts:
  assumes "adding srv p x W h (Atom f) s" and inv: "add_inv srv p x K W s"
    and take: "h \<noteq> None \<or> ds_pool s \<noteq> []" and f: "f s = (t, s')"
  shows "\<exists>h'. adding srv p x W h' t s' \<and> moves h h' (pool_ids (ds_pool s)) (pool_ids (ds_pool s')) \<and>
    add_inv srv p x K W s' \<and> keeps_song srv p x s s'"
  using assms(1)
proof (cases rule: adding.cases)
  case Start
  then obtain c q where q: "ds_pool s = c # q" using take by (cases "ds_pool s") auto
  let ?c = "refresh (my_driver srv) (ds_tick s) c"
  have "t = guarded ?c False (add_body srv p x ?c)" "s' = s\<lparr>ds_pool := q, ds_tick := Suc (ds_tick s)\<rparr>"
    using Start q f by (simp_all add: addSong_task_def dao_task_def getConnection_def Let_def)
  moreover have "W \<Longrightarrow> c_live ?c" using inv q by (simp add: add_inv_def healthy_def refresh_def)
  ultimately show ?thesis
    using adding.Taken [of W ?c srv p x s'] Start q inv
    by (intro exI [of _ "Some (c_id ?c)"]) (simp add: moves_def add_inv_def keeps_song_def del: guarded.simps)
next
  case (Taken c)
  obtain r s1 where call: "jdbc srv c (count_songs (song_is srv p (so_song_id x) (so_where x))) s = (r, s1)"
    by fastforce
  note eff = count_call [OF call inv Taken(3)]
  have eq: "(t, s') = (guarded c False (case r of
        Ok y \<Rightarrow> if (case y of n # _ \<Rightarrow> 0 < n | [] \<Rightarrow> False) then Done (Ok True) else add_tail srv p x c
      | Raised e \<Rightarrow> Done (Raised e) | Undefined \<Rightarrow> Done Undefined), s1)"
    using Taken(2) f call by (auto simp: add_body_def stmt_def split: outcome.splits)
  consider (failed) "r = Raised SqlException" "\<not> W" | (there) n where "r = Ok [n]" "0 < n" "in_list srv p x s"
    | (missing) n where "r = Ok [n]" "\<not> 0 < n"
    using eff by blast
  then have "adding srv p x W (Some (c_id c)) t s'"
  proof cases
    case missing
    with adding.Missing [OF Taken(3)] eq show ?thesis by (simp del: guarded.simps)
  qed (use eq eff Taken(3) in \<open>auto simp: add_result_def simp del: guarded.simps intro!: adding.Ending\<close>)
  then show ?thesis using eff eq Taken(1) inv by (auto simp: moves_def keeps_song_def add_inv_def)
next
  case (Missing c)
  obtain r s1 where call: "jdbc srv c (insert_song srv (c_id c) p (so_song_id x) (so_name x) (so_singer x)
      (null_if_empty (so_pic x)) (so_where x)) s = (r, s1)" by fastforce
  note eff = insert_call_song [OF call inv Missing(3)]
  have eq: "(t, s') = (guarded c False (case r of Ok y \<Rightarrow> Done (Ok (0 < y))
      | Raised e \<Rightarrow> Done (Raised e) | Undefined \<Rightarrow> Done Undefined), s1)"
    using Missing(2) f call by (auto simp: add_tail_def stmt_def split: outcome.splits)
  have "adding srv p x W (Some (c_id c)) t s'"
    using eff eq Missing(3) by (auto simp: add_result_def simp del: guarded.simps intro!: adding.Ending)
  then show ?thesis using eff eq Missing(1) by (auto simp: moves_def)
next
  case (Ending c r)
  let ?r = "if r = Raised SqlException then Ok False else r"
  have eq: "t = Done ?r" "s' = s\<lparr>ds_pool := releaseConnection c (ds_pool s)\<rparr>"
    using Ending(2) f by simp_all
  then have "adding srv p x W None t s'"
    using Ending(4) by (auto simp: add_result_def intro!: adding.Finished)
  then show ?thesis using Ending(1,3) eq inv
    by (intro exI [of _ None]) (auto simp: moves_def releaseConnection_def keeps_song_def add_inv_def)
qed

lemma adding_starves:
  assumes "adding srv p x W h (Atom f) s" and "h = None" and "ds_pool s = []" and "f s = (t, s')"
  shows "t = Done Undefined \<and> ds_pool s' = [] \<and> ds_db s' = ds_db s"
  using assms(1)
proof (cases rule: adding.cases)
  case Start
  then show ?thesis using assms(3,4) by (auto simp: addSong_task_def dao_task_def getConnection_def Let_def)
qed (use assms(2) in simp_all)

lemma adding_done:
  assumes "adding srv p x W h (Done r) s"
  shows "r \<in> {Ok True, Ok False} \<and> (r = Ok True \<or> W \<longrightarrow> in_list srv p x s)"
  using assms
proof (cases rule: adding.cases)
  case Finished
  then show ?thesis by (auto simp: add_result_def)
qed (simp_all add: addSong_task_def dao_task_def del: guarded.simps)

interpretation additions: connection_threads "\<lambda>_ _. adding srv p x W" "\<lambda>h. h" ds_pool "add_inv srv p x K W"
  "\<lambda>_. keeps_song srv p x" "\<lambda>_ _. True" "\<lambda>_. False" "\<lambda>_. True" "\<lambda>_. False" for srv p x K W
proof (unfold_locales, goal_cases)
  case (1 b i g f s t s')
  show ?case
  proof (cases "g = None \<and> ds_pool s = []")
    case True
    then have "t = Done Undefined \<and> ds_pool s' = [] \<and> ds_db s' = ds_db s"
      using adding_starves [OF 1(1) _ _ 1(3)] by blast
    with True 1(2) show ?thesis by (simp add: add_inv_def keeps_song_def)
  next
    case False
    then have "g \<noteq> None \<or> ds_pool s \<noteq> []" by simp
    from adding_acts [OF 1(1,2) this 1(3)] show ?thesis by blast
  qed
next
  case (2 b j q u h s s')
  then show ?case by (blast intro: adding_stable)
qed simp_all

section \<open>Properties\<close>

text \<open>
  C13: any number of registrations at the same time, under any schedule and however the server fails:
  every one that reports success left in its caller's object the identifier of a row with its own name,
  address and password hash, though it asks for the identifier in a second statement, after the others
  may have inserted theirs; and two that succeed have different identifiers, names and addresses.
\<close>

theorem concurrent_creates:
  assumes "schema_ok srv (ds_db s)" and "distinct (pool_ids (ds_pool s))"
    and "run_schedule is (map (createUser_task srv evp) us, s) = (ts', s')"
    and "i < length us" and "ts' ! i = Done (Ok (True, u))"
  shows "u = (us ! i)\<lparr>us_id := us_id u\<rparr> \<and>
    (\<exists>t. stored_user srv evp (us ! i) t (us_id u) \<in> set (users (ds_db s'))) \<and>
    (\<forall>j v. j < length us \<longrightarrow> j \<noteq> i \<longrightarrow> ts' ! j = Done (Ok (True, v)) \<longrightarrow>
       us_id v \<noteq> us_id u \<and> \<not> same srv (us_username v) (us_username u) \<and>
       \<not> same srv (us_email v) (us_email u))"
proof -
  let ?M = "mset (pool_ids (ds_pool s))"
  have len: "length ts' = length us" and "registrations.together srv evp (nth us) ?M {i. at_moment is (map (createUser_task srv evp) us, s) i (\<lambda>_. False)} ts' s'"
    using registrations.together_run [where srv = srv and evp = evp and us = "nth us" and ?g0.0 = "(None, None)",
        OF assms(3,2,1)]
    by (simp_all add: creating.Start other_claims_def)
  then obtain g where ok: "schema_ok srv (ds_db s')"
    and th: "\<And>i. i < length us \<Longrightarrow> creating srv evp (us ! i) (g i) (ts' ! i) s' \<or> ts' ! i = Done Undefined"
    and pair: "\<And>i j. i < length us \<Longrightarrow> j < length us \<Longrightarrow> i \<noteq> j \<Longrightarrow> ts' ! i \<noteq> Done Undefined \<Longrightarrow>
      ts' ! j \<noteq> Done Undefined \<Longrightarrow> other_claims (g i) (g j)"
    unfolding registrations.together_def registrations.thread_or_crash_def len by blast
  have won: "snd (g j) = Some (us_id v) \<and> v = (us ! j)\<lparr>us_id := us_id v\<rparr> \<and>
      (\<exists>t. stored_user srv evp (us ! j) t (us_id v) \<in> set (users (ds_db s')))"
    if "j < length us" "ts' ! j = Done (Ok (True, v))" for j v
  proof -
    have "creating srv evp (us ! j) (g j) (Done (Ok (True, v))) s'" using th [OF that(1)] that(2) by simp
    then show ?thesis by (rule creating_won)
  qed
  have "us_id v \<noteq> us_id u \<and> \<not> same srv (us_username v) (us_username u) \<and> \<not> same srv (us_email v) (us_email u)"
    if "j < length us" "j \<noteq> i" "ts' ! j = Done (Ok (True, v))" for j v
  proof -
    note j = won [OF that(1,3)] and i = won [OF assms(4,5)]
    have ids: "us_id v \<noteq> us_id u"
      using pair [OF that(1) assms(4) that(2)] j i that(3) assms(5) by (auto simp: other_claims_def)
    obtain t t' where "stored_user srv evp (us ! j) t (us_id v) \<in> set (users (ds_db s'))"
      "stored_user srv evp (us ! i) t' (us_id u) \<in> set (users (ds_db s'))"
      using i j by blast
    with rows_apart [OF ok ids] i j ids show ?thesis by blast
  qed
  with won [OF assms(4,5)] show ?thesis by blast
qed


text \<open>The actions of a task on the concrete server\<close>

lemma demo_refresh [simp]: "refresh (my_driver demo_server) k c = c"
  by (simp add: refresh_def demo_server_def demo_driver_def)

lemma demo_jdbc:
  "c_live c \<Longrightarrow> jdbc demo_server c st s =
     (case st (ds_tick s) (ds_db s) of
        (Inl e, d) \<Rightarrow> (Raised SqlException, s\<lparr>ds_tick := Suc (ds_tick s), ds_db := d\<rparr>)
      | (Inr x, d) \<Rightarrow> (Ok x, s\<lparr>ds_tick := Suc (ds_tick s), ds_db := d\<rparr>))"
  by (rule jdbc_healthy) simp_all

lemmas demo_actions = dao_task_def getConnection_def stmt_def demo_jdbc releaseConnection_def burn_def Let_def

theorem concurrent_creates_witness:
  "\<exists>ts' s' u. run_schedule [0, 1, 1, 0, 1, 0, 0, 1]
     (map (createUser_task demo_server demo_evp) [demo_user, demo_user\<lparr>us_username := ''bob'', us_email := ''b@b.cc''\<rparr>],
      demo_dao) = (ts', s') \<and> ts' ! 0 = Done (Ok (True, u)) \<and> us_id u = 2 \<and>
     (\<exists>t. stored_user demo_server demo_evp demo_user t 2 \<in> set (users (ds_db s')))"
proof -
  let ?us = "[demo_user, demo_user\<lparr>us_username := ''bob'', us_email := ''b@b.cc''\<rparr>]"
  let ?ts = "map (createUser_task demo_server demo_evp) ?us"
  obtain ts' s' where r: "run_schedule [0, 1, 1, 0, 1, 0, 0, 1] (?ts, demo_dao) = (ts', s')" by fastforce
  have fin: "ts' ! 0 = Done (Ok (True, demo_user\<lparr>us_id := 2\<rparr>))"
    using r by (auto simp: createUser_task_def create_body_def create_tail_def demo_actions insert_user_def
        select_last_insert_id_def empty_db_def max_int_def)
  from concurrent_creates [OF _ _ r _ fin] r fin show ?thesis by (auto simp: schema_ok_empty)
qed

text \<open>
  C15: any number of requests that add one song to one playlist at the same time: under any schedule and
  however the server fails, no other playlist changes and this one gains at most that song, once; an
  answer \<open>true\<close> means that the song is in the playlist. When the server works, every connection of the
  pool is alive, there is one for every request, and the song can be added (the playlist exists, the
  source is one of the \<open>ENUM\<close>, the texts fit their columns, the counter of the identifiers is not
  used up, and the song is not there yet), then the song is in the playlist as soon as one of them has
  answered, whether it answered \<open>true\<close> or \<open>false\<close>, and no request ends in any other way.
\<close>

theorem concurrent_adds:
  assumes "schema_ok srv (ds_db s)" and "distinct (pool_ids (ds_pool s))"
    and "run_schedule is (replicate n (addSong_task srv p x), s) = (ts', s')"
  shows "schema_ok srv (ds_db s') \<and>
    keys_in srv (ds_db s') \<in> {keys_in srv (ds_db s),
      (keys_in srv (ds_db s))(p := insert (new_song_key srv x) (keys_in srv (ds_db s) p))} \<and>
    (Done (Ok True) \<in> set ts' \<longrightarrow> new_song_key srv x \<in> keys_in srv (ds_db s') p) \<and>
    (lists_good srv s \<and> can_add srv (ds_db s) p x \<and> n \<le> length (ds_pool s) \<longrightarrow>
      (\<forall>r. Done r \<in> set ts' \<longrightarrow> r \<in> {Ok True, Ok False} \<and> new_song_key srv x \<in> keys_in srv (ds_db s') p))"
proof -
  let ?M = "mset (pool_ids (ds_pool s))" and ?K = "keys_in srv (ds_db s)"
  let ?W = "lists_good srv s \<and> can_add srv (ds_db s) p x"
  have "add_inv srv p x ?K ?W s"
    using assms(1) by (auto simp: add_inv_def lists_good_def dao_good_def pool_live_def)
  from additions.together_run [where ?g0.0 = None, OF assms(3,2) this]
  have len: "length ts' = n" and "additions.together srv p x ?W ?K ?M
      {i. at_moment is (replicate n (addSong_task srv p x), s) i (\<lambda>_. False)} ts' s'"
    by (simp_all add: adding.Start)
  then have inv: "add_inv srv p x ?K ?W s'"
    and th: "\<And>i. i < n \<Longrightarrow> (\<exists>h. adding srv p x ?W h (ts' ! i) s') \<or> ts' ! i = Done Undefined \<and> size ?M < n"
    unfolding additions.together_def additions.thread_or_crash_def len simp_thms card_Collect_less_nat by blast+
  have done_in: "r \<in> {Ok True, Ok False} \<and> (r = Ok True \<or> ?W \<longrightarrow> in_list srv p x s') \<or>
      r = Undefined \<and> length (ds_pool s) < n"
    if "Done r \<in> set ts'" for r
  proof -
    from that obtain i where "i < n" "ts' ! i = Done r" using len by (metis in_set_conv_nth)
    with th [OF this(1)] consider h where "adding srv p x ?W h (Done r) s'" | "r = Undefined" "size ?M < n" by auto
    then show ?thesis by cases (use adding_done in \<open>blast, simp\<close>)
  qed
  show ?thesis
    using inv done_in done_in [of "Ok True"] by (fastforce simp: add_inv_def with_song_def)
qed

text \<open>Two requests on two connections that both count before either inserts\<close>

lemma two_adds:
  "\<exists>ts' s'. run_schedule [0, 1, 0, 1, 0, 1, 0, 1] (replicate 2 (addSong_task demo_server 1 demo_song), demo_lists) =
     (ts', s') \<and> ts' = [Done (Ok True), Done (Ok False)]"
  using demo_lists_good
  by (simp add: addSong_task_def add_body_def add_tail_def demo_actions insert_song_def count_songs_def
      demo_lists_def demo_db_def demo_song_def empty_db_def enum_value_def song_sources_def fits_opt_def
      null_if_empty_def max_int_def song_is_def numeral_2_eq_2)

theorem concurrent_adds_witness:
  "\<exists>s'. run_schedule [0, 1, 0, 1, 0, 1, 0, 1] (replicate 2 (addSong_task demo_server 1 demo_song), demo_lists) =
     ([Done (Ok True), Done (Ok False)], s') \<and>
     new_song_key demo_server demo_song \<in> keys_in demo_server (ds_db s') 1"
proof -
  obtain s' where r: "run_schedule [0, 1, 0, 1, 0, 1, 0, 1]
      (replicate 2 (addSong_task demo_server 1 demo_song), demo_lists) = ([Done (Ok True), Done (Ok False)], s')"
    using two_adds by blast
  from concurrent_adds [OF _ _ r] r show ?thesis by (auto simp: demo_db_ok demo_lists_def)
qed

end
