(* ===== verification/EventLoop.thy ===== *)
theory EventLoop
  imports Server Session
begin

text \<open>
  The event loop: the completion handlers of \<open>Server::doAccept\<close>, \<open>Session::doRead\<close> and
  \<open>Session::doWrite\<close>, run by the worker threads of the server, and \<open>Server::stop\<close> in another thread.
  A handler is run statement by statement, and the steps of the workers interleave in any order: an
  operation is outstanding from the statement that starts it on, and may complete while the handler
  that started it still runs. What a handler answers to a request is left open: how the requests of
  several workers meet in the database is the subject of the theories on workers, and how a signal
  that interrupts the main thread stops the server that of \<open>Shutdown\<close>.
\<close>

section \<open>State\<close>

text \<open>The asynchronous operations, and what they complete with\<close>

datatype async_op = Accept | Read nat | Write nat

datatype completion = Accepted bool | ReadDone nat read_result | WriteDone nat bool

fun op_of :: "completion \<Rightarrow> async_op" where
  "op_of (Accepted ok) = Accept"
| "op_of (ReadDone i x) = Read i"
| "op_of (WriteDone i ok) = Write i"

text \<open>
  A session: its two messages (\<open>None\<close>: a message just made), whether its sending side is shut down,
  and three logs that the code does not keep: the requests read, the answers computed and the request
  that the session then held, and the answers written completely.
\<close>

record loop_session =
  ls_request :: "http_request option"
  ls_response :: "http_response option"
  ls_shut :: bool
  ls_read :: "http_request list"
  ls_handled :: "(http_request option \<times> http_response) list"
  ls_sent :: "(http_request option \<times> http_response option) list"

definition new_session :: loop_session where
  "new_session = \<lparr>ls_request = None, ls_response = None, ls_shut = False, ls_read = [], ls_handled = [],
     ls_sent = []\<rparr>"

text \<open>The statements of the handlers; \<open>MakeSession\<close> is \<open>make_shared<Session>(...)->run()\<close>.\<close>

datatype statement =
    MakeSession | DoAccept | HandleRequest nat | DoWrite nat | ShutdownSend nat | ClearRequest nat | DoRead nat

text \<open>What is left to run of a handler; \<open>IfEof\<close> branches on \<open>m_request.need_eof()\<close>.\<close>

datatype code = Return | Then statement code | IfEof nat code code

datatype worker = Idle | Busy code | Exited

text \<open>How the program goes on: an exception that leaves a handler ends it, undefined behaviour too.\<close>

datatype fate = Alive | ExnEnded | UbEnded

record loop =
  lp_running :: bool
  lp_acceptor :: bool
  lp_stopped :: bool
  lp_pending :: "async_op list"
  lp_sessions :: "loop_session list"
  lp_workers :: "worker list"
  lp_fate :: fate

text \<open>The loop when \<open>run\<close> has started the workers\<close>

definition loop_of :: "server_object \<Rightarrow> loop" where
  "loop_of s =
     \<lparr>lp_running = se_running s, lp_acceptor = se_acceptor s, lp_stopped = se_ioc_stopped s,
      lp_pending = (if se_accepting s then [Accept] else []), lp_sessions = [],
      lp_workers = map (\<lambda>_. Idle) (se_threads s), lp_fate = Alive\<rparr>"

section \<open>The completion handlers\<close>

definition on_accept :: "bool \<Rightarrow> code" where
  "on_accept ok = (if ok then Then MakeSession (Then DoAccept Return) else Then DoAccept Return)"

definition on_read :: "nat \<Rightarrow> read_result \<Rightarrow> code" where
  "on_read i x =
     (case x of
        Request req \<Rightarrow> Then (HandleRequest i) (Then (DoWrite i) Return)
      | _ \<Rightarrow> Return)"

definition on_write :: "nat \<Rightarrow> bool \<Rightarrow> code" where
  "on_write i ok =
     (if \<not> ok then Return
      else IfEof i (Then (ShutdownSend i) Return) (Then (ClearRequest i) (Then (DoRead i) Return)))"

fun handler_code :: "completion \<Rightarrow> code" where
  "handler_code (Accepted ok) = on_accept ok"
| "handler_code (ReadDone i x) = on_read i x"
| "handler_code (WriteDone i ok) = on_write i ok"

section \<open>Statements\<close>

abbreviation on_session :: "nat \<Rightarrow> (loop_session \<Rightarrow> loop_session) \<Rightarrow> loop \<Rightarrow> loop" where
  "on_session i f s \<equiv> s\<lparr>lp_sessions := (lp_sessions s)[i := f (lp_sessions s ! i)]\<rparr>"

definition async_accept :: "loop \<Rightarrow> loop" where
  "async_accept s = (if \<not> lp_running s then s else s\<lparr>lp_pending := Accept # lp_pending s\<rparr>)"

definition async_read :: "nat \<Rightarrow> loop \<Rightarrow> loop" where
  "async_read i s = s\<lparr>lp_pending := Read i # lp_pending s\<rparr>"

definition async_write :: "nat \<Rightarrow> loop \<Rightarrow> loop" where
  "async_write i s = s\<lparr>lp_pending := Write i # lp_pending s\<rparr>"

text \<open>What an operation has done when it completes: a read has stored its message, a write has sent its own.\<close>

fun completes :: "completion \<Rightarrow> loop \<Rightarrow> loop" where
  "completes (ReadDone i (Request req)) s =
     on_session i (\<lambda>c. c\<lparr>ls_request := Some req, ls_read := ls_read c @ [req]\<rparr>) s"
| "completes (WriteDone i True) s =
     on_session i (\<lambda>c. c\<lparr>ls_sent := ls_sent c @ [(ls_request c, ls_response c)]\<rparr>) s"
| "completes x s = s"

text \<open>\<open>r\<close> is the outcome of the router for the message that the session holds.\<close>

fun exec :: "statement \<Rightarrow> http_response outcome \<Rightarrow> loop \<Rightarrow> loop" where
  "exec MakeSession r s =
     async_read (length (lp_sessions s)) (s\<lparr>lp_sessions := lp_sessions s @ [new_session]\<rparr>)"
| "exec DoAccept r s = async_accept s"
| "exec (HandleRequest i) r s =
     (case r of
        Ok res \<Rightarrow>
          on_session i (\<lambda>c. c\<lparr>ls_response := Some res, ls_handled := ls_handled c @ [(ls_request c, res)]\<rparr>) s
      | Raised e \<Rightarrow> s\<lparr>lp_fate := ExnEnded\<rparr>
      | Undefined \<Rightarrow> s\<lparr>lp_fate := UbEnded\<rparr>)"
| "exec (DoWrite i) r s = async_write i s"
| "exec (ShutdownSend i) r s = on_session i (\<lambda>c. c\<lparr>ls_shut := True\<rparr>) s"
| "exec (ClearRequest i) r s = on_session i (\<lambda>c. c\<lparr>ls_request := None\<rparr>) s"
| "exec (DoRead i) r s = async_read i s"

definition need_eof :: "nat \<Rightarrow> loop \<Rightarrow> bool" where
  "need_eof i s = (case ls_request (lp_sessions s ! i) of Some req \<Rightarrow> rq_need_eof req | None \<Rightarrow> False)"

text \<open>One step of a handler, and a whole handler without interruption; an exception leaves it.\<close>

fun step_code :: "code \<Rightarrow> http_response outcome \<Rightarrow> loop \<Rightarrow> code \<times> loop" where
  "step_code Return r s = (Return, s)"
| "step_code (Then st c) r s = (let s' = exec st r s in (if lp_fate s' = Alive then c else Return, s'))"
| "step_code (IfEof i c d) r s = (if need_eof i s then c else d, s)"

fun run_code :: "code \<Rightarrow> http_response outcome \<Rightarrow> loop \<Rightarrow> loop" where
  "run_code Return r s = s"
| "run_code (Then st c) r s = (let s' = exec st r s in if lp_fate s' = Alive then run_code c r s' else s')"
| "run_code (IfEof i c d) r s = (if need_eof i s then run_code c r s else run_code d r s)"

fun resume :: "code \<Rightarrow> worker" where
  "resume Return = Idle"
| "resume c = Busy c"

section \<open>Steps\<close>

text \<open>
  A worker takes a completed operation, as long as the loop is not stopped; it runs the next statement
  of its handler; it leaves a stopped loop. Another thread closes the acceptor, stops the loop and joins
  the workers.
\<close>

inductive lstep :: "loop \<Rightarrow> loop \<Rightarrow> bool" where
  Start: "lp_fate s = Alive \<Longrightarrow> \<not> lp_stopped s \<Longrightarrow> k < length (lp_workers s) \<Longrightarrow> lp_workers s ! k = Idle \<Longrightarrow>
    op_of c \<in> set (lp_pending s) \<Longrightarrow>
    lstep s (completes c (s\<lparr>lp_workers := (lp_workers s)[k := resume (handler_code c)],
      lp_pending := remove1 (op_of c) (lp_pending s)\<rparr>))"
| Work: "lp_fate s = Alive \<Longrightarrow> k < length (lp_workers s) \<Longrightarrow> lp_workers s ! k = Busy c \<Longrightarrow>
    step_code c r s = (d, t) \<Longrightarrow> lstep s (t\<lparr>lp_workers := (lp_workers s)[k := resume d]\<rparr>)"
| Exit: "lp_fate s = Alive \<Longrightarrow> lp_stopped s \<Longrightarrow> k < length (lp_workers s) \<Longrightarrow> lp_workers s ! k = Idle \<Longrightarrow>
    lstep s (s\<lparr>lp_workers := (lp_workers s)[k := Exited]\<rparr>)"
| Close: "lp_fate s = Alive \<Longrightarrow> lp_running s \<Longrightarrow> lp_acceptor s \<Longrightarrow> lstep s (s\<lparr>lp_acceptor := False\<rparr>)"
| Stop: "lp_fate s = Alive \<Longrightarrow> lp_running s \<Longrightarrow> \<not> lp_acceptor s \<Longrightarrow> \<not> lp_stopped s \<Longrightarrow>
    lstep s (s\<lparr>lp_stopped := True\<rparr>)"
| Join: "lp_fate s = Alive \<Longrightarrow> lp_running s \<Longrightarrow> lp_stopped s \<Longrightarrow> set (lp_workers s) \<subseteq> {Exited} \<Longrightarrow>
    lstep s (s\<lparr>lp_workers := [], lp_running := False\<rparr>)"

section \<open>What every order of steps keeps\<close>

text \<open>The session that the next step of a handler reads or writes\<close>

fun touches :: "statement \<Rightarrow> nat option" where
  "touches MakeSession = None"
| "touches DoAccept = None"
| "touches (HandleRequest i) = Some i"
| "touches (DoWrite i) = Some i"
| "touches (ShutdownSend i) = Some i"
| "touches (ClearRequest i) = Some i"
| "touches (DoRead i) = Some i"

fun next_touch :: "code \<Rightarrow> nat option" where
  "next_touch Return = None"
| "next_touch (Then st c) = touches st"
| "next_touch (IfEof i c d) = Some i"

fun will_accept :: "code \<Rightarrow> bool" where
  "will_accept Return = False"
| "will_accept (Then st c) = (st = DoAccept \<or> will_accept c)"
| "will_accept (IfEof i c d) = (will_accept c \<or> will_accept d)"

text \<open>Where the control is: an operation that is outstanding, or what a worker has left to run\<close>

datatype point = Out async_op | Run code

fun owner :: "point \<Rightarrow> nat option" where
  "owner (Out Accept) = None"
| "owner (Out (Read i)) = Some i"
| "owner (Out (Write i)) = Some i"
| "owner (Run c) = next_touch c"

fun working :: "worker \<Rightarrow> point list" where
  "working (Busy c) = [Run c]"
| "working w = []"

definition points :: "loop \<Rightarrow> point multiset" where
  "points s = image_mset Out (mset (lp_pending s)) + mset (concat (map working (lp_workers s)))"

lemma mset_concat_update:
  "k < length ws \<Longrightarrow> mset (concat (map f (ws[k := x]))) + mset (f (ws ! k)) =
     mset (concat (map f ws)) + mset (f x)"
proof (induction ws arbitrary: k)
  case (Cons w ws)
  then show ?case by (cases k) (simp_all add: ac_simps)
qed simp

lemma points_worker:
  assumes "k < length (lp_workers s)"
  shows "points (s\<lparr>lp_workers := (lp_workers s)[k := w]\<rparr>) + mset (working (lp_workers s ! k)) =
    points s + mset (working w)"
  using mset_concat_update [OF assms, of working w] by (simp add: points_def add.assoc)

text \<open>All requests answered; one read and not yet answered; one answered and not yet written\<close>

definition answered :: "loop_session \<Rightarrow> bool" where
  "answered c \<longleftrightarrow> map fst (ls_handled c) = map Some (ls_read c) \<and> map (map_prod id Some) (ls_handled c) = ls_sent c"

definition asked :: "loop_session \<Rightarrow> bool" where
  "asked c \<longleftrightarrow> (\<exists>req rs. ls_read c = rs @ [req] \<and> ls_request c = Some req \<and>
     map fst (ls_handled c) = map Some rs \<and> map (map_prod id Some) (ls_handled c) = ls_sent c)"

definition answering :: "loop_session \<Rightarrow> bool" where
  "answering c \<longleftrightarrow> map fst (ls_handled c) = map Some (ls_read c) \<and>
     (\<exists>res hs. ls_handled c = hs @ [(ls_request c, res)] \<and> ls_response c = Some res \<and>
        map (map_prod id Some) hs = ls_sent c)"

definition logged :: "loop_session \<Rightarrow> bool" where
  "logged c \<longleftrightarrow> answered c \<or> asked c \<or> answering c"

text \<open>What holds of a session at each point of its control\<close>

definition phase :: "point \<Rightarrow> nat \<Rightarrow> loop_session \<Rightarrow> bool" where
  "phase p i c \<longleftrightarrow>
     p \<in> {Out (Read i), Run (on_write i True), Run (Then (ShutdownSend i) Return),
       Run (Then (ClearRequest i) (Then (DoRead i) Return)), Run (Then (DoRead i) Return)} \<and> answered c \<or>
     p = Run (Then (HandleRequest i) (Then (DoWrite i) Return)) \<and> asked c \<or>
     p \<in> {Run (Then (DoWrite i) Return), Out (Write i)} \<and> answering c"

text \<open>One session and the points of its control; \<open>None\<close>: there is no such session.\<close>

fun session_ok :: "nat \<Rightarrow> point multiset \<Rightarrow> loop_session option \<Rightarrow> bool" where
  "session_ok i M None = (M = {#})"
| "session_ok i M (Some c) = (M = {#} \<and> logged c \<or> (\<exists>p. M = {#p#} \<and> phase p i c))"

definition nth_session :: "loop_session list \<Rightarrow> nat \<Rightarrow> loop_session option" where
  "nth_session ss i = (if i < length ss then Some (ss ! i) else None)"

abbreviation owned :: "nat option \<Rightarrow> point multiset \<Rightarrow> point multiset" where
  "owned v T \<equiv> filter_mset (\<lambda>p. owner p = v) T"

definition sessions_ok :: "point multiset \<Rightarrow> loop_session list \<Rightarrow> bool" where
  "sessions_ok T ss \<longleftrightarrow> (\<forall>i. session_ok i (owned (Some i) T) (nth_session ss i))"

definition accepting :: "point multiset \<Rightarrow> bool" where
  "accepting T \<longleftrightarrow> (\<exists>p \<in> {Out Accept, Run (on_accept True), Run (on_accept False)}. owned None T = {#p#})"

definition loop_ok :: "loop \<Rightarrow> bool" where
  "loop_ok s \<longleftrightarrow> (if lp_running s then accepting (points s) else lp_workers s = []) \<and>
     sessions_ok (points s) (lp_sessions s)"

lemma nth_session_update:
  "nth_session (ss[i := c]) j = (if j = i \<and> i < length ss then Some c else nth_session ss j)"
  by (auto simp: nth_session_def)

lemma nth_session_snoc:
  "nth_session (ss @ [c]) j = (if j = length ss then Some c else nth_session ss j)"
  by (auto simp: nth_session_def nth_append)

lemma nth_session_end [simp]: "nth_session ss (length ss) = None"
  by (simp add: nth_session_def)

lemma phase_logged: "phase p i c \<Longrightarrow> logged c"
  by (auto simp: phase_def logged_def)

lemma phase_owner: "phase p i c \<Longrightarrow> owner p = Some i"
  by (auto simp: phase_def on_write_def)

lemma session_ok_logged: "session_ok i M (Some c) \<Longrightarrow> logged c"
  by (auto intro: phase_logged)

lemma session_ok_size: "session_ok i M v \<Longrightarrow> size M \<le> 1"
  by (cases v) auto

text \<open>The point that a step leaves is the only one of its session.\<close>

lemma sessions_ok_alone:
  assumes "sessions_ok (add_mset p T) ss" and "owner p = Some i"
  shows "i < length ss" "owned (Some i) T = {#}" "phase p i (ss ! i)"
proof -
  have ok: "session_ok i (owned (Some i) (add_mset p T)) (nth_session ss i)"
    using assms(1) by (simp only: sessions_ok_def)
  show "i < length ss"
  proof (rule ccontr)
    assume "\<not> i < length ss"
    with ok assms(2) show False by (simp add: nth_session_def)
  qed
  with ok assms(2) show "owned (Some i) T = {#}" "phase p i (ss ! i)"
    by (auto simp: nth_session_def)
qed

text \<open>It goes on to another one of the session, or to none.\<close>

lemma sessions_ok_next:
  assumes "sessions_ok (add_mset p T) ss" and "owner p = Some i" and "phase q i c"
  shows "sessions_ok (add_mset q T) (ss[i := c])"
  unfolding sessions_ok_def
proof
  fix j
  have "session_ok j (owned (Some j) (add_mset p T)) (nth_session ss j)"
    using assms(1) by (simp only: sessions_ok_def)
  then show "session_ok j (owned (Some j) (add_mset q T)) (nth_session (ss[i := c]) j)"
    using sessions_ok_alone [OF assms(1,2)] assms(2,3) phase_owner [OF assms(3)]
    by (cases "j = i") (simp_all add: nth_session_update)
qed

lemma sessions_ok_last:
  assumes "sessions_ok (add_mset p T) ss" and "owner p = Some i" and "logged c"
  shows "sessions_ok T (ss[i := c])"
  unfolding sessions_ok_def
proof
  fix j
  have "session_ok j (owned (Some j) (add_mset p T)) (nth_session ss j)"
    using assms(1) by (simp only: sessions_ok_def)
  then show "session_ok j (owned (Some j) T) (nth_session (ss[i := c]) j)"
    using sessions_ok_alone [OF assms(1,2)] assms(2,3)
    by (cases "j = i") (simp_all add: nth_session_update)
qed

lemma sessions_ok_none [simp]: "owner p = None \<Longrightarrow> sessions_ok (add_mset p T) ss = sessions_ok T ss"
  by (simp add: sessions_ok_def)

lemma sessions_ok_new:
  assumes "sessions_ok T ss"
  shows "sessions_ok (add_mset (Out (Read (length ss))) T) (ss @ [new_session])"
  unfolding sessions_ok_def
proof
  fix j
  have "session_ok j (owned (Some j) T) (nth_session ss j)"
    using assms by (simp only: sessions_ok_def)
  then show "session_ok j (owned (Some j) (add_mset (Out (Read (length ss))) T)) (nth_session (ss @ [new_session]) j)"
    by (cases "j = length ss")
      (auto simp: nth_session_snoc phase_def new_session_def answered_def)
qed

section \<open>The handlers keep it\<close>

lemma answered_simps [simp]:
  "answered (c\<lparr>ls_request := v\<rparr>) = answered c" "answered (c\<lparr>ls_shut := b\<rparr>) = answered c"
  by (simp_all add: answered_def)

lemma answering_written:
  "answering c \<Longrightarrow> answered (c\<lparr>ls_sent := ls_sent c @ [(ls_request c, ls_response c)]\<rparr>)"
  by (auto simp: answering_def answered_def)

lemma answered_asked: "answered c \<Longrightarrow> asked (c\<lparr>ls_request := Some req, ls_read := ls_read c @ [req]\<rparr>)"
  by (auto simp: answered_def asked_def)

lemma asked_handled:
  "asked c \<Longrightarrow> answering (c\<lparr>ls_response := Some res, ls_handled := ls_handled c @ [(ls_request c, res)]\<rparr>)"
  by (auto simp: asked_def answering_def)

lemma points_simps [simp]:
  "points (s\<lparr>lp_sessions := ss\<rparr>) = points s" "points (s\<lparr>lp_fate := x\<rparr>) = points s"
  "points (s\<lparr>lp_acceptor := b\<rparr>) = points s" "points (s\<lparr>lp_stopped := b\<rparr>) = points s"
  "points (s\<lparr>lp_running := b\<rparr>) = points s"
  "points (async_read i s) = add_mset (Out (Read i)) (points s)"
  "points (async_write i s) = add_mset (Out (Write i)) (points s)"
  "points (async_accept s) = (if lp_running s then add_mset (Out Accept) (points s) else points s)"
  by (simp_all add: points_def async_read_def async_write_def async_accept_def)

lemma async_simps [simp]:
  "lp_sessions (async_read i s) = lp_sessions s" "lp_sessions (async_write i s) = lp_sessions s"
  "lp_sessions (async_accept s) = lp_sessions s" "lp_running (async_read i s) = lp_running s"
  "lp_running (async_write i s) = lp_running s" "lp_running (async_accept s) = lp_running s"
  "lp_fate (async_read i s) = lp_fate s" "lp_fate (async_write i s) = lp_fate s"
  "lp_fate (async_accept s) = lp_fate s" "lp_workers (async_read i s) = lp_workers s"
  "lp_workers (async_write i s) = lp_workers s" "lp_workers (async_accept s) = lp_workers s"
  "lp_stopped (async_read i s) = lp_stopped s" "lp_stopped (async_write i s) = lp_stopped s"
  "lp_stopped (async_accept s) = lp_stopped s"
  by (simp_all add: async_read_def async_write_def async_accept_def)

lemma code_cases:
  assumes "loop_ok s" and "lp_running s" and "points s = add_mset (Run c) T"
  obtains (accepted) "c = on_accept True" "owned None T = {#}"
  | (refused) "c = on_accept False" "owned None T = {#}"
  | (session) i where "owner (Run c) = Some i" "phase (Run c) i (lp_sessions s ! i)" "accepting T"
proof (cases "owner (Run c)")
  case None
  from assms obtain p where "p \<in> {Out Accept, Run (on_accept True), Run (on_accept False)}"
    "owned None (add_mset (Run c) T) = {#p#}"
    by (auto simp: loop_ok_def accepting_def)
  with None that(1,2) show thesis by (auto simp: on_accept_def split: if_splits)
next
  case (Some i)
  have "sessions_ok (add_mset (Run c) T) (lp_sessions s)" "accepting (add_mset (Run c) T)"
    using assms by (simp_all add: loop_ok_def)
  with sessions_ok_alone(3) [OF this(1) Some] Some that(3) show thesis by (simp add: accepting_def)
qed

lemma busy_points:
  assumes "k < length (lp_workers s)" and "lp_workers s ! k = Busy c"
  shows "points s = add_mset (Run c) (points (s\<lparr>lp_workers := (lp_workers s)[k := Idle]\<rparr>))"
  using points_worker [OF assms(1), of Idle] assms(2) by simp

lemma worked_points:
  assumes "lp_workers t = lp_workers s" and "k < length (lp_workers s)" and "lp_workers s ! k = Busy c"
    and "points t = N + add_mset (Run c) T"
  shows "points (t\<lparr>lp_workers := (lp_workers s)[k := w]\<rparr>) = N + T + mset (working w)"
  using points_worker [of k t w] assms by simp

lemma exec_frame [simp]:
  "lp_workers (exec st r s) = lp_workers s" "lp_running (exec st r s) = lp_running s"
  "lp_stopped (exec st r s) = lp_stopped s" "lp_acceptor (exec st r s) = lp_acceptor s"
  by (cases st; simp add: async_accept_def async_read_def async_write_def split: outcome.splits)+

lemma step_code_frame:
  "step_code c r s = (d, t) \<Longrightarrow> lp_workers t = lp_workers s \<and> lp_running t = lp_running s \<and>
     lp_stopped t = lp_stopped s \<and> lp_acceptor t = lp_acceptor s"
  by (cases c) (auto simp: Let_def split: if_splits)

text \<open>Each statement of a handler hands the session on to one point, or leaves it.\<close>

lemma session_step:
  assumes "sessions_ok (add_mset (Run c) T) (lp_sessions s)" and "owner (Run c) = Some i"
    and "step_code c r s = (d, t)" and "lp_fate s = Alive" and "points s = add_mset (Run c) T"
  shows "\<exists>N. points t = N + add_mset (Run c) T \<and> owned None (N + mset (working (resume d))) = {#} \<and>
    sessions_ok (N + T + mset (working (resume d))) (lp_sessions t)"
proof -
  note alone = sessions_ok_alone [OF assms(1,2)]
  note nxt = sessions_ok_next [OF assms(1,2)] and lst = sessions_ok_last [OF assms(1,2)]
  let ?c = "lp_sessions s ! i"
  have same: "(lp_sessions s)[i := ?c] = lp_sessions s" by simp
  consider (tested) "c = on_write i True" "answered ?c"
    | (shut) "c = Then (ShutdownSend i) Return" "answered ?c"
    | (clear) "c = Then (ClearRequest i) (Then (DoRead i) Return)" "answered ?c"
    | (read) "c = Then (DoRead i) Return" "answered ?c"
    | (handle) "c = Then (HandleRequest i) (Then (DoWrite i) Return)" "asked ?c"
    | (send) "c = Then (DoWrite i) Return" "answering ?c"
    using alone(3) by (auto simp: phase_def)
  then show ?thesis
  proof cases
    case tested
    have "sessions_ok (add_mset (Run d) T) (lp_sessions s)"
      using nxt [of "Run d" ?c] tested assms(3) same by (auto simp: phase_def on_write_def split: if_splits)
    with tested assms(3,5) show ?thesis
      by (intro exI [of _ "{#}"]) (auto simp: on_write_def split: if_splits)
  next
    case shut
    have "sessions_ok T ((lp_sessions s)[i := ?c\<lparr>ls_shut := True\<rparr>])"
      using shut by (intro lst) (simp add: logged_def)
    with shut assms(3-5) show ?thesis by (intro exI [of _ "{#}"]) (auto simp: Let_def)
  next
    case clear
    have "sessions_ok (add_mset (Run (Then (DoRead i) Return)) T) ((lp_sessions s)[i := ?c\<lparr>ls_request := None\<rparr>])"
      using clear by (intro nxt) (simp add: phase_def)
    with clear assms(3-5) show ?thesis by (intro exI [of _ "{#}"]) (auto simp: Let_def)
  next
    case read
    have "sessions_ok (add_mset (Out (Read i)) T) (lp_sessions s)"
      using nxt [of "Out (Read i)" ?c] read same by (simp add: phase_def)
    with read assms(3-5) show ?thesis
      by (intro exI [of _ "{#Out (Read i)#}"]) (auto simp: Let_def)
  next
    case handle
    show ?thesis
    proof (cases r)
      case (Ok res)
      have "sessions_ok (add_mset (Run (Then (DoWrite i) Return)) T) ((lp_sessions s)[i :=
          ?c\<lparr>ls_response := Some res, ls_handled := ls_handled ?c @ [(ls_request ?c, res)]\<rparr>])"
        using handle asked_handled by (intro nxt) (simp add: phase_def)
      with handle Ok assms(3-5) show ?thesis by (intro exI [of _ "{#}"]) (auto simp: Let_def)
    qed (use handle assms(3-5) lst [of ?c] same in \<open>auto simp: Let_def logged_def intro!: exI [of _ "{#}"]\<close>)
  next
    case send
    have "sessions_ok (add_mset (Out (Write i)) T) (lp_sessions s)"
      using nxt [of "Out (Write i)" ?c] send same by (simp add: phase_def)
    with send assms(3-5) show ?thesis
      by (intro exI [of _ "{#Out (Write i)#}"]) (auto simp: Let_def)
  qed
qed

lemma owned_none_add: "owned None N = {#} \<Longrightarrow> owned None (N + T) = owned None T"
  by simp

lemma work_ok:
  assumes "loop_ok s" and "lp_fate s = Alive" and "k < length (lp_workers s)" and "lp_workers s ! k = Busy c"
    and "step_code c r s = (d, t)"
  shows "loop_ok (t\<lparr>lp_workers := (lp_workers s)[k := resume d]\<rparr>)"
proof -
  let ?T = "points (s\<lparr>lp_workers := (lp_workers s)[k := Idle]\<rparr>)"
  have P: "points s = add_mset (Run c) ?T" by (rule busy_points [OF assms(3,4)])
  have run: "lp_running s" using assms(1,3) by (auto simp: loop_ok_def split: if_splits)
  note frame = step_code_frame [OF assms(5)]
  note after = worked_points [OF conjunct1 [OF frame] assms(3,4)]
  have ok: "sessions_ok (add_mset (Run c) ?T) (lp_sessions s)" using assms(1) P by (simp add: loop_ok_def)
  from assms(1) run P show ?thesis
  proof (cases rule: code_cases)
    case accepted
    have "points (t\<lparr>lp_workers := (lp_workers s)[k := resume d]\<rparr>) =
        {#Out (Read (length (lp_sessions s)))#} + ?T + {#Run (on_accept False)#}"
      using after [of "{#Out (Read (length (lp_sessions s)))#}" ?T "resume d"] accepted assms(2,5) P
      by (auto simp: on_accept_def Let_def)
    moreover have "sessions_ok (add_mset (Out (Read (length (lp_sessions s)))) ?T) (lp_sessions s @ [new_session])"
      using ok accepted by (intro sessions_ok_new) (simp add: on_accept_def)
    ultimately show ?thesis
      using accepted assms(2,5) frame run
      by (auto simp: loop_ok_def accepting_def on_accept_def Let_def)
  next
    case refused
    have "points (t\<lparr>lp_workers := (lp_workers s)[k := resume d]\<rparr>) = {#Out Accept#} + ?T"
      using after [of "{#Out Accept#}" ?T "resume d"] refused assms(2,5) P run
      by (auto simp: on_accept_def Let_def)
    then show ?thesis
      using refused assms(2,5) frame run ok by (auto simp: loop_ok_def accepting_def on_accept_def Let_def)
  next
    case (session i)
    from session_step [OF ok session(1) assms(5,2) P] obtain N where N: "points t = N + add_mset (Run c) ?T"
      "owned None (N + mset (working (resume d))) = {#}"
      "sessions_ok (N + ?T + mset (working (resume d))) (lp_sessions t)" by blast
    from N(2) session(3) have "accepting (N + ?T + mset (working (resume d)))"
      by (auto simp: accepting_def)
    with after [OF N(1)] N(3) frame run show ?thesis by (simp add: loop_ok_def)
  qed
qed

lemma completes_frame [simp]:
  "lp_workers (completes c s) = lp_workers s" "lp_running (completes c s) = lp_running s"
  "lp_stopped (completes c s) = lp_stopped s" "lp_acceptor (completes c s) = lp_acceptor s"
  "lp_fate (completes c s) = lp_fate s" "points (completes c s) = points s"
  "lp_pending (completes c s) = lp_pending s"
  by (cases "(c, s)" rule: completes.cases; simp add: points_def)+

lemma start_ok:
  assumes "loop_ok s" and "k < length (lp_workers s)" and "lp_workers s ! k = Idle"
    and "op_of c \<in> set (lp_pending s)"
  shows "loop_ok (completes c (s\<lparr>lp_workers := (lp_workers s)[k := resume (handler_code c)],
      lp_pending := remove1 (op_of c) (lp_pending s)\<rparr>))" (is "loop_ok ?s'")
proof -
  let ?u = "s\<lparr>lp_pending := remove1 (op_of c) (lp_pending s)\<rparr>"
  let ?T = "points ?u" and ?W = "mset (working (resume (handler_code c)))"
  have P: "points s = add_mset (Out (op_of c)) ?T"
    using assms(4) by (simp add: points_def flip: image_mset_add_mset)
  have P': "points ?s' = ?T + ?W"
    using points_worker [of k ?u "resume (handler_code c)"] assms(2,3) by (simp add: points_def)
  have run: "lp_running s" using assms(1,2) by (auto simp: loop_ok_def split: if_splits)
  have ok: "sessions_ok (add_mset (Out (op_of c)) ?T) (lp_sessions s)" "accepting (add_mset (Out (op_of c)) ?T)"
    using assms(1) P run by (simp_all add: loop_ok_def)
  note nxt = sessions_ok_next [OF ok(1)] and lst = sessions_ok_last [OF ok(1)] and alone = sessions_ok_alone [OF ok(1)]
  show ?thesis
  proof (cases c)
    case (Accepted b)
    then show ?thesis using ok P' run by (cases b) (auto simp: loop_ok_def accepting_def on_accept_def)
  next
    case (ReadDone i x)
    let ?c = "lp_sessions s ! i"
    have a: "answered ?c" using alone(3) [of i] ReadDone by (simp add: phase_def)
    show ?thesis
    proof (cases x)
      case (Request req)
      have "sessions_ok (add_mset (Run (on_read i x)) ?T)
          ((lp_sessions s)[i := ?c\<lparr>ls_request := Some req, ls_read := ls_read ?c @ [req]\<rparr>])"
        using ReadDone Request answered_asked [OF a] by (intro nxt) (simp_all add: phase_def on_read_def)
      then show ?thesis using ok(2) P' run ReadDone Request
        by (simp add: loop_ok_def accepting_def on_read_def)
    qed (use ok(2) P' run ReadDone a lst [of i ?c] in \<open>simp_all add: loop_ok_def accepting_def on_read_def logged_def\<close>)
  next
    case (WriteDone i b)
    let ?c = "lp_sessions s ! i"
    have a: "answering ?c" using alone(3) [of i] WriteDone by (simp add: phase_def)
    show ?thesis
    proof (cases b)
      case True
      have "sessions_ok (add_mset (Run (on_write i b)) ?T)
          ((lp_sessions s)[i := ?c\<lparr>ls_sent := ls_sent ?c @ [(ls_request ?c, ls_response ?c)]\<rparr>])"
        using WriteDone True answering_written [OF a] by (intro nxt) (simp_all add: phase_def)
      then show ?thesis using ok(2) P' run WriteDone True
        by (simp add: loop_ok_def accepting_def on_write_def)
    next
      case False
      with ok(2) P' run WriteDone a lst [of i ?c] show ?thesis
        by (simp add: loop_ok_def accepting_def on_write_def logged_def)
    qed
  qed
qed

lemma loop_ok_cong:
  "points s' = points s \<Longrightarrow> lp_sessions s' = lp_sessions s \<Longrightarrow> lp_running s' = lp_running s \<Longrightarrow>
   lp_workers s' = [] \<longleftrightarrow> lp_workers s = [] \<Longrightarrow> loop_ok s' = loop_ok s"
  by (simp add: loop_ok_def)

lemma lstep_ok:
  assumes "lstep s s'" and "loop_ok s"
  shows "loop_ok s'"
  using assms(1)
proof (cases rule: lstep.cases)
  case (Start k c)
  then show ?thesis using start_ok [OF assms(2)] by blast
next
  case (Work k c r d t)
  then show ?thesis using work_ok [OF assms(2)] by blast
next
  case (Exit k)
  then have "points s' = points s" using points_worker [OF Exit(4), of Exited] by simp
  then show ?thesis using loop_ok_cong [of s' s] Exit(1) assms(2) by simp
next
  case Join
  have "concat (map working (lp_workers s)) = []" using Join(5) by (auto simp: concat_eq_Nil_conv)
  then have "points s' = points s" using Join(1) by (simp add: points_def)
  then show ?thesis using Join(1) assms(2) by (simp add: loop_ok_def)
qed (use assms(2) in \<open>simp_all add: loop_ok_def\<close>)

lemma loop_ok_start: "se_accepting s \<Longrightarrow> se_running s \<Longrightarrow> loop_ok (loop_of s)"
  by (simp add: loop_ok_def loop_of_def points_def sessions_ok_def nth_session_def accepting_def o_def
      concat_eq_Nil_conv)

lemma reachable_ok: "lstep\<^sup>*\<^sup>* s s' \<Longrightarrow> loop_ok s \<Longrightarrow> loop_ok s'"
  by (induction rule: rtranclp_induct) (auto intro: lstep_ok)

section \<open>One session, driven by its network\<close>

text \<open>One worker serves the session \<open>i\<close>: a completed read, its write, and so on, as \<open>session\<close> has it.\<close>

definition complete :: "completion \<Rightarrow> http_response outcome \<Rightarrow> loop \<Rightarrow> loop" where
  "complete c r s =
     run_code (handler_code c) r (completes c (s\<lparr>lp_pending := remove1 (op_of c) (lp_pending s)\<rparr>))"

fun drive :: "env \<Rightarrow> (exn \<Rightarrow> string) \<Rightarrow> router \<Rightarrow> nat \<Rightarrow> (chance \<times> exchange) list \<Rightarrow> loop \<Rightarrow> world \<Rightarrow> loop \<times> world" where
  "drive env what rt i [] s w = (s, w)"
| "drive env what rt i ((ch, x, written) # rest) s w =
     (if lp_fate s = Alive \<and> Read i \<in> set (lp_pending s) then
        (case (case x of Request req \<Rightarrow> handleRequest env what rt ch req w | _ \<Rightarrow> (Undefined, w)) of
           (r, w') \<Rightarrow>
             (let s1 = complete (ReadDone i x) r s in
              if lp_fate s1 = Alive \<and> Write i \<in> set (lp_pending s1)
              then drive env what rt i rest (complete (WriteDone i written) Undefined s1) w'
              else (s1, w')))
      else (s, w))"

text \<open>A session between two requests\<close>

definition between :: "nat \<Rightarrow> loop \<Rightarrow> bool" where
  "between i s \<longleftrightarrow> lp_fate s = Alive \<and> i < length (lp_sessions s) \<and> count_list (lp_pending s) (Read i) = 1 \<and>
     Write i \<notin> set (lp_pending s) \<and> \<not> ls_shut (lp_sessions s ! i)"

lemma run_code_frame [simp]:
  "lp_workers (run_code c r s) = lp_workers s" "lp_stopped (run_code c r s) = lp_stopped s"
  by (induction c r s rule: run_code.induct) (simp_all add: Let_def)

lemma exec_workers: "exec st r (s\<lparr>lp_workers := ws\<rparr>) = (exec st r s)\<lparr>lp_workers := ws\<rparr>"
  by (cases st) (simp_all add: async_accept_def async_read_def async_write_def split: outcome.splits)

lemma resume_Busy: "c \<noteq> Return \<Longrightarrow> resume c = Busy c"
  by (cases c) simp_all

text \<open>A worker that is not interrupted runs its handler to the end.\<close>

lemma run_code_steps:
  assumes "lp_fate s = Alive" and "k < length ws" and "ws ! k = resume c"
  shows "lstep\<^sup>*\<^sup>* (s\<lparr>lp_workers := ws\<rparr>) ((run_code c r s)\<lparr>lp_workers := ws[k := Idle]\<rparr>)"
  using assms
proof (induction c r s arbitrary: ws rule: run_code.induct)
  case (1 r s)
  then show ?case using list_update_id [of ws k] by simp
next
  case (2 st c r s)
  let ?t = "exec st r s"
  let ?d = "if lp_fate ?t = Alive then c else Return"
  have step: "lstep (s\<lparr>lp_workers := ws\<rparr>) (?t\<lparr>lp_workers := ws[k := resume ?d]\<rparr>)"
    using lstep.Work [of "s\<lparr>lp_workers := ws\<rparr>" k "Then st c" r] "2.prems" by (simp add: Let_def exec_workers)
  show ?case
  proof (cases "lp_fate ?t = Alive")
    case True
    with "2.IH" [OF refl True True, of "ws[k := resume c]"] "2.prems"
    have "lstep\<^sup>*\<^sup>* (?t\<lparr>lp_workers := ws[k := resume ?d]\<rparr>) ((run_code c r ?t)\<lparr>lp_workers := ws[k := Idle]\<rparr>)"
      by simp
    with step True show ?thesis by (simp add: Let_def converse_rtranclp_into_rtranclp)
  next
    case False
    with step show ?thesis by (simp add: Let_def r_into_rtranclp)
  qed
next
  case (3 i c d r s)
  let ?d = "if need_eof i s then c else d"
  have step: "lstep (s\<lparr>lp_workers := ws\<rparr>) (s\<lparr>lp_workers := ws[k := resume ?d]\<rparr>)"
    using lstep.Work [of "s\<lparr>lp_workers := ws\<rparr>" k "IfEof i c d" r] "3.prems" by (simp add: need_eof_def)
  have "lstep\<^sup>*\<^sup>* (s\<lparr>lp_workers := ws[k := resume ?d]\<rparr>) ((run_code ?d r s)\<lparr>lp_workers := ws[k := Idle]\<rparr>)"
    using "3.IH" [of "ws[k := resume ?d]"] "3.prems" by (cases "need_eof i s") simp_all
  with step show ?case by (simp add: converse_rtranclp_into_rtranclp split: if_splits)
qed

lemma complete_steps:
  assumes "lp_fate s = Alive" and "\<not> lp_stopped s" and "k < length (lp_workers s)" and "lp_workers s ! k = Idle"
    and "op_of c \<in> set (lp_pending s)"
  shows "lstep\<^sup>*\<^sup>* s (complete c r s)"
proof -
  let ?u = "s\<lparr>lp_pending := remove1 (op_of c) (lp_pending s)\<rparr>"
  let ?ws = "(lp_workers s)[k := resume (handler_code c)]"
  have "completes c (s\<lparr>lp_workers := ?ws, lp_pending := remove1 (op_of c) (lp_pending s)\<rparr>) =
      (completes c ?u)\<lparr>lp_workers := ?ws\<rparr>"
    by (cases "(c, s)" rule: completes.cases) simp_all
  with lstep.Start [OF assms] have "lstep s ((completes c ?u)\<lparr>lp_workers := ?ws\<rparr>)" by simp
  moreover have "lstep\<^sup>*\<^sup>* ((completes c ?u)\<lparr>lp_workers := ?ws\<rparr>)
      ((run_code (handler_code c) r (completes c ?u))\<lparr>lp_workers := ?ws[k := Idle]\<rparr>)"
    using assms by (intro run_code_steps) simp_all
  moreover have "(run_code (handler_code c) r (completes c ?u))\<lparr>lp_workers := ?ws[k := Idle]\<rparr> = complete c r s"
    using assms(3,4) list_update_id [of "lp_workers s" k] by (simp add: complete_def)
  ultimately show ?thesis by (metis converse_rtranclp_into_rtranclp)
qed

lemma count_list_remove1: "count_list (remove1 x xs) y = count_list xs y - (if x = y then 1 else 0)"
  unfolding count_mset [symmetric] mset_remove1 count_diff count_single by (simp only: eq_commute)

lemma not_in_remove1: "count_list xs x = 1 \<Longrightarrow> x \<notin> set (remove1 x xs)"
  using count_list_remove1 [of x xs x] count_list_0_iff [of "remove1 x xs" x] by simp

lemma complete_frame:
  "lp_workers (complete c r s) = lp_workers s" "lp_stopped (complete c r s) = lp_stopped s"
  by (simp_all add: complete_def)

definition writing :: "nat \<Rightarrow> http_request \<Rightarrow> http_response \<Rightarrow> loop \<Rightarrow> bool" where
  "writing i req res s \<longleftrightarrow> lp_fate s = Alive \<and> i < length (lp_sessions s) \<and> Read i \<notin> set (lp_pending s) \<and>
     count_list (lp_pending s) (Write i) = 1 \<and> \<not> ls_shut (lp_sessions s ! i) \<and>
     ls_request (lp_sessions s ! i) = Some req \<and> ls_response (lp_sessions s ! i) = Some res"

definition over :: "nat \<Rightarrow> fate \<Rightarrow> bool \<Rightarrow> loop \<Rightarrow> bool" where
  "over i f b s \<longleftrightarrow> lp_fate s = f \<and> Read i \<notin> set (lp_pending s) \<and> Write i \<notin> set (lp_pending s) \<and>
     ls_shut (lp_sessions s ! i) = b"

abbreviation sent :: "nat \<Rightarrow> loop \<Rightarrow> (http_request option \<times> http_response option) list" where
  "sent i s \<equiv> ls_sent (lp_sessions s ! i)"

lemmas complete_defs = complete_def on_read_def on_write_def need_eof_def async_write_def async_read_def Let_def

lemma read_ok:
  "between i s \<Longrightarrow> writing i req res (complete (ReadDone i (Request req)) (Ok res) s) \<and>
     sent i (complete (ReadDone i (Request req)) (Ok res) s) = sent i s"
  using not_in_remove1 [of "lp_pending s" "Read i"]
  by (auto simp: between_def writing_def complete_defs count_list_remove1 dest: notin_set_remove1)

lemma read_fails:
  "between i s \<Longrightarrow> (\<And>res. r \<noteq> Ok res) \<Longrightarrow>
   over i (case r of Raised e \<Rightarrow> ExnEnded | _ \<Rightarrow> UbEnded) False (complete (ReadDone i (Request req)) r s) \<and>
     sent i (complete (ReadDone i (Request req)) r s) = sent i s"
  using not_in_remove1 [of "lp_pending s" "Read i"]
  by (cases r) (auto simp: between_def over_def complete_defs dest: notin_set_remove1)

lemma read_closes:
  "between i s \<Longrightarrow> x = EndOfStream \<or> x = ReadError \<Longrightarrow>
   over i Alive False (complete (ReadDone i x) r s) \<and> sent i (complete (ReadDone i x) r s) = sent i s"
  using not_in_remove1 [of "lp_pending s" "Read i"]
  by (auto simp: between_def over_def complete_defs dest: notin_set_remove1)

lemma write_fails:
  "writing i req res s \<Longrightarrow>
   over i Alive False (complete (WriteDone i False) r s) \<and> sent i (complete (WriteDone i False) r s) = sent i s"
  using not_in_remove1 [of "lp_pending s" "Write i"]
  by (auto simp: writing_def over_def complete_defs dest: notin_set_remove1)

lemma write_shuts:
  "writing i req res s \<Longrightarrow> rq_need_eof req \<Longrightarrow>
   over i Alive True (complete (WriteDone i True) r s) \<and>
     sent i (complete (WriteDone i True) r s) = sent i s @ [(Some req, Some res)]"
  using not_in_remove1 [of "lp_pending s" "Write i"]
  by (auto simp: writing_def over_def complete_defs dest: notin_set_remove1)

lemma write_goes_on:
  "writing i req res s \<Longrightarrow> \<not> rq_need_eof req \<Longrightarrow>
   between i (complete (WriteDone i True) r s) \<and>
     sent i (complete (WriteDone i True) r s) = sent i s @ [(Some req, Some res)]"
  using not_in_remove1 [of "lp_pending s" "Write i"]
  by (auto simp: writing_def between_def complete_defs count_notin dest: notin_set_remove1)

fun fate_of :: "session_end \<Rightarrow> fate" where
  "fate_of Terminated = ExnEnded"
| "fate_of Crashed = UbEnded"
| "fate_of fin = Alive"

lemma drive_over: "over i f b s \<Longrightarrow> drive env what rt i xs s w = (s, w)"
  by (cases "(env, what, rt, i, xs, s, w)" rule: drive.cases) (auto simp: over_def)

lemma drive_session:
  assumes "between i s" and "session env what rt xs w = (out, fin, w')"
  shows "\<exists>t. drive env what rt i xs s w = (t, w') \<and> lp_fate t = fate_of fin \<and>
    (fin = Reading \<longleftrightarrow> lp_fate t = Alive \<and> Read i \<in> set (lp_pending t)) \<and>
    (fin = ShutDown \<longleftrightarrow> ls_shut (lp_sessions t ! i)) \<and>
    map snd (sent i t) = map snd (sent i s) @ map Some out"
  using assms
proof (induction xs arbitrary: s w out)
  case Nil
  then have "Read i \<in> set (lp_pending s)"
    by (metis between_def count_notin zero_neq_one)
  with Nil show ?case by (auto simp: between_def)
next
  case (Cons y ys)
  obtain ch x written where y: "y = (ch, x, written)" by (cases y) auto
  have rd: "Read i \<in> set (lp_pending s)" "lp_fate s = Alive"
    using Cons.prems(1) by (metis between_def count_notin zero_neq_one) (use Cons.prems(1) in \<open>simp add: between_def\<close>)
  show ?case
  proof (cases x)
    case (Request req)
    obtain r v where h: "handleRequest env what rt ch req w = (r, v)" by fastforce
    let ?s1 = "complete (ReadDone i (Request req)) r s"
    show ?thesis
    proof (cases r)
      case (Ok res)
      note s1 = read_ok [OF Cons.prems(1), of req res]
      have wr: "Write i \<in> set (lp_pending ?s1)" "lp_fate ?s1 = Alive"
        using s1 Ok by (metis writing_def count_notin zero_neq_one, simp add: writing_def)
      let ?s2 = "complete (WriteDone i written) Undefined ?s1"
      have run: "drive env what rt i (y # ys) s w = drive env what rt i ys ?s2 v"
        using y Request h rd wr by simp
      consider (lost) "\<not> written" | (shut) "written" "rq_need_eof req" | (on) "written" "\<not> rq_need_eof req"
        by blast
      then show ?thesis
      proof cases
        case lost
        with write_fails [of i req res ?s1 Undefined] s1 Ok
        have e: "over i Alive False ?s2" "sent i ?s2 = sent i s" by simp_all
        show ?thesis using run drive_over [OF e(1)] e Cons.prems(2) lost y Request h Ok by (auto simp: over_def)
      next
        case shut
        with write_shuts [of i req res ?s1 Undefined] s1 Ok
        have e: "over i Alive True ?s2" "sent i ?s2 = sent i s @ [(Some req, Some res)]" by simp_all
        show ?thesis using run drive_over [OF e(1)] e Cons.prems(2) shut y Request h Ok by (auto simp: over_def)
      next
        case on
        with write_goes_on [of i req res ?s1 Undefined] s1 Ok
        have e: "between i ?s2" "sent i ?s2 = sent i s @ [(Some req, Some res)]" by simp_all
        obtain out2 where o: "session env what rt ys v = (out2, fin, w')" "out = res # out2"
          using Cons.prems(2) on y Request h Ok by (auto split: prod.splits)
        from Cons.IH [OF e(1) o(1)] run e(2) o(2) show ?thesis by auto
      qed
    next
      case (Raised e)
      with read_fails [OF Cons.prems(1), of r req] have e: "over i ExnEnded False ?s1" "sent i ?s1 = sent i s"
        by simp_all
      then show ?thesis using Cons.prems(2) y Request h Raised rd by (auto simp: over_def Let_def)
    next
      case Undefined
      with read_fails [OF Cons.prems(1), of r req] have e: "over i UbEnded False ?s1" "sent i ?s1 = sent i s"
        by simp_all
      then show ?thesis using Cons.prems(2) y Request h Undefined rd by (auto simp: over_def Let_def)
    qed
  next
    case EndOfStream
    with read_closes [OF Cons.prems(1), of x Undefined] Cons.prems(2) y rd show ?thesis
      by (auto simp: over_def Let_def)
  next
    case ReadError
    with read_closes [OF Cons.prems(1), of x Undefined] Cons.prems(2) y rd show ?thesis
      by (auto simp: over_def Let_def)
  qed
qed


lemma drive_steps:
  assumes "\<not> lp_stopped s" and "k < length (lp_workers s)" and "lp_workers s ! k = Idle"
  shows "lstep\<^sup>*\<^sup>* s (fst (drive env what rt i xs s w))"
  using assms
proof (induction env what rt i xs s w rule: drive.induct)
  case (2 env what rt i ch x written rest s w)
  obtain r v where h: "(case x of Request req \<Rightarrow> handleRequest env what rt ch req w | _ \<Rightarrow> (Undefined, w)) = (r, v)"
    by fastforce
  let ?s1 = "complete (ReadDone i x) r s"
  let ?s2 = "complete (WriteDone i written) Undefined ?s1"
  show ?case
  proof (cases "lp_fate s = Alive \<and> Read i \<in> set (lp_pending s)")
    case True
    have step1: "lstep\<^sup>*\<^sup>* s ?s1" using complete_steps [of s k "ReadDone i x" r] "2.prems" True by simp
    show ?thesis
    proof (cases "lp_fate ?s1 = Alive \<and> Write i \<in> set (lp_pending ?s1)")
      case True1: True
      have "lstep\<^sup>*\<^sup>* ?s1 ?s2"
        using complete_steps [of ?s1 k "WriteDone i written" Undefined] "2.prems" True1
        by (simp add: complete_frame)
      moreover have "lstep\<^sup>*\<^sup>* ?s2 (fst (drive env what rt i rest ?s2 v))"
        using "2.IH" [OF True h [symmetric] refl True1] "2.prems" by (simp add: complete_frame)
      moreover have "drive env what rt i ((ch, x, written) # rest) s w = drive env what rt i rest ?s2 v"
        using True True1 h by (auto simp: Let_def)
      ultimately show ?thesis using step1 by (metis rtranclp_trans)
    next
      case False
      then have "drive env what rt i ((ch, x, written) # rest) s w = (?s1, v)"
        using True h by (auto simp: Let_def)
      with step1 show ?thesis by simp
    qed
  qed auto
qed simp


text \<open>A session that is logged has written the answers it computed to the requests it read.\<close>

lemma logged_in_order:
  assumes "logged c"
  shows "(\<exists>n \<le> 1. map fst (ls_handled c) = map Some (take (length (ls_read c) - n) (ls_read c))) \<and>
    (\<exists>n \<le> 1. ls_sent c = map (map_prod id Some) (take (length (ls_handled c) - n) (ls_handled c)))"
  using assms unfolding logged_def
proof (elim disjE)
  assume "answered c"
  then show ?thesis by (intro conjI exI [of _ 0]) (simp_all add: answered_def)
next
  assume "asked c"
  then have "map fst (ls_handled c) = map Some (take (length (ls_read c) - 1) (ls_read c))"
    "ls_sent c = map (map_prod id Some) (take (length (ls_handled c) - 0) (ls_handled c))"
    by (auto simp: asked_def)
  then show ?thesis by (metis le_numeral_extra(1,3,4) zero_le_one le_refl)
next
  assume "answering c"
  then have "map fst (ls_handled c) = map Some (take (length (ls_read c) - 0) (ls_read c))"
    "ls_sent c = map (map_prod id Some) (take (length (ls_handled c) - 1) (ls_handled c))"
    by (auto simp: answering_def)
  then show ?thesis by (metis le_numeral_extra(1,3,4) zero_le_one le_refl)
qed

section \<open>Properties\<close>

lemma run_started:
  assumes "new_server True n = Ok s" and "0 \<le> n" and "run_start s = (r, s1)"
  shows "se_accepting s1 \<and> se_running s1 \<and> se_acceptor s1 \<and> \<not> se_ioc_stopped s1 \<and>
    length (se_threads s1) = nat n"
  using assms by (auto simp: new_server_def run_start_def doAccept_def Let_def)

text \<open>The accepts outstanding, and the handlers that have yet to start the next one\<close>

definition accepts :: "loop \<Rightarrow> nat" where
  "accepts s = count_list (lp_pending s) Accept +
     length (filter (\<lambda>w. case w of Busy c \<Rightarrow> will_accept c | _ \<Rightarrow> False) (lp_workers s))"

text \<open>A worker whose next statement reads or writes the session \<open>i\<close>, or starts an operation on it\<close>

definition about_to_touch :: "loop \<Rightarrow> nat \<Rightarrow> nat \<Rightarrow> bool" where
  "about_to_touch s k i \<longleftrightarrow> k < length (lp_workers s) \<and>
     (case lp_workers s ! k of Busy c \<Rightarrow> next_touch c = Some i | _ \<Rightarrow> False)"

lemma accepts_points:
  "accepts s = size (filter_mset (\<lambda>p. p = Out Accept \<or> (\<exists>c. p = Run c \<and> will_accept c)) (points s))"
proof -
  have "size (filter_mset (\<lambda>p. p = Out Accept \<or> (\<exists>c. p = Run c \<and> will_accept c)) (image_mset Out (mset os))) =
      count_list os Accept" for os
    by (induction os) auto
  moreover have "size (filter_mset (\<lambda>p. p = Out Accept \<or> (\<exists>c. p = Run c \<and> will_accept c))
      (mset (concat (map working ws)))) =
      length (filter (\<lambda>w. case w of Busy c \<Rightarrow> will_accept c | _ \<Rightarrow> False) ws)" for ws
  proof (induction ws)
    case (Cons w ws)
    then show ?case by (cases w) auto
  qed simp
  ultimately show ?thesis by (simp add: accepts_def points_def)
qed

lemma one_accept:
  assumes "loop_ok s" and "lp_running s"
  shows "accepts s = 1"
proof -
  let ?a = "\<lambda>p. p = Out Accept \<or> (\<exists>c. p = Run c \<and> will_accept c)"
  have ok: "sessions_ok (points s) (lp_sessions s)" "accepting (points s)"
    using assms by (simp_all add: loop_ok_def)
  have "owner p = None" if p: "p \<in># points s" "?a p" for p
  proof (rule ccontr)
    assume "owner p \<noteq> None"
    then obtain i where i: "owner p = Some i" by blast
    obtain T where "points s = add_mset p T" using p(1) by (metis multi_member_split)
    with sessions_ok_alone(3) [OF _ i] ok(1) have "phase p i (lp_sessions s ! i)" by simp
    with p(2) show False by (auto simp: phase_def on_write_def)
  qed
  then have "filter_mset ?a (points s) = filter_mset ?a (owned None (points s))"
    unfolding filter_filter_mset by (intro filter_mset_cong refl) auto
  with ok(2) show ?thesis by (auto simp: accepts_points accepting_def on_accept_def)
qed

lemma touching_alone:
  assumes "loop_ok s" and "about_to_touch s k i"
  shows "Read i \<notin> set (lp_pending s)" and "Write i \<notin> set (lp_pending s)" and "about_to_touch s l i \<Longrightarrow> l = k"
proof -
  obtain c where c: "k < length (lp_workers s)" "lp_workers s ! k = Busy c" "owner (Run c) = Some i"
    using assms(2) by (auto simp: about_to_touch_def split: worker.splits)
  let ?u = "s\<lparr>lp_workers := (lp_workers s)[k := Idle]\<rparr>"
  have "sessions_ok (add_mset (Run c) (points ?u)) (lp_sessions s)"
    using assms(1) busy_points [OF c(1,2)] by (simp add: loop_ok_def)
  from sessions_ok_alone(2) [OF this c(3)] have none: "\<And>p. p \<in># points ?u \<Longrightarrow> owner p \<noteq> Some i"
    by auto
  from none [of "Out (Read i)"] none [of "Out (Write i)"]
  show "Read i \<notin> set (lp_pending s)" "Write i \<notin> set (lp_pending s)" by (auto simp: points_def)
  show "l = k" if l: "about_to_touch s l i"
  proof (rule ccontr)
    assume "l \<noteq> k"
    obtain d where d: "l < length (lp_workers s)" "lp_workers s ! l = Busy d" "owner (Run d) = Some i"
      using l by (auto simp: about_to_touch_def split: worker.splits)
    have "points ?u = add_mset (Run d) (points (?u\<lparr>lp_workers := (lp_workers ?u)[l := Idle]\<rparr>))"
      using d \<open>l \<noteq> k\<close> by (intro busy_points) simp_all
    with none [of "Run d"] d(3) show False by simp
  qed
qed

lemma one_operation:
  assumes "loop_ok s"
  shows "count_list (lp_pending s) (Read i) + count_list (lp_pending s) (Write i) \<le> 1"
proof -
  have "session_ok i (owned (Some i) (points s)) (nth_session (lp_sessions s) i)"
    using assms by (simp add: loop_ok_def sessions_ok_def)
  from session_ok_size [OF this] have "size (owned (Some i) (points s)) \<le> 1" .
  moreover have "size (owned (Some i) (image_mset Out (mset os))) = count_list os (Read i) + count_list os (Write i)" for os
  proof (induction os)
    case (Cons x os)
    then show ?case by (cases x) auto
  qed simp
  ultimately show ?thesis by (simp add: points_def)
qed

text \<open>
  C14: the workers need no lock for the sessions, in whatever order they take the completed operations and
  however the statements of their handlers interleave: when a handler is about to read or write a
  session, or to start an operation on it, no operation of that session is outstanding and no other
  worker is about to do so, so once a handler has started the next operation it does not touch the
  session any more. A session never has two operations outstanding. As long as the server runs, there is
  exactly one accept, outstanding or still to be started by the handler of the last, so it never stops
  accepting and never accepts twice. Each session answers the requests it read, each once and in their
  order, the last one possibly not yet; and it writes the answers, each once and in their order, the
  last one possibly not yet.
\<close>

theorem loop_discipline:
  assumes "new_server True n = Ok s" and "0 \<le> n" and "run_start s = (r, s1)" and "lstep\<^sup>*\<^sup>* (loop_of s1) t"
  shows "(\<forall>k i. about_to_touch t k i \<longrightarrow> Read i \<notin> set (lp_pending t) \<and> Write i \<notin> set (lp_pending t) \<and>
       (\<forall>l. about_to_touch t l i \<longrightarrow> l = k)) \<and>
    (\<forall>i. count_list (lp_pending t) (Read i) + count_list (lp_pending t) (Write i) \<le> 1) \<and>
    (lp_running t \<longrightarrow> accepts t = 1) \<and>
    (\<forall>c \<in> set (lp_sessions t).
       (\<exists>m \<le> 1. map fst (ls_handled c) = map Some (take (length (ls_read c) - m) (ls_read c))) \<and>
       (\<exists>m \<le> 1. ls_sent c = map (map_prod id Some) (take (length (ls_handled c) - m) (ls_handled c))))"
proof -
  have ok: "loop_ok t"
    using reachable_ok [OF assms(4)] loop_ok_start run_started [OF assms(1-3)] by blast
  have "logged c" if c: "c \<in> set (lp_sessions t)" for c
  proof -
    obtain i where i: "i < length (lp_sessions t)" "c = lp_sessions t ! i" using c by (metis in_set_conv_nth)
    have "session_ok i (owned (Some i) (points t)) (nth_session (lp_sessions t) i)"
      using ok by (simp add: loop_ok_def sessions_ok_def)
    with i have "session_ok i (owned (Some i) (points t)) (Some c)" by (simp only: nth_session_def if_True)
    then show ?thesis by (rule session_ok_logged)
  qed
  with logged_in_order one_accept [OF ok] one_operation [OF ok] touching_alone [OF ok] show ?thesis by blast
qed

definition demo_loop :: loop where
  "demo_loop = loop_of \<lparr>se_running = True, se_num_threads = 2, se_acceptor = True, se_accepting = True,
     se_guard = True, se_ioc_stopped = False, se_threads = [0, 1]\<rparr>"

lemma demo_loop_start: "\<exists>s s1. new_server True 2 = Ok s \<and> run_start s = (Ok (), s1) \<and> demo_loop = loop_of s1"
  by (simp add: new_server_def run_start_def doAccept_def demo_loop_def Let_def numeral_2_eq_2)

lemma demo_loop_simps [simp]:
  "lp_running demo_loop" "lp_acceptor demo_loop" "\<not> lp_stopped demo_loop" "lp_pending demo_loop = [Accept]"
  "lp_sessions demo_loop = []" "lp_workers demo_loop = [Idle, Idle]" "lp_fate demo_loop = Alive"
  by (simp_all add: demo_loop_def loop_of_def)

text \<open>One connection accepted: the session waits for its first request.\<close>

definition demo_accepted :: loop where
  "demo_accepted = complete (Accepted True) Undefined demo_loop"

lemma demo_accepted_simps [simp]:
  "lp_running demo_accepted" "lp_acceptor demo_accepted" "\<not> lp_stopped demo_accepted"
  "lp_pending demo_accepted = [Accept, Read 0]" "lp_sessions demo_accepted = [new_session]"
  "lp_workers demo_accepted = [Idle, Idle]" "lp_fate demo_accepted = Alive"
  by (simp_all add: demo_accepted_def complete_def on_accept_def async_accept_def async_read_def)

lemma demo_accepted_reached: "lstep\<^sup>*\<^sup>* demo_loop demo_accepted"
  unfolding demo_accepted_def by (rule complete_steps [of _ 0]) simp_all

theorem loop_discipline_witness:
  "\<exists>t. lstep\<^sup>*\<^sup>* demo_loop t \<and> about_to_touch t 1 0 \<and> Read 0 \<notin> set (lp_pending t) \<and> accepts t = 1"
proof -
  let ?t = "completes (ReadDone 0 (Request (demo_request [] ''x'')))
    (demo_accepted\<lparr>lp_workers := [Idle, Busy (on_read 0 (Request (demo_request [] ''x'')))], lp_pending := [Accept]\<rparr>)"
  have "lstep demo_accepted ?t"
    using lstep.Start [of demo_accepted 1 "ReadDone 0 (Request (demo_request [] ''x''))"]
    by (simp add: on_read_def)
  with demo_accepted_reached have reached: "lstep\<^sup>*\<^sup>* demo_loop ?t" by (rule rtranclp.rtrancl_into_rtrancl)
  have touch: "about_to_touch ?t 1 0" by (simp add: about_to_touch_def on_read_def)
  obtain s s1 where s: "new_server True 2 = Ok s" "run_start s = (Ok (), s1)" "demo_loop = loop_of s1"
    using demo_loop_start by blast
  from loop_discipline [OF s(1) _ s(2), of ?t] reached touch s(3)
  have "Read 0 \<notin> set (lp_pending ?t) \<and> accepts ?t = 1" by simp
  with reached touch show ?thesis by blast
qed

text \<open>
  C20: the completion handlers, driven by one connection, are the loop that the session is: for every
  sequence of requests and of results of the network, a session that waits for its next request writes
  exactly the responses of \<open>session\<close>, on the same state of the program, and is left as \<open>session\<close> says,
  waiting, closed, shut down, or with the program ended; and an idle worker can take these steps.
\<close>

theorem handlers_are_session:
  assumes "between i s" and "session env what rt xs w = (out, fin, w')" and "drive env what rt i xs s w = (t, v)"
  shows "v = w' \<and> lp_fate t = fate_of fin \<and>
    (fin = Reading \<longleftrightarrow> lp_fate t = Alive \<and> Read i \<in> set (lp_pending t)) \<and>
    (fin = ShutDown \<longleftrightarrow> ls_shut (lp_sessions t ! i)) \<and>
    map snd (ls_sent (lp_sessions t ! i)) = map snd (ls_sent (lp_sessions s ! i)) @ map Some out \<and>
    (\<not> lp_stopped s \<and> Idle \<in> set (lp_workers s) \<longrightarrow> lstep\<^sup>*\<^sup>* s t)"
proof -
  have "lstep\<^sup>*\<^sup>* s t" if "\<not> lp_stopped s" "Idle \<in> set (lp_workers s)"
  proof -
    from that(2) obtain k where "k < length (lp_workers s)" "lp_workers s ! k = Idle"
      by (metis in_set_conv_nth)
    with drive_steps [OF that(1), of k env what rt i xs w] assms(3) show ?thesis by simp
  qed
  then show ?thesis using drive_session [OF assms(1,2)] assms(3) by auto
qed

theorem handlers_are_session_witness:
  "\<exists>out fin w' t. session (demo_env Map.empty) (\<lambda>e. ''error'') (program_router (demo_env Map.empty) ''key'' JString)
       [(demo_chance 200, Request (demo_request [] ''x''), True), (demo_chance 200, EndOfStream, True)] demo_world =
       (out, fin, w') \<and>
     drive (demo_env Map.empty) (\<lambda>e. ''error'') (program_router (demo_env Map.empty) ''key'' JString) 0
       [(demo_chance 200, Request (demo_request [] ''x''), True), (demo_chance 200, EndOfStream, True)]
       demo_accepted demo_world = (t, w') \<and>
     map snd (ls_sent (lp_sessions t ! 0)) = map Some out \<and> lstep\<^sup>*\<^sup>* demo_accepted t"
proof -
  let ?r = "program_router (demo_env Map.empty) ''key'' JString"
  let ?xs = "[(demo_chance 200, Request (demo_request [] ''x''), True), (demo_chance 200, EndOfStream, True)]"
  obtain out fin w' where r: "session (demo_env Map.empty) (\<lambda>e. ''error'') ?r ?xs demo_world = (out, fin, w')"
    using prod_cases3 by blast
  obtain t v where d: "drive (demo_env Map.empty) (\<lambda>e. ''error'') ?r 0 ?xs demo_accepted demo_world = (t, v)"
    by fastforce
  have "between 0 demo_accepted" by (simp add: between_def new_session_def)
  from handlers_are_session [OF this r d] have "v = w'"
    "map snd (ls_sent (lp_sessions t ! 0)) = map Some out" "lstep\<^sup>*\<^sup>* demo_accepted t"
    by (simp_all add: new_session_def)
  with r d show ?thesis by blast
qed

end
