(* ===== verification/Responses.thy ===== *)
theory Responses
  imports Session
begin

text \<open>
  The form of what the server sends: whatever the handlers read, whatever fails, every response is a
  JSON document under the right headers. The rules follow the programs, as those of \<open>preserves\<close> do.
\<close>

section \<open>Programs whose values have a property\<close>

definition yields :: "('a \<Rightarrow> bool) \<Rightarrow> ('s, 'a) prog \<Rightarrow> bool" where
  "yields R m \<longleftrightarrow> (\<forall>s x s'. m s = (Ok x, s') \<longrightarrow> R x)"

named_theorems yield_intros \<open>programs whose values have a property\<close>

lemma yields_ret [yield_intros]: "R x \<Longrightarrow> yields R (ret x)"
  by (simp add: yields_def ret_def)

lemma yields_raise [yield_intros]: "yields R (raise e)"
  by (simp add: yields_def raise_def)

lemma yields_undef [yield_intros]: "yields R undef"
  by (simp add: yields_def undef_def)

lemma yields_and_then:
  assumes "yields Q m" and "\<And>x. Q x \<Longrightarrow> yields R (f x)"
  shows "yields R (and_then m f)"
  using assms by (fastforce simp: yields_def and_then_def split: prod.splits outcome.splits)

lemma yields_anything: "yields (\<lambda>_. True) m"
  by (simp add: yields_def)

lemma yields_after [yield_intros]: "(\<And>x. yields R (f x)) \<Longrightarrow> yields R (and_then m f)"
  by (rule yields_and_then [OF yields_anything])

lemma yields_if [yield_intros]: "yields R a \<Longrightarrow> yields R b \<Longrightarrow> yields R (if c then a else b)"
  by simp

lemma yields_case_option [yield_intros]:
  "yields R a \<Longrightarrow> (\<And>x. yields R (f x)) \<Longrightarrow> yields R (case v of None \<Rightarrow> a | Some x \<Rightarrow> f x)"
  by (cases v) simp_all

lemma yields_case_prod [yield_intros]: "(\<And>x y. yields R (f x y)) \<Longrightarrow> yields R (case v of (x, y) \<Rightarrow> f x y)"
  by (cases v) simp

lemma yields_catch_exn [yield_intros]:
  assumes "yields R m" and "\<And>e. yields R (h e)"
  shows "yields R (catch_exn m h)"
  using assms by (fastforce simp: yields_def catch_exn_def split: prod.splits outcome.splits)

section \<open>Responses\<close>

text \<open>
  The form of a response: the version of the request, the headers, the length announced; the body is
  the text of a JSON document, an \<open>error\<close> document exactly when the status is not 200.
\<close>

definition error_json :: "string \<Rightarrow> json" where
  "error_json m = JObj [(''error'', JString m)]"

definition well_formed :: "env \<Rightarrow> http_request \<Rightarrow> http_response \<Rightarrow> bool" where
  "well_formed env req res \<longleftrightarrow>
     rs_version res = rq_version req \<and>
     rs_fields res ''Content-Type'' = Some ''application/json'' \<and>
     rs_fields res ''Server'' = Some ''MusicPlayer-BackEnd'' \<and>
     rs_length res = Some (length (rs_body res)) \<and>
     rs_status res \<in> {200, 400, 401, 404, 409, 500} \<and>
     (if rs_status res = 200 then \<exists>j. jl_dump (ev_json env) j = Some (rs_body res)
      else \<exists>m. jl_dump (ev_json env) (error_json m) = Some (rs_body res))"

lemmas response_defs = prepare_payload_def json_headers_def set_field_def new_response_def

lemma reply_error_form [yield_intros]:
  "st \<in> {400, 401, 404, 409, 500} \<Longrightarrow> yields (well_formed env req) (reply_error env req st m)"
  by (auto simp: yields_def reply_error_def lift_outcome_def buildErrorResponse_def dump_json_def error_json_def
      well_formed_def response_defs split: outcome.splits option.splits)

lemma reply_json_form [yield_intros]: "yields (well_formed env req) (reply_json env req j)"
  by (auto simp: yields_def reply_json_def and_then_def lift_outcome_def ret_def dump_json_def
      buildSuccessResponse_def well_formed_def response_defs split: outcome.splits option.splits)

lemma set_authorization: "well_formed env req res \<Longrightarrow> well_formed env req (set_field ''Authorization'' t res)"
  by (simp add: well_formed_def set_field_def)

lemma reply_with_token [yield_intros]:
  "yields (well_formed env req) (and_then (reply_json env req j) (\<lambda>res. ret (set_field ''Authorization'' t res)))"
  by (rule yields_and_then [OF reply_json_form]) (simp add: yields_ret set_authorization)

lemma with_catch_form [yield_intros]:
  assumes "yields (well_formed env req) m"
  shows "yields (well_formed env req) (with_catch env req m)"
  unfolding with_catch_def
  by (intro yield_intros assms) (auto split: exn.splits intro!: yield_intros)

lemma handlers_form: "h \<in> set (user_handlers env ju) \<Longrightarrow> yields (well_formed env req) (h ch req)"
  unfolding user_handlers_def
  by (auto simp: handler_defs Let_def intro!: reply_with_token yield_intros)


lemma handleRouter_form:
  "yields (well_formed env req) (handleRouter env (program_router env secret wrap) ch req)"
proof (cases "find_route (program_router env secret wrap) (rq_method req) (rq_target req)")
  case None
  then show ?thesis by (simp add: handleRouter_eq reply_error_form)
next
  case (Some h)
  then have "yields (well_formed env req) (h ch req)"
    by (cases rule: route_handler_cases) (simp_all add: handlers_form fixed_answer_def reply_json_form)
  with Some show ?thesis by (simp add: handleRouter_eq)
qed

lemma handleRequest_form:
  "yields (well_formed env req) (handleRequest env what (program_router env secret wrap) ch req)"
  unfolding handleRequest_def by (intro yield_intros handleRouter_form) simp

section \<open>Properties\<close>

text \<open>
  C18: the k-th response of a session has the form that the client of its k-th request expects: the
  version of that request, the JSON headers, the length of its body, one of six status codes, and as
  body the text of a JSON document, which is an \<open>error\<close> document unless the status is 200. No
  assumption is made on the server, the file system, the mail, the tokens or the JSON library.
\<close>

theorem responses_well_formed:
  assumes "session env what (program_router env secret wrap) xs w = (out, fin, w')"
  shows "length out \<le> length (read_requests xs) \<and>
    list_all2 (\<lambda>(ch, req) res. well_formed env req res) (take (length out) (read_requests xs)) out"
  using assms
proof (induction xs arbitrary: w out)
  case (Cons x xs)
  obtain ch ex written where x: "x = (ch, ex, written)" by (cases x) auto
  show ?case
  proof (cases ex)
    case (Request req)
    obtain r v where h: "handleRequest env what (program_router env secret wrap) ch req w = (r, v)" by fastforce
    show ?thesis
    proof (cases r)
      case (Ok res)
      then have "well_formed env req res"
        using handleRequest_form [of env req what secret wrap ch] h by (auto simp: yields_def)
      moreover obtain out1 fin1 v1
        where "session env what (program_router env secret wrap) xs v = (out1, fin1, v1)"
        using prod_cases3 by blast
      ultimately show ?thesis
        using Cons.prems Cons.IH [of v out1] x Request h Ok by (auto split: if_splits)
    qed (use Cons.prems x Request h in auto)
  qed (use Cons.prems x in auto)
qed simp

theorem responses_well_formed_witness:
  "\<exists>res fin w'. session (demo_env Map.empty) (\<lambda>e. ''error'') (program_router (demo_env Map.empty) ''key'' JString)
     [(demo_chance 200, Request (demo_request [] ''x''), True), (demo_chance 200, EndOfStream, True)]
     demo_world = ([res], fin, w') \<and> well_formed (demo_env Map.empty) (demo_request [] ''x'') res"
proof -
  let ?r = "program_router (demo_env Map.empty) ''key'' JString"
  let ?xs = "[(demo_chance 200, Request (demo_request [] ''x''), True), (demo_chance 200, EndOfStream, True)]"
  have none: "find_route ?r Post ''/'' = None"
    by (rule program_router_None) (simp only: all_routes_paths, simp)
  obtain out fin w' where r: "session (demo_env Map.empty) (\<lambda>e. ''error'') ?r ?xs demo_world = (out, fin, w')"
    using prod_cases3 by blast
  have "length out = 1"
    using r none
    by (auto simp: handleRequest_def handleRouter_eq demo_request_def reply_error_def buildErrorResponse_def
        dump_json_def catch_exn_def lift_outcome_def)
  then obtain res where "out = [res]" by (cases out) auto
  with responses_well_formed [OF r] r show ?thesis
    by (auto simp: demo_request_def)
qed

end
