(* ===== verification/Lifetime.thy ===== *)
theory Lifetime
  imports Workers Server
begin

text \<open>
  The objects that live as long as the program: the instances of \<open>Config\<close> and \<open>VerifyService\<close>, made by
  the first call of \<open>getInstance\<close>, and the pool, which \<open>DBManager::~DBManager\<close> closes at the end.
\<close>

section \<open>Instances\<close>

text \<open>A static pointer and the flag of its \<open>std::call_once\<close>\<close>

record 'a instance_of =
  in_flag :: bool
  in_object :: "'a option"

definition call_once :: "'a \<Rightarrow> 'a instance_of \<Rightarrow> 'a instance_of" where
  "call_once x s = (if in_flag s then s else s\<lparr>in_flag := True, in_object := Some x\<rparr>)"

definition config_getInstance :: "config instance_of \<Rightarrow> config option \<times> config instance_of" where
  "config_getInstance s = (let s = call_once default_config s in (in_object s, s))"

definition verify_getInstance :: "codes instance_of \<Rightarrow> codes option \<times> codes instance_of" where
  "verify_getInstance s =
     (if in_object s \<noteq> None then (in_object s, s)
      else let s = call_once [] s in (in_object s, s))"

text \<open>What the callers of \<open>getInstance\<close> rely on\<close>

locale singleton =
  fixes get :: "'s \<Rightarrow> 'a option \<times> 's"
    and obj :: "'s \<Rightarrow> 'a option"
    and upd :: "'a \<Rightarrow> 's \<Rightarrow> 's"
    and good :: "'s \<Rightarrow> bool"
    and fresh :: 'a
  assumes first_call: "good s \<Longrightarrow> obj s = None \<Longrightarrow> \<exists>s'. get s = (Some fresh, s') \<and> good s' \<and> obj s' = Some fresh"
    and later_call: "good s \<Longrightarrow> obj s = Some x \<Longrightarrow> get s = (Some x, s)"
    and change: "good s \<Longrightarrow> obj s = Some x \<Longrightarrow> good (upd y s) \<and> obj (upd y s) = Some y"
begin

text \<open>A pointer is never null, and a later call sees what was written through an earlier one.\<close>

lemma get_get:
  assumes "good s" and "get s = (v, s')"
  shows "v \<noteq> None \<and> v = (case obj s of None \<Rightarrow> Some fresh | w \<Rightarrow> w) \<and> get (upd y s') = (Some y, upd y s')"
proof (cases "obj s")
  case None
  with first_call [OF assms(1)] assms(2) have "good s'" "obj s' = Some fresh" "v = Some fresh" by auto
  with change [of s' fresh y] later_call [of "upd y s'" y] None show ?thesis by simp
next
  case (Some x)
  with later_call [OF assms(1)] assms have "s' = s" "v = Some x" by simp_all
  with change [OF assms(1) Some, of y] later_call [of "upd y s" y] Some show ?thesis by simp
qed

end

definition instance_ok :: "'a instance_of \<Rightarrow> bool" where
  "instance_ok s \<longleftrightarrow> (in_flag s \<longleftrightarrow> in_object s \<noteq> None)"

interpretation config_instance: singleton config_getInstance in_object "\<lambda>y s. s\<lparr>in_object := Some y\<rparr>"
  instance_ok default_config
  by unfold_locales (auto simp: config_getInstance_def call_once_def instance_ok_def Let_def)

interpretation verify_instance: singleton verify_getInstance in_object "\<lambda>y s. s\<lparr>in_object := Some y\<rparr>"
  instance_ok "[]"
  by unfold_locales (auto simp: verify_getInstance_def call_once_def instance_ok_def Let_def)

section \<open>The end of the pool\<close>

text \<open>
  The destructor closes the connections one by one; \<open>close i\<close> is what \<open>close()\<close> throws. Only an
  \<open>SQLException\<close> is caught; any other exception leaves a destructor, which ends the program. The result
  is the connections on which \<open>close()\<close> was called.
\<close>

fun close_connections :: "(nat \<Rightarrow> exn option) \<Rightarrow> conn list \<Rightarrow> nat list outcome" where
  "close_connections close [] = Ok []"
| "close_connections close (c # cs) =
     (if close (c_id c) \<in> {None, Some SqlException}
      then (case close_connections close cs of
              Ok ids \<Rightarrow> Ok (c_id c # ids)
            | Raised e \<Rightarrow> Raised e
            | Undefined \<Rightarrow> Undefined)
      else Raised (the (close (c_id c))))"

lemma close_connections_ok:
  "\<forall>i. close i \<in> {None, Some SqlException} \<Longrightarrow> close_connections close cs = Ok (pool_ids cs)"
  by (induction cs) simp_all

lemma new_pool_ids: "pool_ids (new_pool dr n) = [0 ..< length (new_pool dr n)]"
proof -
  obtain m where "pool_ids (new_pool dr n) = [0 ..< m]"
    using fill_pool_ids [of n dr 0] by (auto simp: new_pool_def)
  moreover from arg_cong [OF this, of length] have "m = length (new_pool dr n)" by simp
  ultimately show ?thesis by simp
qed

section \<open>Properties\<close>

text \<open>
  C21: no connection leaks from the constructor of the pool to its destructor: after any number of
  workers have made any calls, under any schedule, on any server and on any tables that meet the
  constraints of the schema, and all of them are done, without undefined behaviour, the destructor
  calls \<open>close\<close> exactly once on every connection that the constructor made, also when some of these
  calls throw an \<open>SQLException\<close>.
\<close>

theorem pool_closed:
  assumes "schema_ok srv (ds_db s)" and "ds_pool s = new_pool dr n"
    and "run_schedule is (map (task_of_ops srv evp) opss, s) = (ts', s')" and "\<forall>t \<in> set ts'. \<exists>r. t = Done r \<and> r \<noteq> Undefined"
    and "\<forall>i. close i \<in> {None, Some SqlException}"
  shows "\<exists>ids. close_connections close (ds_pool s') = Ok ids \<and> distinct ids \<and>
    set ids = {..< length (new_pool dr n)}"
proof -
  have d: "distinct (pool_ids (ds_pool s))"
    using assms(2) by (simp add: new_pool_ids del: distinct_map)
  from workers_keep [OF assms(1) this assms(3)] assms(4)
  have "mset (pool_ids (ds_pool s')) = mset (pool_ids (ds_pool s))" "distinct (pool_ids (ds_pool s'))"
    by blast+
  moreover from this(1) have "set (pool_ids (ds_pool s')) = set [0 ..< length (new_pool dr n)]"
    using assms(2) new_pool_ids mset_eq_setD by metis
  ultimately show ?thesis using close_connections_ok [OF assms(5), of "ds_pool s'"] by auto
qed

theorem pool_closed_witness:
  "\<exists>ids ts' s'. run_schedule [0, 1, 0, 1, 1, 0, 0, 1, 0, 1]
     (map (task_of_ops demo_server demo_evp) [[Users (CreateUser demo_user)], [Playlists (CountSongsInPlaylist 1)]],
      demo_dao\<lparr>ds_pool := new_pool demo_driver 2\<rparr>) = (ts', s') \<and>
     close_connections (\<lambda>i. if i = 0 then Some SqlException else None) (ds_pool s') = Ok ids \<and>
     distinct ids \<and> set ids = {0, 1}"
proof -
  let ?s = "demo_dao\<lparr>ds_pool := new_pool demo_driver 2\<rparr>"
  let ?opss = "[[Users (CreateUser demo_user)], [Playlists (CountSongsInPlaylist 1)]]"
  let ?is = "[0, 1, 0, 1, 1, 0, 0, 1, 0, 1]"
  obtain ts' s' where r: "run_schedule ?is (map (task_of_ops demo_server demo_evp) ?opss, ?s) = (ts', s')"
    by fastforce
  have "length (fst (ts', s')) = length (fst (map (task_of_ops demo_server demo_evp) ?opss, ?s))"
    unfolding r [symmetric] by (rule length_run_schedule)
  then have len: "length ts' = 2" by simp
  have ends: "\<exists>r. ts' ! i = Done r" if "i < 2" for i
  proof -
    have "ends_in 4 (map (task_of_ops demo_server demo_evp) ?opss ! i)" "4 \<le> count_list ?is i"
      using that ends_in_ops [of "?opss ! i" demo_server demo_evp] by (auto simp: less_2_cases_iff)
    from run_schedule_ends [OF _ this r] that show ?thesis by simp
  qed
  have ok: "schema_ok demo_server (ds_db ?s)"
    by (simp add: schema_ok_empty)
  have two: "length (new_pool demo_driver 2) = 2"
    by (simp add: new_pool_def demo_driver_def numeral_2_eq_2)
  have "distinct (pool_ids (ds_pool ?s))" by (simp add: new_pool_ids del: distinct_map)
  from workers_keep [OF ok this r] two have "ts' ! i \<noteq> Done Undefined" if "i < 2" for i
    using that by (auto simp: adds_play_def less_2_cases_iff)
  with ends have done_all: "\<forall>t \<in> set ts'. \<exists>r. t = Done r \<and> r \<noteq> Undefined"
    using len by (metis in_set_conv_nth)
  have "\<exists>ids. close_connections (\<lambda>i. if i = 0 then Some SqlException else None) (ds_pool s') = Ok ids \<and>
      distinct ids \<and> set ids = {0, 1}"
    using pool_closed [OF ok _ r done_all, of demo_driver 2 "\<lambda>i. if i = 0 then Some SqlException else None"] two
    by (simp add: lessThan_nat_numeral lessThan_Suc insert_commute)
  with r show ?thesis by blast
qed

end
