(* ===== verification/Requests.thy ===== *)
theory Requests
  imports Responses Races
begin

text \<open>
  Whole requests as threads: the eight handlers of \<open>src/handlers/UserHandler.cpp\<close> cut into the actions
  between which the workers of other sessions act: each statement of a data access object, each use of
  the store of codes under its lock, each access to the directory of avatars. Run alone they are the
  handlers of \<open>UserHandler\<close>; under any schedule they keep what the handlers keep.
\<close>

section \<open>Programs of tasks\<close>

primrec bind_task :: "('s, 'a) task \<Rightarrow> ('a \<Rightarrow> ('s, 'b) task) \<Rightarrow> ('s, 'b) task" where
  "bind_task (Done r) g =
     (case r of Ok x \<Rightarrow> g x | Raised e \<Rightarrow> Done (Raised e) | Undefined \<Rightarrow> Done Undefined)"
| "bind_task (Atom f) g = Atom (\<lambda>s. map_prod (\<lambda>t. bind_task t g) (\<lambda>t. t) (f s))"

primrec catch_task :: "('s, 'a) task \<Rightarrow> (exn \<Rightarrow> ('s, 'a) task) \<Rightarrow> ('s, 'a) task" where
  "catch_task (Done r) h = (case r of Raised e \<Rightarrow> h e | _ \<Rightarrow> Done r)"
| "catch_task (Atom f) h = Atom (\<lambda>s. map_prod (\<lambda>t. catch_task t h) (\<lambda>t. t) (f s))"

primrec dao_in :: "(dao_state, 'a) task \<Rightarrow> (world, 'a) task" where
  "dao_in (Done r) = Done r"
| "dao_in (Atom f) = Atom (\<lambda>w. map_prod dao_in (\<lambda>d. w\<lparr>w_dao := d\<rparr>) (f (w_dao w)))"

text \<open>A program that no other thread interrupts\<close>

definition once :: "('s, 'a) prog \<Rightarrow> ('s, 'a) task" where
  "once m = Atom (\<lambda>s. map_prod Done (\<lambda>t. t) (m s))"

abbreviation value_task :: "'a \<Rightarrow> ('s, 'a) task" where
  "value_task x \<equiv> Done (Ok x)"

lemma run_bind_task: "run_task (bind_task t g) = and_then (run_task t) (\<lambda>x. run_task (g x))"
proof
  fix s show "run_task (bind_task t g) s = and_then (run_task t) (\<lambda>x. run_task (g x)) s"
  proof (induction t arbitrary: s)
    case (Done r)
    show ?case by (cases r) (simp_all add: and_then_def)
  next
    case (Atom f)
    obtain t s' where f: "f s = (t, s')" by fastforce
    then have "(t, s') \<in> range f" by (metis rangeI)
    from Atom.IH [OF this, of t s'] f show ?case by (simp add: and_then_def)
  qed
qed

lemma run_catch_task: "run_task (catch_task t h) = catch_exn (run_task t) (\<lambda>e. run_task (h e))"
proof
  fix s show "run_task (catch_task t h) s = catch_exn (run_task t) (\<lambda>e. run_task (h e)) s"
  proof (induction t arbitrary: s)
    case (Done r)
    show ?case by (cases r) (simp_all add: catch_exn_def)
  next
    case (Atom f)
    obtain t s' where f: "f s = (t, s')" by fastforce
    then have "(t, s') \<in> range f" by (metis rangeI)
    from Atom.IH [OF this, of t s'] f show ?case by (simp add: catch_exn_def)
  qed
qed

lemma run_dao_in: "run_task (dao_in t) = on_dao (run_task t)"
proof
  fix w :: world show "run_task (dao_in t) w = on_dao (run_task t) w"
  proof (induction t arbitrary: w)
    case (Atom f)
    obtain t d where f: "f (w_dao w) = (t, d)" by fastforce
    then have "(t, d) \<in> range f" by (metis rangeI)
    from Atom.IH [OF this, of t "w\<lparr>w_dao := d\<rparr>"] f show ?case
      by (simp add: on_dao_def zoom_def split: prod.splits)
  qed (simp add: on_dao_def zoom_def)
qed

lemma run_once: "run_task (once m) = m"
proof
  fix s show "run_task (once m) s = m s" by (cases "m s") (simp add: once_def)
qed

lemma run_lift: "run_task (Done r) = lift_outcome r"
  by (simp add: lift_outcome_def fun_eq_iff)

lemma lift_returns: "lift_outcome (Ok x) = ret x" "lift_outcome (Raised e) = raise e" "lift_outcome Undefined = undef"
  by (simp_all add: lift_outcome_def ret_def raise_def undef_def fun_eq_iff)

section \<open>The operations that the handlers use\<close>

definition userById_task :: "server \<Rightarrow> int \<Rightarrow> (dao_state, user option) task" where
  "userById_task srv i = dao_task srv None (\<lambda>c. stmt srv c (select_users_by_id srv i)
     (\<lambda>rows. value_task (first_user srv rows)))"

definition userByName_task :: "server \<Rightarrow> string \<Rightarrow> (dao_state, user option) task" where
  "userByName_task srv username = dao_task srv None (\<lambda>c. stmt srv c (select_users_by_username srv username)
     (\<lambda>rows. value_task (first_user srv rows)))"

definition updatePassword_task :: "server \<Rightarrow> digest_fun \<Rightarrow> int \<Rightarrow> string \<Rightarrow> (dao_state, bool) task" where
  "updatePassword_task srv evp user_id new_password = dao_task srv False (\<lambda>c.
     stmt srv c (update_passwd_hash srv (hashPassword evp new_password) user_id) (\<lambda>_. value_task True))"

definition updateQQId_task :: "server \<Rightarrow> int \<Rightarrow> string \<Rightarrow> (dao_state, bool) task" where
  "updateQQId_task srv user_id qq_id = dao_task srv False (\<lambda>c.
     stmt srv c (update_qq_id srv qq_id user_id) (\<lambda>_. value_task True))"

definition updateNetEaseId_task :: "server \<Rightarrow> int \<Rightarrow> string \<Rightarrow> (dao_state, bool) task" where
  "updateNetEaseId_task srv user_id netease_id = dao_task srv False (\<lambda>c.
     stmt srv c (update_netease_id srv netease_id user_id) (\<lambda>_. value_task True))"

lemmas user_task_defs = userById_task_def userByName_task_def updatePassword_task_def updateQQId_task_def
  updateNetEaseId_task_def

lemma run_user_tasks:
  "run_task (userById_task srv i) = getUserById srv i"
  "run_task (userByName_task srv n) = getUserByUsername srv n"
  "run_task (updatePassword_task srv evp i p) = updatePassword srv evp i p"
  "run_task (updateQQId_task srv i q) = updateQQId srv i q"
  "run_task (updateNetEaseId_task srv i q) = updateNetEaseId srv i q"
  by (simp_all add: user_task_defs user_dao_defs run_dao_task run_stmt run_Done del: run_task.simps)

section \<open>The handlers\<close>

type_synonym request_task = "chance \<Rightarrow> http_request \<Rightarrow> (world, http_response) task"

definition error_task :: "env \<Rightarrow> http_request \<Rightarrow> nat \<Rightarrow> string \<Rightarrow> (world, http_response) task" where
  "error_task env req status message = Done (buildErrorResponse (ev_json env) status (rq_version req) message)"

definition json_task :: "env \<Rightarrow> http_request \<Rightarrow> json \<Rightarrow> (world, http_response) task" where
  "json_task env req j = bind_task (Done (dump_json (ev_json env) j))
     (\<lambda>body. value_task (buildSuccessResponse (rq_version req) body))"

definition catch_both :: "env \<Rightarrow> http_request \<Rightarrow> (world, http_response) task \<Rightarrow> (world, http_response) task" where
  "catch_both env req t = catch_task t (\<lambda>e.
     case e of
       JsonException \<Rightarrow> error_task env req status_bad_request ''Invalid JSON format''
     | _ \<Rightarrow> error_task env req status_internal_server_error ''Internal server error'')"

definition body_task :: "env \<Rightarrow> http_request \<Rightarrow> (world, json) task" where
  "body_task env req = Done (parse_json (ev_json env) (rq_body req))"

definition text_task :: "json \<Rightarrow> string \<Rightarrow> (world, string) task" where
  "text_task j k = Done (get_string j k)"

definition id_task :: "env \<Rightarrow> string \<Rightarrow> (world, int) task" where
  "id_task env token = bind_task (Done (getClaim (ev_jwt env) token ''id''))
     (\<lambda>s. case atoi s of None \<Rightarrow> Done Undefined | Some i \<Rightarrow> value_task i)"

lemma run_reply_tasks:
  "run_task (error_task env req st m) = reply_error env req st m"
  "run_task (json_task env req j) = reply_json env req j"
  "run_task (body_task env req) = body_json env req"
  "run_task (text_task j k) = member_text j k"
  by (simp_all add: error_task_def reply_error_def json_task_def reply_json_def body_task_def body_json_def
      text_task_def member_text_def run_bind_task run_lift lift_returns del: run_task.simps bind_task.simps)

lemma run_catch_both: "run_task (catch_both env req t) = with_catch env req (run_task t)"
  unfolding catch_both_def with_catch_def run_catch_task
  by (rule arg_cong [where f = "catch_exn (run_task t)"])
    (simp add: fun_eq_iff run_reply_tasks split: exn.splits del: run_task.simps)

lemma run_id_task: "run_task (id_task env token) = claimed_id env token"
  unfolding id_task_def claimed_id_def run_bind_task run_lift
  by (rule arg_cong [where f = "and_then _"]) (simp add: fun_eq_iff run_Done split: option.splits del: run_task.simps)


text \<open>
  \<open>sendVerifyCode\<close>: the mail goes out before the mutex is taken to store the code.
\<close>

definition mail_code :: "env \<Rightarrow> string \<Rightarrow> string \<Rightarrow> (world, bool) prog" where
  "mail_code env email verify_code w =
     (case sendTextEmail (ev_curl env) (ev_verify env) email ''Verification Code'' (code_message verify_code)
             (vs_mail (w_verify w)) of
        (success, ms) \<Rightarrow> (Ok success, w\<lparr>w_verify := (w_verify w)\<lparr>vs_mail := ms\<rparr>\<rparr>))"

definition store_code :: "string \<Rightarrow> verify_info \<Rightarrow> (world, unit) prog" where
  "store_code email info = modify (\<lambda>w. w\<lparr>w_verify := assign_code email info (w_verify w)\<rparr>)"

definition send_task :: "env \<Rightarrow> chance \<Rightarrow> string \<Rightarrow> string \<Rightarrow> (world, bool) task" where
  "send_task env ch email action =
     (let verify_code = generateVerificationCode (ch_draws ch) 6 in
      bind_task (once (mail_code env email verify_code)) (\<lambda>success.
      if \<not> success then value_task False
      else
        let expiry_time = seconds (vc_code_expiry (ev_verify env)) in
        bind_task (once (store_code email
            \<lparr>vi_code = verify_code, vi_expire = ch_clock ch 0 + expiry_time, vi_action = action\<rparr>))
          (\<lambda>_. value_task True)))"

lemma run_send_task: "run_task (send_task env ch email action) = send_code env ch email action"
  by (simp add: fun_eq_iff send_task_def send_code_def sendVerifyCode_def mail_code_def store_code_def Let_def
      run_bind_task run_once run_lift lift_returns if_run_task and_then_def modify_def ret_def case_prod_beta
      del: run_task.simps)

text \<open>
  \<open>verifyCode\<close>: the lookup holds the mutex; the comparison does not, and reads the entry member by
  member, in order and no further than it has to, each reading an action of its own. The pointer is
  what the lookup found: the entry, and the count of the changes to it. While the count stands the
  entry is the one found (\<open>pointer_is_entry\<close> of \<open>Sweeps\<close>). Once it has grown, a sweep has erased the
  entry, so that the pointer dangles, or another thread has assigned to it under the mutex that this
  one does not hold, a data race: reading is undefined then. The assignment is one action, as a lookup
  waits for its end and any reading after its begin is undefined anyway.
\<close>

definition find_code :: "string \<Rightarrow> (world, (nat \<times> verify_info) option) prog" where
  "find_code email = gets (\<lambda>w.
     case map_of (vs_codes (w_verify w)) email of
       None \<Rightarrow> None
     | Some info \<Rightarrow> Some (vs_changes (w_verify w) email, info))"

definition read_member :: "string \<Rightarrow> nat \<times> verify_info \<Rightarrow> (verify_info \<Rightarrow> 'a) \<Rightarrow> (world, 'a) prog" where
  "read_member email pInfo get w =
     (if fst pInfo < vs_changes (w_verify w) email then (Undefined, w) else (Ok (get (snd pInfo)), w))"

definition check_task :: "int \<Rightarrow> string \<Rightarrow> string \<Rightarrow> string \<Rightarrow> (world, bool) task" where
  "check_task now email action verify_code =
     bind_task (once (find_code email)) (\<lambda>it.
     case it of
       None \<Rightarrow> value_task False
     | Some pInfo \<Rightarrow>
         bind_task (once (read_member email pInfo vi_expire)) (\<lambda>expire_time.
         if expire_time < now then value_task False
         else
           bind_task (once (read_member email pInfo vi_action)) (\<lambda>its_action.
           if its_action \<noteq> action then value_task False
           else
             bind_task (once (read_member email pInfo vi_code)) (\<lambda>code. value_task (code = verify_code)))))"

lemma run_check_task: "run_task (check_task now email action code) = check_code now email action code"
proof
  fix w show "run_task (check_task now email action code) w = check_code now email action code w"
    by (cases "map_of (vs_codes (w_verify w)) email")
      (simp_all add: check_task_def run_bind_task run_once and_then_def find_code_def gets_def read_member_def
        check_code_def verifyCode_def if_run_task run_Done ret_def del: bind_task.simps run_task.simps)
qed

definition getVerifyCode_task :: "env \<Rightarrow> request_task" where
  "getVerifyCode_task env ch req =
     catch_both env req (
       bind_task (body_task env req) (\<lambda>j.
       if \<not> contains j ''email'' \<or> \<not> contains j ''action''
       then error_task env req status_bad_request ''Missing email or action''
       else
         bind_task (text_task j ''email'') (\<lambda>email.
         bind_task (text_task j ''action'') (\<lambda>action.
         if \<not> isValidEmail email
         then error_task env req status_bad_request ''Invalid email format''
         else if action = ''register'' \<or> action = ''reset_password''
         then bind_task (send_task env ch email action) (\<lambda>sent.
                if sent then json_task env req (message_json ''Verification code sent'')
                else error_task env req status_internal_server_error
                       ''Failed to send verification code'')
         else error_task env req status_bad_request ''Invalid action''))))"

definition register_task :: "env \<Rightarrow> request_task" where
  "register_task env ch req =
     catch_both env req (
       bind_task (body_task env req) (\<lambda>j.
       if \<not> contains j ''username'' \<or> \<not> contains j ''password'' \<or> \<not> contains j ''email'' \<or>
          \<not> contains j ''verify_code''
       then error_task env req status_bad_request
              ''Missing username or password or email or verify_code''
       else
         bind_task (text_task j ''username'') (\<lambda>username.
         bind_task (text_task j ''password'') (\<lambda>password.
         bind_task (text_task j ''email'') (\<lambda>email.
         bind_task (text_task j ''verify_code'') (\<lambda>verify_code.
         bind_task (check_task (ch_clock ch 0) email ''register'' verify_code) (\<lambda>valid.
         if \<not> valid then error_task env req status_bad_request ''Invalid verification code''
         else
           bind_task (dao_in (userByName_task (ev_server env) username)) (\<lambda>found.
           if found \<noteq> None then error_task env req status_conflict ''Username already exists''
           else
             bind_task (dao_in (createUser_task (ev_server env) (ev_evp env)
                 (new_user\<lparr>us_username := username, us_passwd_hash := password, us_email := email\<rparr>)))
               (\<lambda>(created, user).
             if \<not> created
             then error_task env req status_internal_server_error ''Failed to create user''
             else json_task env req
                    (JObj [(''code'', JInt 200), (''message'', JString ''User registered successfully''),
                           (''user_id'', JInt (us_id user))])))))))))) "

definition login_task :: "env \<Rightarrow> jwt_util \<Rightarrow> request_task" where
  "login_task env ju ch req =
     catch_both env req (
       bind_task (body_task env req) (\<lambda>j.
       if \<not> contains j ''username'' \<or> \<not> contains j ''password''
       then error_task env req status_bad_request ''Missing username or password''
       else
         bind_task (text_task j ''username'') (\<lambda>username.
         bind_task (text_task j ''password'') (\<lambda>password.
         bind_task (dao_in (userByName_task (ev_server env) username)) (\<lambda>user.
         case user of
           None \<Rightarrow> error_task env req status_not_found ''User not found''
         | Some u \<Rightarrow>
             if \<not> verifyPassword (ev_evp env) password (us_passwd_hash u)
             then error_task env req status_unauthorized ''Incorrect password''
             else
               bind_task (Done (generateToken (ev_jwt env) ju (ch_clock ch 0) (us_username u)
                   [(''email'', us_email u), (''id'', to_string (us_id u))] (24 * 120 * 3600)))
                 (\<lambda>token.
               bind_task (json_task env req
                   (JObj [(''code'', JInt 200), (''message'', JString ''Login successful''),
                          (''user'', user_json u)]))
                 (\<lambda>res. value_task (set_field ''Authorization'' token res))))))))"

definition getProfile_task :: "env \<Rightarrow> jwt_util \<Rightarrow> request_task" where
  "getProfile_task env ju ch req =
     catch_both env req (
       let token = token_of env ju ch req in
       if token = [] then error_task env req status_unauthorized ''Invalid token''
       else
         bind_task (id_task env token) (\<lambda>user_id.
         bind_task (dao_in (userById_task (ev_server env) user_id)) (\<lambda>user.
         case user of
           None \<Rightarrow> error_task env req status_not_found ''User not found''
         | Some u \<Rightarrow> json_task env req
             (JObj [(''code'', JInt 200), (''message'', JString ''User profile retrieved successfully''),
                    (''user'', user_json u)]))))"

text \<open>The directory of avatars: the check, the creation and the writing are actions of their own.\<close>

definition avatar_dir_task :: "env \<Rightarrow> (world, unit) task" where
  "avatar_dir_task env =
     bind_task (once (gets (\<lambda>w. af_dir (w_files w)))) (\<lambda>there.
     if there then value_task ()
     else if fe_mkdir (ev_fs env)
     then once (modify (\<lambda>w. w\<lparr>w_files := (w_files w)\<lparr>af_dir := True\<rparr>\<rparr>))
     else Done (Raised (StdException ''filesystem error'')))"

definition updateAvatar_task :: "env \<Rightarrow> jwt_util \<Rightarrow> request_task" where
  "updateAvatar_task env ju ch req =
     catch_both env req (
       let token = token_of env ju ch req in
       if token = [] then error_task env req status_unauthorized ''Invalid token''
       else
         bind_task (body_task env req) (\<lambda>j.
         if \<not> contains j ''avatar_data''
         then error_task env req status_bad_request ''Missing avatar_data''
         else
           bind_task (text_task j ''avatar_data'') (\<lambda>avatar_data.
           if max_avatar < length avatar_data
           then error_task env req status_bad_request ''Avatar data requires not more than 1MB''
           else
             bind_task (id_task env token) (\<lambda>user_id.
             bind_task (avatar_dir_task env) (\<lambda>_.
             bind_task (once (write_avatar env (avatar_path_of user_id) avatar_data)) (\<lambda>opened.
             if \<not> opened
             then error_task env req status_internal_server_error ''Failed to save avatar''
             else json_task env req (message_json ''Avatar updated successfully'')))))))"

definition getAvatar_task :: "env \<Rightarrow> jwt_util \<Rightarrow> request_task" where
  "getAvatar_task env ju ch req =
     catch_both env req (
       let token = token_of env ju ch req in
       if token = [] then error_task env req status_unauthorized ''Invalid token''
       else
         bind_task (id_task env token) (\<lambda>user_id.
         bind_task (once (gets (\<lambda>w. af_file (w_files w) (avatar_path_of user_id)))) (\<lambda>stored.
         case stored of
           None \<Rightarrow> error_task env req status_not_found ''Avatar not found''
         | Some avatar_data \<Rightarrow>
             if \<not> fe_open_in (ev_fs env) (avatar_path_of user_id)
             then error_task env req status_internal_server_error ''Failed to read avatar''
             else json_task env req
                    (JObj [(''code'', JInt 200), (''message'', JString ''Avatar retrieved successfully''),
                           (''avatar_data'', JString avatar_data)]))))"

definition changePassword_task :: "env \<Rightarrow> jwt_util \<Rightarrow> request_task" where
  "changePassword_task env ju ch req =
     catch_both env req (
       bind_task (body_task env req) (\<lambda>j.
       if \<not> contains j ''new_password'' \<or> \<not> contains j ''verify_code'' \<or> \<not> contains j ''email''
       then error_task env req status_bad_request
              ''Missing user_id or new_password or verify_code or email''
       else
         let token = token_of env ju ch req in
         if token = [] then error_task env req status_unauthorized ''Invalid token''
         else
           bind_task (id_task env token) (\<lambda>user_id.
           bind_task (text_task j ''new_password'') (\<lambda>new_password.
           bind_task (text_task j ''verify_code'') (\<lambda>verify_code.
           bind_task (text_task j ''email'') (\<lambda>email.
           bind_task (check_task (ch_clock ch 2) email ''reset_password'' verify_code) (\<lambda>valid.
           if \<not> valid then error_task env req status_bad_request ''Invalid verification code''
           else
             bind_task (dao_in (updatePassword_task (ev_server env) (ev_evp env) user_id new_password))
               (\<lambda>updated.
             if \<not> updated
             then error_task env req status_internal_server_error ''Failed to update password''
             else json_task env req (message_json ''Password changed successfully'')))))))))"

definition bindPlatform_task :: "env \<Rightarrow> jwt_util \<Rightarrow> request_task" where
  "bindPlatform_task env ju ch req =
     catch_both env req (
       let token = token_of env ju ch req in
       if token = [] then error_task env req status_unauthorized ''Invalid token''
       else
         bind_task (id_task env token) (\<lambda>user_id.
         bind_task (body_task env req) (\<lambda>j.
         if \<not> contains j ''platform'' \<or> \<not> contains j ''platform_id''
         then error_task env req status_bad_request ''Missing platform or platform_id''
         else
           bind_task (text_task j ''platform'') (\<lambda>platform.
           bind_task (text_task j ''platform_id'') (\<lambda>platform_id.
           let bound = json_task env req (message_json ''Platform account bound successfully'') in
           if platform = ''qq''
           then bind_task (dao_in (updateQQId_task (ev_server env) user_id platform_id)) (\<lambda>ok.
                  if \<not> ok
                  then error_task env req status_internal_server_error ''Failed to bind QQ account''
                  else bound)
           else if platform = ''netease''
           then bind_task (dao_in (updateNetEaseId_task (ev_server env) user_id platform_id)) (\<lambda>ok.
                  if \<not> ok
                  then error_task env req status_internal_server_error ''Failed to bind NetEase account''
                  else bound)
           else error_task env req status_bad_request ''Invalid platform'')))))"

lemmas handler_task_defs = getVerifyCode_task_def register_task_def login_task_def getProfile_task_def
  updateAvatar_task_def getAvatar_task_def changePassword_task_def bindPlatform_task_def

lemma option_run_task:
  "run_task (case v of None \<Rightarrow> t | Some x \<Rightarrow> f x) = (case v of None \<Rightarrow> run_task t | Some x \<Rightarrow> run_task (f x))"
  by (cases v) simp_all

lemma prod_run_task: "run_task (case v of (x, y) \<Rightarrow> f x y) = (case v of (x, y) \<Rightarrow> run_task (f x y))"
  by (cases v) simp

lemmas run_request_simps = run_catch_both run_bind_task run_dao_in run_once run_id_task run_reply_tasks
  run_user_tasks run_createUser_task run_send_task run_check_task if_run_task option_run_task prod_run_task run_lift lift_returns

lemma run_avatar_dir_task: "run_task (avatar_dir_task env) = make_avatar_dir env"
  by (simp only: avatar_dir_task_def make_avatar_dir_def run_request_simps)

lemma run_handler_tasks:
  "run_task (getVerifyCode_task env ch req) = handleGetVerifyCode env ch req"
  "run_task (register_task env ch req) = handleRegister env ch req"
  "run_task (login_task env ju ch req) = handleLogin env ju ch req"
  "run_task (getProfile_task env ju ch req) = handleGetProfile env ju ch req"
  "run_task (updateAvatar_task env ju ch req) = handleUpdateAvatar env ju ch req"
  "run_task (getAvatar_task env ju ch req) = handleGetAvatar env ju ch req"
  "run_task (changePassword_task env ju ch req) = handleChangePassword env ju ch req"
  "run_task (bindPlatform_task env ju ch req) = handleBindPlatform env ju ch req"
  by (simp_all only: handler_task_defs handler_defs Let_def run_avatar_dir_task run_request_simps)


section \<open>Dispatch and session\<close>

definition route_tasks :: "env \<Rightarrow> jwt_util \<Rightarrow> (string \<Rightarrow> json) \<Rightarrow> (verb \<times> string \<times> request_task) list" where
  "route_tasks env ju wrap =
     (Get, ''/'', \<lambda>ch req. json_task env req (JObj [(''message'', JString ''Welcome to HarmonyOS Music Player!'')])) #
     [(Post, ''/users/register'', register_task env),
      (Post, ''/users/verify_code'', getVerifyCode_task env),
      (Post, ''/users/login'', login_task env ju),
      (Get, ''/users/info'', getProfile_task env ju),
      (Post, ''/users/avatar'', updateAvatar_task env ju),
      (Get, ''/users/avatar'', getAvatar_task env ju),
      (Post, ''/users/password'', changePassword_task env ju),
      (Post, ''/users/bind'', bindPlatform_task env ju)] @
     map (\<lambda>(m, t, j). (m, t, \<lambda>ch req. json_task env req j)) (fixed_routes wrap)"

definition find_task :: "env \<Rightarrow> jwt_util \<Rightarrow> (string \<Rightarrow> json) \<Rightarrow> verb \<Rightarrow> string \<Rightarrow> request_task option" where
  "find_task env ju wrap m t = map_of (map (\<lambda>(m, t, h). ((m, t), h)) (route_tasks env ju wrap)) (m, t)"

definition answer_task :: "env \<Rightarrow> (exn \<Rightarrow> string) \<Rightarrow> string \<Rightarrow> (string \<Rightarrow> json) \<Rightarrow> request_task" where
  "answer_task env what secret wrap ch req =
     catch_task
       (case find_task env (new_jwt_util secret) wrap (rq_method req) (rq_target req) of
          Some h \<Rightarrow> h ch req
        | None \<Rightarrow> error_task env req status_not_found ''Not found'')
       (\<lambda>e. error_task env req status_internal_server_error (what e))"

lemma route_tasks_routes:
  "list_all2 (\<lambda>(m, t, k) (m', t', h). m = m' \<and> t = t' \<and> (\<forall>ch req. run_task (k ch req) = h ch req))
     (route_tasks env ju wrap) (all_routes env ju wrap)"
proof -
  have "list_all2 (\<lambda>(m, t, k) (m', t', h). m = m' \<and> t = t' \<and> (\<forall>ch req. run_task (k ch req) = h ch req))
     (map (\<lambda>(m, t, j). (m, t, \<lambda>ch req. json_task env req j)) js) (map (\<lambda>(m, t, j). (m, t, fixed_answer env j)) js)" for js
    by (induction js) (auto simp: run_reply_tasks fixed_answer_def simp del: run_task.simps)
  then show ?thesis
    by (simp add: route_tasks_def all_routes_def user_routes_def run_handler_tasks run_reply_tasks fixed_answer_def
        del: run_task.simps)
qed

lemma list_all2_map_of:
  assumes "list_all2 (\<lambda>(m, t, k) (m', t', h). m = m' \<and> t = t' \<and> P k h) xs ys"
  shows "case map_of (map (\<lambda>(m, t, k). ((m, t), k)) xs) (m, t) of
      None \<Rightarrow> (m, t) \<notin> set (map (\<lambda>(m, t, h). (m, t)) ys)
    | Some k \<Rightarrow> \<exists>h. (m, t, h) \<in> set ys \<and> P k h"
  using assms by (induction rule: list_all2_induct) (auto split: option.splits if_splits)

lemma find_task_route:
  "case find_task env (new_jwt_util secret) wrap m t of
     None \<Rightarrow> find_route (program_router env secret wrap) m t = None
   | Some k \<Rightarrow> \<exists>h. find_route (program_router env secret wrap) m t = Some h \<and> (\<forall>ch req. run_task (k ch req) = h ch req)"
  using list_all2_map_of [OF route_tasks_routes [of env "new_jwt_util secret" wrap], of m t]
  by (auto simp: find_task_def program_router_None split: option.splits intro: program_router_find)

lemma run_answer_task:
  "run_task (answer_task env what secret wrap ch req) = handleRequest env what (program_router env secret wrap) ch req"
proof -
  have "run_task (case find_task env (new_jwt_util secret) wrap (rq_method req) (rq_target req) of
      Some h \<Rightarrow> h ch req | None \<Rightarrow> error_task env req status_not_found ''Not found'') =
    handleRouter env (program_router env secret wrap) ch req"
    using find_task_route [of env secret wrap "rq_method req" "rq_target req"]
    by (auto simp: handleRouter_eq run_reply_tasks simp del: run_task.simps split: option.splits)
  then show ?thesis
    by (simp add: answer_task_def handleRequest_def run_catch_task run_reply_tasks del: run_task.simps)
qed

section \<open>Requests as threads\<close>

named_theorems thread_intros \<open>tasks that use one connection at a time\<close>

abbreviation world_pool :: "world \<Rightarrow> conn list" where
  "world_pool w \<equiv> ds_pool (w_dao w)"

text \<open>
  \<open>G\<close> counts the changes to the entries before the threads started. The counts only grow, and there is
  danger when they have.
\<close>

definition world_inv :: "env \<Rightarrow> (string \<Rightarrow> nat) \<Rightarrow> world \<Rightarrow> bool" where
  "world_inv env G w \<longleftrightarrow> world_ok env w \<and> G \<le> vs_changes (w_verify w)"

definition changed_since :: "(string \<Rightarrow> nat) \<Rightarrow> world \<Rightarrow> bool" where
  "changed_since G w \<longleftrightarrow> vs_changes (w_verify w) \<noteq> G"

abbreviation world_thread :: "env \<Rightarrow> (string \<Rightarrow> nat) \<Rightarrow> bool \<Rightarrow> nat option \<Rightarrow> (world, 'a) task \<Rightarrow> bool" where
  "world_thread env G \<equiv> conn_thread world_pool (world_inv env G) (changed_since G)"

lemma conn_thread_bind [thread_intros]:
  assumes "conn_runs pool I D c b h t" and "\<And>x. conn_thread pool I D c None (g x)"
  shows "conn_runs pool I D c b h (bind_task t g)"
  by (rule conn_thread_map [where F = "\<lambda>t. bind_task t g"]) (use assms in \<open>auto split: outcome.splits\<close>)

lemma conn_thread_catch [thread_intros]:
  assumes "conn_runs pool I D c b h t" and "\<And>e. conn_thread pool I D c None (g e)"
  shows "conn_runs pool I D c b h (catch_task t g)"
  by (rule conn_thread_map [where F = "\<lambda>t. catch_task t g"]) (use assms in \<open>auto split: outcome.splits\<close>)

lemma conn_thread_once:
  assumes "preserves I m" and "\<And>s. pool (snd (m s)) = pool s"
    and "\<And>s. I s \<Longrightarrow> fst (m s) = Undefined \<Longrightarrow> c \<and> D s"
  shows "conn_thread pool I D c None (once m)"
  unfolding once_def
proof (rule conn_thread_Act)
  fix s assume "I s"
  with preservesD [OF assms(1)] have "I (snd (m s))" by blast
  then show "I (snd (map_prod Done (\<lambda>t. t) (m s))) \<and>
      ((\<exists>h'. moves None h' (pool_ids (pool s)) (pool_ids (pool (snd (map_prod Done (\<lambda>t. t) (m s))))) \<and>
          conn_thread pool I D c h' (fst (map_prod Done (\<lambda>t. t) (m s)))) \<or>
       None = None \<and> pool (snd (map_prod Done (\<lambda>t. t) (m s))) = pool s \<and> (pool s = [] \<or> c \<and> D s) \<and>
         fst (map_prod Done (\<lambda>t. t) (m s)) = Done Undefined)"
    using assms(2) [of s] assms(3) [OF \<open>I s\<close>] by (cases "fst (m s) = Undefined") (simp_all add: moves_def)
qed

lemma world_inv_dao: "world_inv env G w \<Longrightarrow>
    world_inv env G (w\<lparr>w_dao := d\<rparr>) \<longleftrightarrow> schema_ok (ev_server env) (ds_db d)"
  by (simp add: world_inv_def world_ok_def)

lemma world_runs_dao:
  assumes "conn_runs ds_pool (on_db (schema_ok (ev_server env))) (on_db (\<lambda>_. False)) False b h t" and "\<not> b"
  shows "world_thread env G c h (dao_in t)"
  using assms
proof (induction rule: conn_runs.induct)
  case (Act f b h)
  show ?case
    unfolding dao_in.simps
  proof (rule conn_thread_Act)
    fix w assume w: "world_inv env G w"
    then have "schema_ok (ev_server env) (ds_db (w_dao w))" by (simp add: world_inv_def world_ok_def)
    from Act.IH [OF this] Act.prems w
    show "world_inv env G (snd (map_prod dao_in (\<lambda>d. w\<lparr>w_dao := d\<rparr>) (f (w_dao w)))) \<and>
      ((\<exists>h'. moves h h' (pool_ids (world_pool w))
           (pool_ids (world_pool (snd (map_prod dao_in (\<lambda>d. w\<lparr>w_dao := d\<rparr>) (f (w_dao w)))))) \<and>
          world_thread env G c h' (fst (map_prod dao_in (\<lambda>d. w\<lparr>w_dao := d\<rparr>) (f (w_dao w))))) \<or>
       h = None \<and> world_pool (snd (map_prod dao_in (\<lambda>d. w\<lparr>w_dao := d\<rparr>) (f (w_dao w)))) = world_pool w \<and>
         (world_pool w = [] \<or> c \<and> changed_since G w) \<and>
         fst (map_prod dao_in (\<lambda>d. w\<lparr>w_dao := d\<rparr>) (f (w_dao w))) = Done Undefined)"
      by (auto simp: world_inv_dao)
  qed
qed auto

lemma world_thread_dao [thread_intros]:
  "dao_thread (schema_ok (ev_server env)) (\<lambda>_. False) False h t \<Longrightarrow> world_thread env G c h (dao_in t)"
  using world_runs_dao [of env False h t G c] by simp

text \<open>An action that changes no entry\<close>

lemma world_thread_once:
  assumes "preserves (world_ok env) m" and "\<And>w. world_pool (snd (m w)) = world_pool w"
    and "\<And>w. vs_changes (w_verify (snd (m w))) = vs_changes (w_verify w)" and "\<And>w. fst (m w) \<noteq> Undefined"
  shows "world_thread env G c None (once m)"
proof (rule conn_thread_once)
  show "preserves (world_inv env G) m"
    using preservesD [OF assms(1)] assms(3) by (intro preservesI) (simp add: world_inv_def)
qed (use assms(2,4) in simp_all)

lemma thread_value [thread_intros]: "r \<noteq> Undefined \<Longrightarrow> conn_thread pool I D c None (Done r)"
  by simp

lemma thread_if [thread_intros]:
  "conn_thread pool I D c None t \<Longrightarrow> conn_thread pool I D c None u \<Longrightarrow> conn_thread pool I D c None (if b then t else u)"
  by simp

lemma thread_option [thread_intros]:
  "conn_thread pool I D c None t \<Longrightarrow> (\<And>x. conn_thread pool I D c None (f x)) \<Longrightarrow>
   conn_thread pool I D c None (case v of None \<Rightarrow> t | Some x \<Rightarrow> f x)"
  by (cases v) simp_all

lemma thread_prod [thread_intros]:
  "(\<And>x y. conn_thread pool I D c None (f x y)) \<Longrightarrow> conn_thread pool I D c None (case v of (x, y) \<Rightarrow> f x y)"
  by (cases v) simp

lemma user_tasks_threads [thread_intros]:
  "dao_thread (schema_ok srv) (\<lambda>_. False) False None (userById_task srv i)"
  "dao_thread (schema_ok srv) (\<lambda>_. False) False None (userByName_task srv n)"
  "dao_thread (schema_ok srv) (\<lambda>_. False) False None (updatePassword_task srv evp i p)"
  "dao_thread (schema_ok srv) (\<lambda>_. False) False None (updateQQId_task srv i q)"
  "dao_thread (schema_ok srv) (\<lambda>_. False) False None (updateNetEaseId_task srv i q)"
  "dao_thread (schema_ok srv) (\<lambda>_. False) False None (createUser_task srv evp u)"
  unfolding user_task_defs createUser_task_def create_body_def create_tail_def
  by (intro dao_thread_task op_body_stmt stmt_intros op_body_value; simp)+

lemma error_task_thread [thread_intros]: "world_thread env G c None (error_task env req st m)"
  by (rule buildErrorResponse_cases [of "ev_json env" st "rq_version req" m]) (simp_all add: error_task_def)

lemma json_task_thread [thread_intros]: "world_thread env G c None (json_task env req j)"
  unfolding json_task_def by (intro thread_intros dump_json_defined) simp

lemma read_tasks_thread [thread_intros]:
  "world_thread env G c None (body_task env req)" "world_thread env G c None (text_task j k)"
proof -
  show "world_thread env G c None (body_task env req)"
    by (simp add: body_task_def parse_json_def split: option.splits)
  show "world_thread env G c None (text_task j k)"
    by (rule get_string_cases [of j k]) (simp_all add: text_task_def)
qed

lemma catch_both_thread [thread_intros]: "world_thread env G c None t \<Longrightarrow> world_thread env G c None (catch_both env req t)"
  unfolding catch_both_def by (intro thread_intros) (auto intro: thread_intros split: exn.splits)

lemma id_task_thread: "id_fits env token \<Longrightarrow> world_thread env G c None (id_task env token)"
  by (rule getClaim_cases [of "ev_jwt env" token "''id''"])
    (auto simp: id_task_def id_fits_def split: option.splits)

lemma mail_code_keeps: "preserves (world_ok env) (mail_code env email verify_code)"
  by (rule preservesI) (simp add: mail_code_def world_ok_def case_prod_beta)

lemma store_code_thread [thread_intros]: "world_thread env G c None (once (store_code email info))"
proof (rule conn_thread_once)
  show "preserves (world_inv env G) (store_code email info)"
    unfolding store_code_def
    by (intro preserves_modify) (auto simp: world_inv_def world_ok_def distinct_update assign_code_def le_fun_def le_SucI)
qed (simp_all add: store_code_def modify_def)

lemma once_threads [thread_intros]:
  "world_thread env G c None (once (mail_code env email verify_code))"
  "world_thread env G c None (once (gets (\<lambda>w. af_file (w_files w) p)))"
  "world_thread env G c None (once (write_avatar env p d))"
  by (intro world_thread_once preserve_intros mail_code_keeps;
      simp add: mail_code_def write_avatar_def and_then_def gets_def modify_def ret_def case_prod_beta)+

text \<open>The pointer of \<open>verifyCode\<close> is good as long as no entry has changed.\<close>

lemma read_member_thread:
  assumes "G email \<le> fst p"
  shows "world_thread env G True None (once (read_member email p get))"
proof (rule conn_thread_once)
  fix w assume "world_inv env G w" "fst (read_member email p get w) = Undefined"
  then have "G email < vs_changes (w_verify w) email"
    using assms by (simp add: read_member_def split: if_splits)
  then show "True \<and> changed_since G w" by (auto simp: changed_since_def)
qed (auto intro: preservesI simp: read_member_def)

lemma check_task_thread [thread_intros]: "world_thread env G True None (check_task now email action code)"
  unfolding check_task_def once_def [of "find_code email"] bind_task.simps
proof (rule conn_thread_Act)
  fix w assume w: "world_inv env G w"
  then have G: "G email \<le> vs_changes (w_verify w) email" by (simp add: world_inv_def le_funD)
  let ?reads = "\<lambda>p. bind_task (once (read_member email p vi_expire)) (\<lambda>expire_time.
      if expire_time < now then value_task False
      else bind_task (once (read_member email p vi_action)) (\<lambda>its_action.
        if its_action \<noteq> action then value_task False
        else bind_task (once (read_member email p vi_code)) (\<lambda>c. value_task (c = code))))"
  let ?k = "\<lambda>it. case it of None \<Rightarrow> value_task False | Some p \<Rightarrow> ?reads p"
  have "world_thread env G True None (?reads p)" if "G email \<le> fst p" for p
    by (intro conn_thread_bind read_member_thread thread_if thread_value that) simp_all
  then have "world_thread env G True None (fst (map_prod (\<lambda>t. bind_task t ?k) (\<lambda>t. t) (map_prod Done (\<lambda>t. t) (find_code email w))))"
    using G by (simp add: find_code_def gets_def split: option.splits)
  then show "world_inv env G (snd (map_prod (\<lambda>t. bind_task t ?k) (\<lambda>t. t) (map_prod Done (\<lambda>t. t) (find_code email w)))) \<and>
      ((\<exists>h'. moves None h' (pool_ids (world_pool w))
           (pool_ids (world_pool (snd (map_prod (\<lambda>t. bind_task t ?k) (\<lambda>t. t) (map_prod Done (\<lambda>t. t) (find_code email w)))))) \<and>
          world_thread env G True h' (fst (map_prod (\<lambda>t. bind_task t ?k) (\<lambda>t. t) (map_prod Done (\<lambda>t. t) (find_code email w))))) \<or>
       None = None \<and>
         world_pool (snd (map_prod (\<lambda>t. bind_task t ?k) (\<lambda>t. t) (map_prod Done (\<lambda>t. t) (find_code email w)))) = world_pool w \<and>
         (world_pool w = [] \<or> True \<and> changed_since G w) \<and>
         fst (map_prod (\<lambda>t. bind_task t ?k) (\<lambda>t. t) (map_prod Done (\<lambda>t. t) (find_code email w))) = Done Undefined)"
    using w by (auto simp: find_code_def gets_def moves_def)
qed

lemma send_task_thread [thread_intros]: "world_thread env G c None (send_task env ch email action)"
  unfolding send_task_def Let_def by (intro thread_intros) simp_all

lemma avatar_dir_thread [thread_intros]: "world_thread env G c None (avatar_dir_task env)"
proof -
  have "world_thread env G c None (once (modify (\<lambda>w. w\<lparr>w_files := (w_files w)\<lparr>af_dir := True\<rparr>\<rparr>)))"
    by (intro world_thread_once preserves_modify) (simp_all add: modify_def world_ok_def)
  moreover have "world_thread env G c None (once (gets (\<lambda>w. af_dir (w_files w))))"
    by (intro world_thread_once preserve_intros) (simp_all add: gets_def)
  ultimately show ?thesis unfolding avatar_dir_task_def by (intro thread_intros) simp_all
qed

lemma generate_thread [thread_intros]: "world_thread env G c None (Done (generateToken jw ju now n ks l))"
  by (simp add: generateToken_defined)

lemma handler_tasks_thread:
  assumes "id_fits env (token_of env ju ch req)"
  shows "world_thread env G c None (getVerifyCode_task env ch req)" "world_thread env G True None (register_task env ch req)"
    "world_thread env G c None (login_task env ju ch req)" "world_thread env G c None (getProfile_task env ju ch req)"
    "world_thread env G c None (updateAvatar_task env ju ch req)" "world_thread env G c None (getAvatar_task env ju ch req)"
    "world_thread env G True None (changePassword_task env ju ch req)" "world_thread env G c None (bindPlatform_task env ju ch req)"
  unfolding handler_task_defs Let_def
  by (intro thread_intros id_task_thread [OF assms] outcome.distinct)+


lemma find_task_member:
  "find_task env ju wrap m t = Some h \<Longrightarrow> ((m, t), h) \<in> set (map (\<lambda>(m, t, h). ((m, t), h)) (route_tasks env ju wrap))"
  unfolding find_task_def by (rule map_of_SomeD)

lemma find_task_cases:
  assumes "find_task env ju wrap m t = Some h"
  shows "(\<exists>j. h = (\<lambda>ch req. json_task env req j)) \<or>
    h \<in> {register_task env, getVerifyCode_task env, login_task env ju, getProfile_task env ju,
      updateAvatar_task env ju, getAvatar_task env ju, changePassword_task env ju, bindPlatform_task env ju}"
  using find_task_member [OF assms] by (auto simp: route_tasks_def)

text \<open>The requests that look up a code\<close>

definition checks_code :: "http_request \<Rightarrow> bool" where
  "checks_code req \<longleftrightarrow> rq_method req = Post \<and> rq_target req \<in> {''/users/register'', ''/users/password''}"

lemma found_thread:
  assumes "find_task env ju wrap (rq_method req) (rq_target req) = Some h" and "id_fits env (token_of env ju ch req)"
  shows "world_thread env G (checks_code req) None (h ch req)"
  using find_task_member [OF assms(1)] handler_tasks_thread [OF assms(2)]
  by (auto simp: route_tasks_def checks_code_def json_task_thread)

lemma answer_task_thread:
  assumes "id_fits env (token_of env (new_jwt_util secret) ch req)"
  shows "world_thread env G (checks_code req) None (answer_task env what secret wrap ch req)"
proof -
  have "world_thread env G (checks_code req) None
    (case find_task env (new_jwt_util secret) wrap (rq_method req) (rq_target req) of
      Some h \<Rightarrow> h ch req | None \<Rightarrow> error_task env req status_not_found ''Not found'')"
    by (cases "find_task env (new_jwt_util secret) wrap (rq_method req) (rq_target req)")
      (simp_all add: error_task_thread found_thread [OF _ assms])
  then show ?thesis unfolding answer_task_def by (rule conn_thread_catch [OF _ error_task_thread])
qed

section \<open>What a request answers, whoever acts in between\<close>

inductive results :: "('a outcome \<Rightarrow> bool) \<Rightarrow> ('s, 'a) task \<Rightarrow> bool" for R where
  Done: "R r \<Longrightarrow> results R (Done r)"
| Atom: "(\<And>s. results R (fst (f s))) \<Longrightarrow> results R (Atom f)"

inductive_simps results_Done [simp]: "results R (Done r)"
inductive_simps results_Atom: "results R (Atom f)"

named_theorems result_intros \<open>the form of the results of a task\<close>

abbreviation form :: "env \<Rightarrow> http_request \<Rightarrow> http_response outcome \<Rightarrow> bool" where
  "form env req r \<equiv> \<forall>res. r = Ok res \<longrightarrow> well_formed env req res"

lemma results_bind [result_intros]:
  "(\<And>x. results (form env req) (g x)) \<Longrightarrow> results (form env req) (bind_task t g)"
proof (induction t)
  case (Done r)
  then show ?case by (cases r) simp_all
next
  case (Atom f)
  have "results (form env req) (bind_task (fst (f s)) g)" for s
    using Atom.IH [of "f s" "fst (f s)"] Atom.prems by (simp add: prod_set_defs)
  then show ?case by (simp add: results_Atom)
qed

lemma results_catch:
  assumes "results (form env req) t" and "\<And>e. results R (h e)"
    and "\<And>res. well_formed env req res \<Longrightarrow> R (Ok res)" and "R Undefined"
  shows "results R (catch_task t h)"
  using assms(1)
proof (induction rule: results.induct)
  case (Done r)
  with assms(2-4) show ?case by (cases r) simp_all
next
  case (Atom f)
  then show ?case by (auto intro!: results.Atom)
qed

lemma error_task_form [result_intros]:
  "st \<in> {400, 401, 404, 409, 500} \<Longrightarrow> results (form env req) (error_task env req st m)"
  using reply_error_form [of st env req m] by (simp add: error_task_def yields_def reply_error_def lift_outcome_def)

lemma json_task_Done: "\<exists>r. json_task env req j = Done r \<and> form env req r"
  using reply_json_form [of env req j]
  by (cases "dump_json (ev_json env) j")
    (auto simp: json_task_def yields_def reply_json_def and_then_def lift_outcome_def ret_def)

lemma json_task_form [result_intros]: "results (form env req) (json_task env req j)"
  using json_task_Done [of env req j] by auto

lemma json_with_token [result_intros]:
  "results (form env req) (bind_task (json_task env req j) (\<lambda>res. value_task (set_field ''Authorization'' t res)))"
proof -
  obtain r where "json_task env req j = Done r" "form env req r" using json_task_Done by blast
  then show ?thesis by (cases r) (simp_all add: set_authorization)
qed

lemma catch_both_form [result_intros]:
  "results (form env req) t \<Longrightarrow> results (form env req) (catch_both env req t)"
  unfolding catch_both_def
  by (rule results_catch) (auto intro: result_intros split: exn.splits)

lemma results_if [result_intros]: "results R t \<Longrightarrow> results R u \<Longrightarrow> results R (if b then t else u)"
  by simp

lemma results_option [result_intros]:
  "results R t \<Longrightarrow> (\<And>x. results R (f x)) \<Longrightarrow> results R (case v of None \<Rightarrow> t | Some x \<Rightarrow> f x)"
  by (cases v) simp_all

lemma results_prod [result_intros]: "(\<And>x y. results R (f x y)) \<Longrightarrow> results R (case v of (x, y) \<Rightarrow> f x y)"
  by (cases v) simp

lemma handler_tasks_form:
  "results (form env req) (getVerifyCode_task env ch req)" "results (form env req) (register_task env ch req)"
  "results (form env req) (login_task env ju ch req)" "results (form env req) (getProfile_task env ju ch req)"
  "results (form env req) (updateAvatar_task env ju ch req)" "results (form env req) (getAvatar_task env ju ch req)"
  "results (form env req) (changePassword_task env ju ch req)"
  "results (form env req) (bindPlatform_task env ju ch req)"
  unfolding handler_task_defs Let_def
  by (auto intro!: json_with_token result_intros)


definition answered_well :: "env \<Rightarrow> http_request \<Rightarrow> http_response outcome \<Rightarrow> bool" where
  "answered_well env req r \<longleftrightarrow> r = Undefined \<or> (\<exists>res. r = Ok res \<and> well_formed env req res)"

lemma answer_task_form:
  assumes "dumps_ascii (ev_json env)" and "\<And>e. ascii (what e)"
  shows "results (answered_well env req) (answer_task env what secret wrap ch req)"
proof -
  let ?t = "case find_task env (new_jwt_util secret) wrap (rq_method req) (rq_target req) of
      Some h \<Rightarrow> h ch req | None \<Rightarrow> error_task env req status_not_found ''Not found''"
  have "results (form env req) (h ch req)"
    if "find_task env (new_jwt_util secret) wrap (rq_method req) (rq_target req) = Some h" for h
    using find_task_cases [OF that] handler_tasks_form by (auto simp: json_task_form)
  then have t: "results (form env req) ?t"
    by (cases "find_task env (new_jwt_util secret) wrap (rq_method req) (rq_target req)")
      (simp_all add: error_task_form)
  have "results (answered_well env req) (error_task env req 500 (what e))" for e
  proof -
    obtain res where "buildErrorResponse (ev_json env) 500 (rq_version req) (what e) = Ok res"
      using buildErrorResponse_ascii [OF assms] by blast
    then show ?thesis using error_task_form [of 500 env req "what e"] by (simp add: error_task_def answered_well_def)
  qed
  from results_catch [OF t this] show ?thesis by (simp add: answer_task_def answered_well_def)
qed

section \<open>How long a request takes\<close>

named_theorems end_intros \<open>tasks that end after a number of actions\<close>

lemma ends_in_map:
  assumes atom: "\<And>f. F (Atom f) = Atom (\<lambda>s. map_prod F (\<lambda>t. t) (f s))"
    and done_: "\<And>r. ends_in n (F (Done r))" and t: "ends_in m t"
  shows "ends_in (m + n) (F t)"
  using t
proof (induction rule: ends_in.induct)
  case (Done m r)
  show ?case using ends_in_mono [OF done_ [of r], of "m + n"] by simp
next
  case (Atom m f)
  then show ?case by (simp add: atom ends_in_Suc_Atom)
qed

lemma ends_in_bind: "ends_in m t \<Longrightarrow> (\<And>x. ends_in n (g x)) \<Longrightarrow> ends_in (m + n) (bind_task t g)"
  by (rule ends_in_map [where F = "\<lambda>t. bind_task t g"]) (auto split: outcome.splits)

lemma ends_in_catch: "ends_in m t \<Longrightarrow> (\<And>e. ends_in n (h e)) \<Longrightarrow> ends_in (m + n) (catch_task t h)"
  by (rule ends_in_map [where F = "\<lambda>t. catch_task t h"]) (auto split: outcome.splits)

lemma ends_in_dao_in: "ends_in m t \<Longrightarrow> ends_in m (dao_in t)"
proof (induction rule: ends_in.induct)
  case (Atom m f)
  then show ?case by (simp add: ends_in_Suc_Atom)
qed simp

lemma ends_in_once: "ends_in (Suc n) (once m)"
  by (simp add: once_def ends_in_Suc_Atom case_prod_beta)

lemma ends_bind_Done: "(\<And>x. ends_in n (g x)) \<Longrightarrow> ends_in n (bind_task (Done r) g)"
  using ends_in_bind [of 0 "Done r" n g] by simp

lemma ends_reply [end_intros]: "ends_in n (error_task env req st m)" "ends_in n (json_task env req j)"
  by (auto simp: error_task_def json_task_def split: outcome.splits)

lemma ends_bind_once [end_intros]: "(\<And>x. ends_in n (g x)) \<Longrightarrow> ends_in (Suc n) (bind_task (once m) g)"
  using ends_in_bind [OF ends_in_once [of 0]] by force

lemma ends_bind_read [end_intros]:
  "(\<And>x. ends_in n (g x)) \<Longrightarrow> ends_in n (bind_task (body_task env req) g)"
  "(\<And>x. ends_in n (h x)) \<Longrightarrow> ends_in n (bind_task (text_task j k) h)"
  "(\<And>x. ends_in n (i x)) \<Longrightarrow> ends_in n (bind_task (id_task env token) i)"
  "(\<And>x. ends_in n (l x)) \<Longrightarrow> ends_in n (bind_task (Done (generateToken jw ju now u c v)) l)"
  unfolding body_task_def text_task_def id_task_def
  by (auto intro: ends_bind_Done split: outcome.splits option.splits)

lemma ends_bind_json [end_intros]: "ends_in n (bind_task (json_task env req j) (\<lambda>res. value_task (f res)))"
  using json_task_Done [of env req j] by (auto split: outcome.splits)

lemma ends_bind_dao:
  assumes "\<And>c. ends_in m (body c)" and "\<And>x. ends_in n (g x)"
  shows "ends_in (m + 2 + n) (bind_task (dao_in (dao_task srv failed body)) g)"
  by (intro ends_in_bind ends_in_dao_in ends_in_dao_task assms)

lemma ends_bind_one [end_intros]:
  assumes "\<And>x. ends_in n (g x)"
  shows "ends_in (Suc (Suc (Suc n))) (bind_task (dao_in (dao_task srv failed (\<lambda>c. stmt srv c (st c) (\<lambda>x. Done (r x))))) g)"
proof -
  have "ends_in 1 (stmt srv c (st c) (\<lambda>x. Done (r x)))" for c by (simp add: ends_in_stmt)
  from ends_bind_dao [OF this assms] show ?thesis by simp
qed

lemma ends_bind_create [end_intros]:
  assumes "\<And>x. ends_in n (g x)"
  shows "ends_in (Suc (Suc (Suc (Suc n)))) (bind_task (dao_in (createUser_task srv evp u)) g)"
proof -
  have "ends_in 2 (create_body srv evp u c)" for c
    unfolding create_body_def create_tail_def numeral_2_eq_2 by (intro ends_in_stmt) simp
  from ends_bind_dao [OF this assms, of srv "(False, u)"] show ?thesis
    by (simp add: createUser_task_def eval_nat_numeral)
qed

lemma ends_if [end_intros]: "ends_in n t \<Longrightarrow> ends_in n u \<Longrightarrow> ends_in n (if b then t else u)"
  by simp

lemma ends_option [end_intros]:
  "ends_in n t \<Longrightarrow> (\<And>x. ends_in n (f x)) \<Longrightarrow> ends_in n (case v of None \<Rightarrow> t | Some x \<Rightarrow> f x)"
  by (cases v) simp_all

lemma ends_prod [end_intros]: "(\<And>x y. ends_in n (f x y)) \<Longrightarrow> ends_in n (case v of (x, y) \<Rightarrow> f x y)"
  by (cases v) simp

lemma ends_avatar_dir [end_intros]:
  "(\<And>x. ends_in n (g x)) \<Longrightarrow> ends_in (Suc (Suc n)) (bind_task (avatar_dir_task env) g)"
proof -
  assume g: "\<And>x. ends_in n (g x)"
  have "ends_in 2 (avatar_dir_task env)"
    unfolding avatar_dir_task_def numeral_2_eq_2
    by (intro end_intros ends_in_once ends_in_Done [THEN iffD2] TrueI)
  from ends_in_bind [OF this g] show ?thesis by simp
qed

lemma ends_send [end_intros]:
  "(\<And>x. ends_in n (g x)) \<Longrightarrow> ends_in (Suc (Suc n)) (bind_task (send_task env ch email action) g)"
proof -
  assume g: "\<And>x. ends_in n (g x)"
  have "ends_in 2 (send_task env ch email action)"
    unfolding send_task_def numeral_2_eq_2 Let_def by (intro end_intros ends_in_Done [THEN iffD2] TrueI)
  from ends_in_bind [OF this g] show ?thesis by simp
qed

lemma ends_check [end_intros]:
  "(\<And>x. ends_in n (g x)) \<Longrightarrow> ends_in (Suc (Suc (Suc (Suc n)))) (bind_task (check_task now email action code) g)"
proof -
  assume g: "\<And>x. ends_in n (g x)"
  have "ends_in (Suc (Suc (Suc (Suc 0)))) (check_task now email action code)"
    unfolding check_task_def by (intro end_intros ends_in_once ends_in_Done [THEN iffD2] TrueI)
  from ends_in_bind [OF this g] show ?thesis by simp
qed

lemma ends_catch_both [end_intros]:
  assumes "ends_in n t"
  shows "ends_in n (catch_both env req t)"
  unfolding catch_both_def
proof (rule ends_in_catch [of n t 0, simplified])
  show "ends_in n t" by fact
  fix e show "ends_in 0 (case e of JsonException \<Rightarrow> error_task env req status_bad_request ''Invalid JSON format''
      | _ \<Rightarrow> error_task env req status_internal_server_error ''Internal server error'')"
    by (cases e) (simp_all add: ends_reply)
qed

lemma eleven_actions: "(11::nat) = Suc (Suc (Suc (Suc (Suc (Suc (Suc (Suc (Suc (Suc (Suc 0))))))))))"
  by simp

lemma handler_tasks_end:
  "ends_in 11 (getVerifyCode_task env ch req)" "ends_in 11 (register_task env ch req)"
  "ends_in 11 (login_task env ju ch req)" "ends_in 11 (getProfile_task env ju ch req)"
  "ends_in 11 (updateAvatar_task env ju ch req)" "ends_in 11 (getAvatar_task env ju ch req)"
  "ends_in 11 (changePassword_task env ju ch req)" "ends_in 11 (bindPlatform_task env ju ch req)"
  unfolding handler_task_defs user_task_defs Let_def eleven_actions by (intro end_intros)+

lemma answer_task_ends: "ends_in 11 (answer_task env what secret wrap ch req)"
proof -
  have "ends_in 11 (h ch req)"
    if "find_task env (new_jwt_util secret) wrap (rq_method req) (rq_target req) = Some h" for h
    using find_task_cases [OF that] handler_tasks_end by (auto simp: ends_reply)
  then have "ends_in 11 (case find_task env (new_jwt_util secret) wrap (rq_method req) (rq_target req) of
      Some h \<Rightarrow> h ch req | None \<Rightarrow> error_task env req status_not_found ''Not found'')"
    by (cases "find_task env (new_jwt_util secret) wrap (rq_method req) (rq_target req)")
      (simp_all add: ends_reply)
  from ends_in_catch [OF this ends_reply(1) [of 0]] show ?thesis by (simp add: answer_task_def)
qed


lemma run_schedule_results:
  assumes "run_schedule is (ts, s) = (ts', s')" and "\<And>i. i < length ts \<Longrightarrow> results (R i) (ts ! i)" and "i < length ts'"
  shows "results (R i) (ts' ! i)"
proof -
  have "\<forall>i < length ts'. results (R i) (ts' ! i)"
  proof (rule run_schedule_inv [where P = "\<lambda>ts s. \<forall>i < length ts. results (R i) (ts ! i)", OF _ assms(1)])
    fix ts :: "('a, 'b) task list" and s i f t s'
    assume "\<forall>i < length ts. results (R i) (ts ! i)" "i < length ts" "ts ! i = Atom f" "f s = (t, s')"
    moreover from this have "results (R i) t" by (metis fst_conv results_Atom)
    ultimately show "\<forall>j < length (ts[i := t]). results (R j) (ts[i := t] ! j)" by (simp add: nth_list_update)
  qed (use assms(2) in simp)
  with assms(3) show ?thesis by simp
qed

section \<open>Properties\<close>

text \<open>
  a request cut into its actions is the request when no other thread acts in between: the tasks
  refine \<open>Session::handleRequest\<close>, the router and all eight handlers, on every state and with every
  failure.
\<close>

theorem tasks_refine_requests:
  "run_task (answer_task env what secret wrap ch req) w =
     handleRequest env what (program_router env secret wrap) ch req w"
  by (rule fun_cong [OF run_answer_task])

end
