(* ===== verification/Ghosts.thy ===== *)
theory Ghosts
  imports Requests
begin

text \<open>
  What a thread knows. Next to its task a thread has a ghost: the row it inserted, the tables it read.
  Every action may change the ghost by the relation \<open>step\<close>, and when the task is done the ghost
  justifies the outcome. The other threads do not occur in this argument; \<open>schedule_ghosts\<close> and
  \<open>schedule_moment\<close> bring them in.
\<close>

section \<open>Tasks with a ghost\<close>

inductive ghost :: "('g \<Rightarrow> 'g \<Rightarrow> 's \<Rightarrow> 's \<Rightarrow> bool) \<Rightarrow> ('g \<Rightarrow> 'a outcome \<Rightarrow> bool) \<Rightarrow> 'g \<Rightarrow> ('s, 'a) task \<Rightarrow> bool"
  for step R where
  Done: "R g r \<Longrightarrow> ghost step R g (Done r)"
| Atom: "(\<And>s. \<exists>g'. step g g' s (snd (f s)) \<and> ghost step R g' (fst (f s))) \<Longrightarrow> ghost step R g (Atom f)"

inductive_simps ghost_Done [simp]: "ghost step R g (Done r)"
inductive_simps ghost_Atom: "ghost step R g (Atom f)"

lemma ghost_mono:
  assumes "ghost step R g t" and "\<And>g r. R g r \<Longrightarrow> Q g r"
  shows "ghost step Q g t"
  using assms(1)
proof (induction rule: ghost.induct)
  case (Atom g f)
  then show ?case by (meson ghost.Atom)
qed (simp add: assms(2))

lemma ghost_any: "ghost (\<lambda>g g' _ _. g' = g) (\<lambda>_ _. True) g t"
proof (induction t)
  case (Atom f)
  have "ghost (\<lambda>g g' _ _. g' = g) (\<lambda>_ _. True) g (fst (f s))" for s
    using Atom.IH [of "f s" "fst (f s)"] by (simp add: prod_set_defs)
  then show ?case by (simp add: ghost_Atom)
qed simp

text \<open>A ghost that its steps do not change\<close>

lemma ghost_still:
  assumes "ghost (\<lambda>g g' s s'. g' = g \<and> step g s s') (\<lambda>_ _. True) g t"
  shows "ghost (\<lambda>g g' s s'. g' = g \<and> step g s s') (\<lambda>g' _. g' = g) g t"
  using assms
proof (induction rule: ghost.induct)
  case (Atom g f)
  have "step g s (snd (f s)) \<and> ghost (\<lambda>g g' s s'. g' = g \<and> step g s s') (\<lambda>g' _. g' = g) g (fst (f s))" for s
    using Atom [of s] by auto
  then show ?case by (simp add: ghost_Atom)
qed simp

text \<open>Tasks built from tasks: \<open>F\<close> goes to the end of the first one.\<close>

lemma ghost_map:
  assumes atom: "\<And>f. F (Atom f) = Atom (\<lambda>s. map_prod F (\<lambda>t. t) (f s))"
    and done_: "\<And>g r. R g r \<Longrightarrow> ghost step Q g (F (Done r))" and t: "ghost step R g t"
  shows "ghost step Q g (F t)"
  using t
proof (induction rule: ghost.induct)
  case (Atom g f)
  show ?case
    unfolding atom
  proof (rule ghost.Atom)
    fix s show "\<exists>g'. step g g' s (snd (map_prod F (\<lambda>t. t) (f s))) \<and> ghost step Q g' (fst (map_prod F (\<lambda>t. t) (f s)))"
      using Atom [of s] by auto
  qed
qed (simp add: done_)

lemma ghost_bind:
  assumes "ghost step R g t" and "\<And>g x. R g (Ok x) \<Longrightarrow> ghost step Q g (k x)"
    and "\<And>g e. R g (Raised e) \<Longrightarrow> Q g (Raised e)" and "\<And>g. R g Undefined \<Longrightarrow> Q g Undefined"
  shows "ghost step Q g (bind_task t k)"
  by (rule ghost_map [where F = "\<lambda>t. bind_task t k" and R = R]) (use assms in \<open>auto split: outcome.splits\<close>)

lemma ghost_catch:
  assumes "ghost step R g t" and "\<And>g e. ghost step Q g (h e)"
    and "\<And>g x. R g (Ok x) \<Longrightarrow> Q g (Ok x)" and "\<And>g. R g Undefined \<Longrightarrow> Q g Undefined"
  shows "ghost step Q g (catch_task t h)"
  by (rule ghost_map [where F = "\<lambda>t. catch_task t h" and R = R]) (use assms in \<open>auto split: outcome.splits\<close>)

lemma ghost_if: "ghost step R g t \<Longrightarrow> ghost step R g u \<Longrightarrow> ghost step R g (if b then t else u)"
  by simp

lemma ghost_option:
  "(x = None \<Longrightarrow> ghost step R g t) \<Longrightarrow> (\<And>y. x = Some y \<Longrightarrow> ghost step R g (f y)) \<Longrightarrow>
   ghost step R g (case x of None \<Rightarrow> t | Some y \<Rightarrow> f y)"
  by (cases x) simp_all

lemma ghost_once:
  assumes "\<And>s. step g g s (snd (m s))" and "\<And>s. R g (fst (m s))"
  shows "ghost step R g (once m)"
  unfolding once_def by (rule ghost.Atom) (use assms in auto)

text \<open>The check of a code, for ghosts that nothing changes when the state stays\<close>

lemma ghost_check:
  assumes "\<And>w. step g g w w" and "\<And>r. R g r"
  shows "ghost step R g (check_task now email action code)"
proof -
  have reads: "ghost step (\<lambda>g' _. g' = g) g (once (read_member email p get))" for p get
    by (rule ghost_once) (simp_all add: read_member_def assms(1))
  have find: "ghost step (\<lambda>g' _. g' = g) g (once (find_code email))"
    by (rule ghost_once) (simp_all add: find_code_def gets_def assms(1))
  show ?thesis
    unfolding check_task_def
    by (rule ghost_bind [OF find], rule ghost_option)
      (auto intro!: ghost_bind [OF reads] ghost_if simp: assms(2))
qed

text \<open>The parts of a handler that take no action\<close>

lemma ghost_body:
  assumes "\<And>j. jl_parse (ev_json env) (rq_body req) = Some j \<Longrightarrow> ghost step R g (k j)"
    and "R g (Raised JsonException)"
  shows "ghost step R g (bind_task (body_task env req) k)"
  using assms by (auto simp: body_task_def parse_json_def split: option.splits)

lemma ghost_text:
  assumes "\<And>v. get_string j n = Ok v \<Longrightarrow> ghost step R g (k v)" and "R g (Raised JsonException)"
  shows "ghost step R g (bind_task (text_task j n) k)"
  by (rule get_string_cases [of j n]) (simp_all add: text_task_def assms)

lemma ghost_when:
  "(b \<Longrightarrow> ghost step R g t) \<Longrightarrow> (\<not> b \<Longrightarrow> ghost step R g u) \<Longrightarrow> ghost step R g (if b then t else u)"
  by simp

lemma any_text:
  "(\<And>v. get_string j n = Ok v \<Longrightarrow> ghost step (\<lambda>_ _. True) g (k v)) \<Longrightarrow>
   ghost step (\<lambda>_ _. True) g (bind_task (text_task j n) k)"
  by (rule ghost_text) simp_all

text \<open>A response that promises nothing is any but one with status 200.\<close>

definition accepted :: "http_response outcome \<Rightarrow> bool" where
  "accepted r \<longleftrightarrow> (\<exists>res. r = Ok res \<and> rs_status res = 200)"

lemma accepted_simps [simp]: "\<not> accepted (Raised e)" "\<not> accepted Undefined"
  "accepted (Ok res) \<longleftrightarrow> rs_status res = 200"
  by (simp_all add: accepted_def)

lemma ghost_error:
  assumes "\<And>g r. \<not> accepted r \<Longrightarrow> R g r" and "st \<noteq> 200"
  shows "ghost step R g (error_task env req st m)"
  by (rule buildErrorResponse_cases [of "ev_json env" st "rq_version req" m])
    (use assms in \<open>simp_all add: error_task_def\<close>)

lemma ghost_catch_both:
  assumes "\<And>g r. \<not> accepted r \<Longrightarrow> R g r" and "ghost step R g t"
  shows "ghost step R g (catch_both env req t)"
  unfolding catch_both_def
proof (rule ghost_catch [OF assms(2)])
  fix g e show "ghost step R g (case e of
      JsonException \<Rightarrow> error_task env req status_bad_request ''Invalid JSON format''
    | _ \<Rightarrow> error_task env req status_internal_server_error ''Internal server error'')"
    by (cases e) (simp_all add: ghost_error assms(1))
qed

text \<open>Tasks that keep to \<open>step\<close>, whatever they know and answer in the end\<close>

named_theorems any_intros \<open>tasks with a ghost, whatever their outcome\<close>

lemma any_bind [any_intros]:
  "ghost step (\<lambda>_ _. True) g t \<Longrightarrow> (\<And>g x. ghost step (\<lambda>_ _. True) g (k x)) \<Longrightarrow>
   ghost step (\<lambda>_ _. True) g (bind_task t k)"
  by (rule ghost_bind) auto

lemma any_catch [any_intros]:
  "ghost step (\<lambda>_ _. True) g t \<Longrightarrow> (\<And>g e. ghost step (\<lambda>_ _. True) g (h e)) \<Longrightarrow>
   ghost step (\<lambda>_ _. True) g (catch_task t h)"
  by (rule ghost_catch) auto

lemma any_branch [any_intros]:
  "ghost step (\<lambda>_ _. True) g t \<Longrightarrow> ghost step (\<lambda>_ _. True) g u \<Longrightarrow>
   ghost step (\<lambda>_ _. True) g (if b then t else u)"
  "ghost step (\<lambda>_ _. True) g t \<Longrightarrow> (\<And>x. ghost step (\<lambda>_ _. True) g (f x)) \<Longrightarrow>
   ghost step (\<lambda>_ _. True) g (case v of None \<Rightarrow> t | Some x \<Rightarrow> f x)"
  by (auto split: option.splits)

lemma any_prod [any_intros]:
  "(\<And>x y. ghost step (\<lambda>_ _. True) g (f x y)) \<Longrightarrow>
   ghost step (\<lambda>_ _. True) g (case v of (x, y) \<Rightarrow> f x y)"
  by (cases v) simp

lemma any_Done [any_intros]: "ghost step (\<lambda>_ _. True) g (Done r)"
  by simp

lemma any_replies [any_intros]:
  "ghost step (\<lambda>_ _. True) g (error_task env req st m)" "ghost step (\<lambda>_ _. True) g (json_task env req j)"
  "ghost step (\<lambda>_ _. True) g (body_task env req)" "ghost step (\<lambda>_ _. True) g (text_task j k)"
  "ghost step (\<lambda>_ _. True) g (id_task env token)"
  unfolding error_task_def json_task_def body_task_def text_task_def id_task_def by (intro any_intros)+

lemma any_catch_both [any_intros]:
  assumes "ghost step (\<lambda>_ _. True) g t"
  shows "ghost step (\<lambda>_ _. True) g (catch_both env req t)"
  unfolding catch_both_def by (intro any_intros assms) (auto intro: any_intros split: exn.splits)

text \<open>A request through the router and the session\<close>

lemma ghost_answer:
  assumes refused: "\<And>g r. \<not> accepted r \<Longrightarrow> R g r"
    and "\<And>h. find_task env (new_jwt_util secret) wrap (rq_method req) (rq_target req) = Some h \<Longrightarrow>
      ghost step R g (h ch req)"
  shows "ghost step R g (answer_task env what secret wrap ch req)"
  unfolding answer_task_def
proof (rule ghost_catch [where R = R])
  show "ghost step R g (case find_task env (new_jwt_util secret) wrap (rq_method req) (rq_target req) of
      Some h \<Rightarrow> h ch req | None \<Rightarrow> error_task env req status_not_found ''Not found'')"
    using assms(2) ghost_error [where R = R, OF refused] by (auto split: option.splits)
qed (simp_all add: ghost_error refused)

section \<open>Operations\<close>

lemma ghost_dao_in:
  assumes "ghost step R g t" and "\<And>g g' (w :: world) d. step g g' (w_dao w) d \<Longrightarrow> step' g g' w (w\<lparr>w_dao := d\<rparr>)"
  shows "ghost step' R g (dao_in t)"
  using assms(1)
proof (induction rule: ghost.induct)
  case (Atom g f)
  show ?case
    unfolding dao_in.simps
  proof (rule ghost.Atom)
    fix w :: world
    let ?r = "map_prod dao_in (\<lambda>d. w\<lparr>w_dao := d\<rparr>) (f (w_dao w))"
    show "\<exists>g'. step' g g' w (snd ?r) \<and> ghost step' R g' (fst ?r)"
      using Atom [of "w_dao w"] assms(2) by fastforce
  qed
qed simp

text \<open>Ghosts that only look at the tables: the guard and the pool do not concern them.\<close>

definition of_tables :: "('g \<Rightarrow> 'g \<Rightarrow> dao_state \<Rightarrow> dao_state \<Rightarrow> bool) \<Rightarrow> bool" where
  "of_tables step \<longleftrightarrow> (\<forall>g s s'. ds_db s' = ds_db s \<longrightarrow> step g g s s')"

lemma of_tablesD: "of_tables step \<Longrightarrow> ds_db s' = ds_db s \<Longrightarrow> step g g s s'"
  by (simp add: of_tables_def)

lemma ghost_guarded:
  assumes "of_tables step" and "ghost step R g t" and "\<And>g. R g (Raised SqlException) \<Longrightarrow> R g (Ok failed)"
  shows "ghost step R g (guarded c failed t)"
proof (rule ghost_map [where F = "guarded c failed" and R = R, OF _ _ assms(2)])
  fix g r assume r: "R g r"
  show "ghost step R g (guarded c failed (Done r))"
    unfolding guarded.simps
    by (rule ghost.Atom, rule exI [of _ g]) (use r assms(3) in \<open>auto intro: of_tablesD [OF assms(1)]\<close>)
qed simp

lemma ghost_dao_task:
  assumes "of_tables step" and "\<And>c. ghost step R g (body c)"
    and "\<And>g. R g (Raised SqlException) \<Longrightarrow> R g (Ok failed)" and "R g Undefined"
  shows "ghost step R g (dao_task srv failed body)"
  unfolding dao_task_def
  by (rule ghost.Atom, rule exI [of _ g])
    (use assms(2-4) in \<open>auto simp: Let_def split: prod.splits option.splits
       intro: of_tablesD [OF assms(1)] ghost_guarded [OF assms(1)]\<close>)

text \<open>A statement: what the ghost becomes when it succeeds, and when the call fails\<close>

lemma ghost_stmt:
  assumes "\<And>s x s'. jdbc srv c st s = (Ok x, s') \<Longrightarrow> \<exists>g'. step g g' s s' \<and> ghost step R g' (k x)"
    and "\<And>s s'. jdbc srv c st s = (Raised SqlException, s') \<Longrightarrow> step g g s s' \<and> R g (Raised SqlException)"
  shows "ghost step R g (stmt srv c st k)"
  unfolding stmt_def
proof (rule ghost.Atom)
  fix s
  let ?r = "case jdbc srv c st s of (Ok x, s') \<Rightarrow> (k x, s') | (Raised e, s') \<Rightarrow> (Done (Raised e), s')
     | (Undefined, s') \<Rightarrow> (Done Undefined, s')"
  obtain r s' where call: "jdbc srv c st s = (r, s')" by fastforce
  then show "\<exists>g'. step g g' s (snd ?r) \<and> ghost step R g' (fst ?r)"
    by (cases rule: jdbc_cases) (use assms call in fastforce)+
qed

section \<open>Schedules\<close>

text \<open>An invariant of the ghosts and the state that every step of a ghost keeps\<close>

lemma schedule_ghosts:
  assumes "run_schedule is (ts, s) = (ts', s')" and "\<And>i. i < length ts \<Longrightarrow> ghost step (R i) (gs i) (ts ! i)"
    and "P gs s" and "\<And>gs s i g s'. P gs s \<Longrightarrow> step (gs i) g s s' \<Longrightarrow> P (gs(i := g)) s'"
  shows "\<exists>gs. P gs s' \<and> (\<forall>i < length ts. ghost step (R i) (gs i) (ts' ! i))"
proof -
  let ?P = "\<lambda>us u. length us = length ts \<and> (\<exists>gs. P gs u \<and> (\<forall>i < length ts. ghost step (R i) (gs i) (us ! i)))"
  have "?P ts' s'"
  proof (rule run_schedule_inv [where P = ?P, OF _ assms(1)])
    show "?P ts s" using assms(2,3) by blast
  next
    fix us u i f t u'
    assume Pu: "?P us u" and act: "i < length us" "us ! i = Atom f" "f u = (t, u')"
    then obtain gs where gs: "P gs u" "\<forall>i < length ts. ghost step (R i) (gs i) (us ! i)" by blast
    then obtain g where "step (gs i) g u u'" "ghost step (R i) g t"
      using act Pu by (metis fst_conv ghost_Atom snd_conv)
    then have "P (gs(i := g)) u' \<and> (\<forall>j < length ts. ghost step (R j) ((gs(i := g)) j) (us[i := t] ! j))"
      using assms(4) [OF gs(1)] gs(2) Pu by (simp add: nth_list_update)
    then show "?P (us[i := t]) u'" using Pu by auto
  qed
  then show ?thesis by blast
qed

text \<open>A ghost that remembers a state, and the moment of that state in the run: the thread acts at it.\<close>

definition remembers :: "('s \<Rightarrow> 'v) \<Rightarrow> 'v option \<Rightarrow> 'v option \<Rightarrow> 's \<Rightarrow> 's \<Rightarrow> bool" where
  "remembers view g g' s s' \<longleftrightarrow> g' = g \<or> g' = Some (view s)"

lemma schedule_moment:
  assumes "run_schedule is (ts, s) = (ts', s')" and "i < length ts" and "ghost step R None (ts ! i)"
    and remembers: "\<And>g g' s s'. step g g' s s' \<Longrightarrow> remembers view g g' s s'"
  shows "\<exists>g. ghost step R g (ts' ! i) \<and>
    (\<forall>v. g = Some v \<longrightarrow> (\<exists>js ks us u. is = js @ i # ks \<and> run_schedule js (ts, s) = (us, u) \<and> v = view u))"
  using assms(1)
proof (induction "is" arbitrary: ts' s' rule: rev_induct)
  case Nil
  then show ?case using assms(3) by auto
next
  case (snoc k "is")
  obtain us u where run: "run_schedule is (ts, s) = (us, u)" by fastforce
  have last: "act k (us, u) = (ts', s')" using snoc.prems run by (simp add: run_schedule_append del: act.simps)
  from snoc.IH [OF run] obtain g where g: "ghost step R g (us ! i)"
    "\<forall>v. g = Some v \<longrightarrow> (\<exists>js ks us u. is = js @ i # ks \<and> run_schedule js (ts, s) = (us, u) \<and> v = view u)" by blast
  then have before: "\<forall>v. g = Some v \<longrightarrow> (\<exists>js ks us u. is @ [k] = js @ i # ks \<and> run_schedule js (ts, s) = (us, u) \<and> v = view u)"
    by (metis append.assoc append_Cons)
  show ?case
  proof (cases rule: act_cases [of k us u])
    case idle
    then show ?thesis using last g(1) before by auto
  next
    case (acted f t v)
    then have ts': "ts' = us[k := t]" using last by simp
    show ?thesis
    proof (cases "k = i")
      case False
      then show ?thesis using ts' g(1) before by auto
    next
      case True
      then obtain g' where g': "remembers view g g' u v" "ghost step R g' t"
        using g(1) acted remembers by (metis fst_conv ghost_Atom snd_conv)
      have "\<forall>v. g' = Some v \<longrightarrow> (\<exists>js ks us u. is @ [k] = js @ i # ks \<and> run_schedule js (ts, s) = (us, u) \<and> v = view u)"
      proof (intro allI impI)
        fix v assume "g' = Some v"
        with g'(1) consider "g = Some v" | "v = view u" by (auto simp: remembers_def)
        then show "\<exists>js ks us u. is @ [k] = js @ i # ks \<and> run_schedule js (ts, s) = (us, u) \<and> v = view u"
          using before run True by cases blast+
      qed
      moreover have "ts' ! i = t" using ts' True acted(1) by simp
      ultimately show ?thesis using g'(2) by auto
    qed
  qed
qed

end
