(* ===== verification/Sweeps.thy ===== *)
theory Sweeps
  imports Ghosts Server
begin

text \<open>
  The main thread beside the requests: \<open>Server::run\<close> of \<open>src/server/Server.cpp\<close> sweeps the store of codes
  every five seconds while the workers answer. A sweep erases entries to which \<open>verifyCode\<close> may still
  hold a pointer, so whether the requests are answered depends on what the sweeps find.
\<close>

section \<open>The program as threads\<close>

text \<open>\<open>cleanupExpiredCodes\<close>, under the mutex; every entry that is gone afterwards has changed once.\<close>

definition sweep_codes :: "int \<Rightarrow> (world, nat) prog" where
  "sweep_codes now w =
     (let m_codes = vs_codes (w_verify w) in
      case cleanupExpiredCodes now m_codes of
        (n, kept) \<Rightarrow>
          (Ok n, w\<lparr>w_verify := (w_verify w)\<lparr>vs_codes := kept,
             vs_changes := (\<lambda>email. if map_of m_codes email \<noteq> None \<and> map_of kept email = None
                           then vs_changes (w_verify w) email + 1 else vs_changes (w_verify w) email)\<rparr>\<rparr>))"

text \<open>The loop of \<open>run\<close>, with the times at which it sweeps until the flag is false\<close>

primrec sweeper :: "int list \<Rightarrow> (world, 'a option) task" where
  "sweeper [] = value_task None"
| "sweeper (now # rest) = bind_task (once (sweep_codes now)) (\<lambda>_. sweeper rest)"

text \<open>The requests that the workers answer, each a thread, and the main thread after them\<close>

definition request_thread :: "env \<Rightarrow> (exn \<Rightarrow> string) \<Rightarrow> string \<Rightarrow> (string \<Rightarrow> json) \<Rightarrow> chance \<times> http_request \<Rightarrow>
    (world, http_response option) task" where
  "request_thread env what secret wrap =
     (\<lambda>(ch, req). bind_task (answer_task env what secret wrap ch req) (\<lambda>res. value_task (Some res)))"

definition program_tasks :: "env \<Rightarrow> (exn \<Rightarrow> string) \<Rightarrow> string \<Rightarrow> (string \<Rightarrow> json) \<Rightarrow> (chance \<times> http_request) list \<Rightarrow>
    int list \<Rightarrow> (world, http_response option) task list" where
  "program_tasks env what secret wrap reqs sweeps =
     map (request_thread env what secret wrap) reqs @ [sweeper sweeps]"

lemma length_program_tasks [simp]: "length (program_tasks env what secret wrap reqs sweeps) = Suc (length reqs)"
  by (simp add: program_tasks_def)

lemma nth_program_tasks:
  "i < length reqs \<Longrightarrow> program_tasks env what secret wrap reqs sweeps ! i = request_thread env what secret wrap (reqs ! i)"
  "program_tasks env what secret wrap reqs sweeps ! length reqs = sweeper sweeps"
  by (simp_all add: program_tasks_def nth_append)

lemma ghost_request:
  assumes "ghost step R g (answer_task env what secret wrap (fst x) (snd x))"
  shows "ghost step (\<lambda>g r. \<forall>res. r = Ok (Some res) \<longrightarrow> R g (Ok res)) g (request_thread env what secret wrap x)"
  unfolding request_thread_def case_prod_beta by (rule ghost_bind [OF assms]) simp_all

lemma request_ends: "ends_in 11 (request_thread env what secret wrap x)"
  using ends_in_bind [OF answer_task_ends, of 0 "\<lambda>res. value_task (Some res)"]
  by (simp add: request_thread_def case_prod_beta)

lemma request_alone:
  assumes "i < length ts" and "ts ! i = request_thread env what secret wrap (ch, req)"
    and "run_task (answer_task env what secret wrap ch req) w = (Ok res, w')"
  shows "run_schedule (replicate 11 i) (ts, w) = (ts[i := Done (Ok (Some res))], w')"
proof (rule run_schedule_alone [OF assms(1)])
  show "ends_in 11 (ts ! i)" using assms(2) by (simp add: request_ends)
  show "run_task (ts ! i) w = (Ok (Some res), w')"
    using assms(2,3) by (simp add: request_thread_def run_bind_task and_then_def)
qed

text \<open>Alone, the main thread is the loop of \<open>Server\<close>.\<close>

lemma sweep_codes_codes:
  "vs_codes (w_verify (snd (sweep_codes now w))) = snd (cleanupExpiredCodes now (vs_codes (w_verify w)))"
  "w_dao (snd (sweep_codes now w)) = w_dao w"
  "vs_mail (w_verify (snd (sweep_codes now w))) = vs_mail (w_verify w)"
  by (simp_all add: sweep_codes_def Let_def case_prod_beta)

lemma sweeper_Cons: "sweeper (now # rest) = Atom (\<lambda>w. (sweeper rest, snd (sweep_codes now w)))"
  by (simp add: once_def sweep_codes_def Let_def case_prod_beta fun_eq_iff)

declare sweeper.simps(2) [simp del] sweeper_Cons [simp]

lemma sweeper_sweep_loop:
  "vs_codes (w_verify (snd (run_task (sweeper sweeps) w))) =
     snd (sweep_loop (map (\<lambda>now. (now, True)) sweeps) (vs_codes (w_verify w)))"
  by (induction sweeps arbitrary: w) (simp_all add: sweep_codes_codes case_prod_beta)

section \<open>What the sweeps keep\<close>

lemma sweep_codes_inv: "world_inv env G w \<Longrightarrow> world_inv env G (snd (sweep_codes now w))"
  using codes.invar_sweep [of "vs_codes (w_verify w)" now]
  by (auto simp: world_inv_def world_ok_def sweep_codes_def Let_def case_prod_beta le_fun_def le_SucI)

lemma sweeper_bystander: "bystander world_pool (world_inv env G) (sweeper sweeps)"
  by (induction sweeps) (auto intro!: bystander.Act simp: sweep_codes_inv sweep_codes_codes)

section \<open>When entries change\<close>

text \<open>While the count of an entry stands, the entry stays as it is.\<close>

definition steady :: "world \<Rightarrow> world \<Rightarrow> bool" where
  "steady w w' \<longleftrightarrow> (codes_inv (vs_codes (w_verify w)) \<longrightarrow> codes_inv (vs_codes (w_verify w')) \<and>
     (\<forall>e. vs_changes (w_verify w) e \<le> vs_changes (w_verify w') e \<and>
        (vs_changes (w_verify w') e = vs_changes (w_verify w) e \<longrightarrow>
          (\<forall>i. map_of (vs_codes (w_verify w)) e = Some i \<longrightarrow> map_of (vs_codes (w_verify w')) e = Some i))))"

lemma steady_same [simp]:
  "vs_codes (w_verify w') = vs_codes (w_verify w) \<Longrightarrow> vs_changes (w_verify w') = vs_changes (w_verify w) \<Longrightarrow> steady w w'"
  by (simp add: steady_def)

lemma steady_trans: "steady u v \<Longrightarrow> steady v w \<Longrightarrow> steady u w"
  unfolding steady_def by (metis le_antisym le_trans)

lemma steady_store: "steady w (snd (store_code email info w))"
  by (auto simp: steady_def store_code_def modify_def assign_code_def distinct_update update_conv')

lemma steady_sweep: "steady w (snd (sweep_codes now w))"
proof -
  let ?m = "vs_codes (w_verify w)"
  have "codes_inv ?m \<Longrightarrow> map_of (snd (cleanupExpiredCodes now ?m)) e = Some i"
    if "map_of ?m e = Some i" "map_of (snd (cleanupExpiredCodes now ?m)) e \<noteq> None" for e i
    using codes.entry_sweep [of ?m now e] that by (simp split: if_splits)
  then show ?thesis
    using codes.invar_sweep [of ?m now]
    by (auto simp: steady_def sweep_codes_def Let_def case_prod_beta)
qed

text \<open>
  The ghost of a thread: how it may change an entry. An action is steady, and keeps all counts unless it
  is such a change.
\<close>

abbreviation changing :: "(world \<Rightarrow> world \<Rightarrow> bool) \<Rightarrow> (world \<Rightarrow> world \<Rightarrow> bool) \<Rightarrow> world \<Rightarrow> world \<Rightarrow> bool" where
  "changing g g' w w' \<equiv> g' = g \<and> steady w w' \<and> (vs_changes (w_verify w') = vs_changes (w_verify w) \<or> g w w')"

lemma changing_dao [any_intros]: "ghost changing (\<lambda>_ _. True) g (dao_in t)"
  by (rule ghost_dao_in [OF ghost_any]) simp

lemma changing_once [any_intros]:
  "ghost changing (\<lambda>_ _. True) g (once (mail_code env email verify_code))"
  "ghost changing (\<lambda>_ _. True) g (check_task now email action code)"
  "ghost changing (\<lambda>_ _. True) g (once (gets f))"
  "ghost changing (\<lambda>_ _. True) g (once (write_avatar env p d))"
  "ghost changing (\<lambda>_ _. True) g (once (modify (\<lambda>w. w\<lparr>w_files := (w_files w)\<lparr>af_dir := True\<rparr>\<rparr>)))"
  by (rule ghost_once ghost_check; simp add: mail_code_def write_avatar_def and_then_def
      gets_def modify_def ret_def case_prod_beta)+

lemma changing_store:
  assumes "\<And>w w'. map_of (vs_codes (w_verify w)) email \<noteq> None \<Longrightarrow>
      w_verify w' = assign_code email info (w_verify w) \<Longrightarrow> g w w'"
  shows "ghost changing (\<lambda>_ _. True) g (once (store_code email info))"
proof (rule ghost_once)
  fix w
  let ?w = "snd (store_code email info w)"
  have "w_verify ?w = assign_code email info (w_verify w)" by (simp add: store_code_def modify_def)
  moreover from this have "vs_changes (w_verify ?w) = vs_changes (w_verify w)"
    if "map_of (vs_codes (w_verify w)) email = None"
    using that by (simp add: assign_code_def)
  ultimately have "vs_changes (w_verify ?w) = vs_changes (w_verify w) \<or> g w ?w" using assms by blast
  with steady_store show "changing g g w ?w" by simp
qed simp

text \<open>A request for a code replaces the entry of its address, when there is one.\<close>

definition asks_code :: "env \<Rightarrow> http_request \<Rightarrow> string \<Rightarrow> bool" where
  "asks_code env req email \<longleftrightarrow> rq_method req = Post \<and> rq_target req = ''/users/verify_code'' \<and>
     (\<exists>j. jl_parse (ev_json env) (rq_body req) = Some j \<and> get_string j ''email'' = Ok email)"

definition replaces :: "env \<Rightarrow> http_request \<Rightarrow> world \<Rightarrow> world \<Rightarrow> bool" where
  "replaces env req w w' \<longleftrightarrow> (\<exists>email info. asks_code env req email \<and>
     map_of (vs_codes (w_verify w)) email \<noteq> None \<and> w_verify w' = assign_code email info (w_verify w))"

lemma changing_quiet:
  "ghost changing (\<lambda>_ _. True) g (register_task env ch req)"
  "ghost changing (\<lambda>_ _. True) g (login_task env ju ch req)"
  "ghost changing (\<lambda>_ _. True) g (getProfile_task env ju ch req)"
  "ghost changing (\<lambda>_ _. True) g (updateAvatar_task env ju ch req)"
  "ghost changing (\<lambda>_ _. True) g (getAvatar_task env ju ch req)"
  "ghost changing (\<lambda>_ _. True) g (changePassword_task env ju ch req)"
  "ghost changing (\<lambda>_ _. True) g (bindPlatform_task env ju ch req)"
  unfolding handler_task_defs avatar_dir_task_def Let_def by (intro any_intros)+

lemma changing_send:
  assumes "\<And>w w' info. map_of (vs_codes (w_verify w)) email \<noteq> None \<Longrightarrow>
      w_verify w' = assign_code email info (w_verify w) \<Longrightarrow> g w w'"
  shows "ghost changing (\<lambda>_ _. True) g (send_task env ch email action)"
proof -
  have "ghost changing (\<lambda>g' _. g' = g) g (once (mail_code env email c))" for c
    by (rule ghost_once) (simp_all add: mail_code_def case_prod_beta)
  moreover have "ghost changing (\<lambda>_ _. True) g (bind_task (once (store_code email i)) (\<lambda>_. value_task True))" for i
    by (intro any_bind changing_store assms any_Done)
  ultimately show ?thesis
    unfolding send_task_def Let_def
    by (rule_tac ghost_bind [where R = "\<lambda>g' _. g' = g"]) auto
qed

lemma changing_verify_code:
  assumes "rq_method req = Post" and "rq_target req = ''/users/verify_code''" and "\<And>w w'. replaces env req w w' \<Longrightarrow> g w w'"
  shows "ghost changing (\<lambda>_ _. True) g (getVerifyCode_task env ch req)"
  unfolding getVerifyCode_task_def
proof (intro any_catch_both ghost_body ghost_when any_replies any_text)
  fix j email action
  assume j: "jl_parse (ev_json env) (rq_body req) = Some j" "get_string j ''email'' = Ok email"
  have "ghost changing (\<lambda>_ _. True) g (send_task env ch email action)"
    by (rule changing_send) (use assms j in \<open>auto simp: replaces_def asks_code_def\<close>)
  then show "ghost changing (\<lambda>_ _. True) g (bind_task (send_task env ch email action) (\<lambda>sent.
      if sent then json_task env req (message_json ''Verification code sent'')
      else error_task env req status_internal_server_error ''Failed to send verification code''))"
    by (intro any_bind any_branch any_replies)
qed simp

lemma changing_answer:
  assumes "\<And>w w'. replaces env req w w' \<Longrightarrow> g w w'"
  shows "ghost changing (\<lambda>_ _. True) g (answer_task env what secret wrap ch req)"
proof (rule ghost_answer)
  fix h assume "find_task env (new_jwt_util secret) wrap (rq_method req) (rq_target req) = Some h"
  from find_task_member [OF this] show "ghost changing (\<lambda>_ _. True) g (h ch req)"
    by (auto simp: route_tasks_def intro: changing_quiet any_replies changing_verify_code assms)
qed simp

text \<open>The main thread changes entries when it finds some that have expired.\<close>

definition erases :: "int \<Rightarrow> world \<Rightarrow> bool" where
  "erases now w \<longleftrightarrow> (\<exists>(e, info) \<in> set (vs_codes (w_verify w)). vi_expire info < now)"

lemma map_of_kept:
  assumes "map_of (snd (cleanupExpiredCodes now m)) e = None" and "map_of m e = Some i"
  shows "\<exists>(e, info) \<in> set m. vi_expire info < now"
proof -
  have "(e, i) \<in> set m" using assms(2) by (rule map_of_SomeD)
  moreover have "(e, i) \<notin> set (snd (cleanupExpiredCodes now m))"
    using assms(1) by (force simp: map_of_eq_None_iff)
  ultimately show ?thesis by (auto simp: cleanupExpiredCodes_def cleanup_loop_eq intro: bexI [of _ "(e, i)"])
qed

text \<open>A sweep at one of the times \<open>sweeps\<close> that finds something to erase\<close>

definition swept :: "int list \<Rightarrow> world \<Rightarrow> world \<Rightarrow> bool" where
  "swept sweeps w w' \<longleftrightarrow> (\<exists>now \<in> set sweeps. erases now w \<and> w' = snd (sweep_codes now w))"

lemma sweep_erases: "vs_changes (w_verify (snd (sweep_codes now w))) = vs_changes (w_verify w) \<or> erases now w"
  using map_of_kept [of now "vs_codes (w_verify w)"]
  by (auto simp: erases_def sweep_codes_def Let_def case_prod_beta fun_eq_iff) (metis not_None_eq)

lemma changing_sweeper:
  "set sweeps \<subseteq> set all \<Longrightarrow> ghost changing (\<lambda>_ _. True) (swept all) (sweeper sweeps)"
proof (induction sweeps)
  case (Cons now sweeps)
  then have "vs_changes (w_verify (snd (sweep_codes now w))) = vs_changes (w_verify w) \<or> swept all w (snd (sweep_codes now w))" for w
    using sweep_erases [of now w] by (auto simp: swept_def)
  with Cons steady_sweep show ?case by (simp add: ghost_Atom)
qed simp

text \<open>When a count has grown, there was an action that changed the entry.\<close>

lemma schedule_changed:
  assumes "run_schedule is (ts, w) = (ts', w')"
    and "\<And>i. i < length ts \<Longrightarrow> ghost changing (\<lambda>_ _. True) (Q i) (ts ! i)"
  shows "vs_changes (w_verify w') = vs_changes (w_verify w) \<or> (\<exists>i < length ts. at_action is (ts, w) i (Q i))"
  using assms(1)
proof (induction "is" arbitrary: ts' w' rule: rev_induct)
  case Nil
  then show ?case by simp
next
  case (snoc k "is")
  obtain us u where run: "run_schedule is (ts, w) = (us, u)" by fastforce
  have last: "act k (us, u) = (ts', w')" using snoc.prems run by (simp add: run_schedule_append del: act.simps)
  have len: "length us = length ts" using length_run_schedule [of "is" "(ts, w)"] run by simp
  have "vs_changes (w_verify w') = vs_changes (w_verify u) \<or> k < length ts \<and> Q k u w'"
  proof (cases rule: act_cases [of k us u])
    case (acted f t v)
    have "\<exists>gs. gs = Q \<and> (\<forall>i < length ts. ghost changing (\<lambda>_ _. True) (gs i) (us ! i))"
      using schedule_ghosts [OF run, where gs = Q and R = "\<lambda>_ _ _. True" and
          P = "\<lambda>gs _. gs = Q" and step = changing]
      by (auto simp: assms(2) fun_upd_idem_iff)
    then have "ghost changing (\<lambda>_ _. True) (Q k) (Atom f)"
      using acted(1,2) len by auto
    then have "vs_changes (w_verify (snd (f u))) = vs_changes (w_verify u) \<or> Q k u (snd (f u))"
      unfolding ghost_Atom by blast
    moreover have "snd (f u) = w'" using acted(3,4) last by simp
    ultimately show ?thesis using acted(1) len by simp
  qed (use last in simp)
  moreover have "at_action (is @ [k]) (ts, w) k (Q k)" if "Q k u w'"
    using run last that unfolding at_action_def by blast
  ultimately show ?case
    using snoc.IH [OF run] at_action_append by metis
qed

lemma schedule_steady:
  assumes "run_schedule is (ts, w) = (ts', w')"
    and "\<And>i. i < length ts \<Longrightarrow> ghost changing (\<lambda>_ _. True) (Q i) (ts ! i)"
  shows "steady w w' \<and> (\<forall>i < length ts'. ghost changing (\<lambda>_ _. True) (Q i) (ts' ! i))"
proof -
  have "\<exists>gs. (steady w w' \<and> gs = Q) \<and> (\<forall>i < length ts. ghost changing (\<lambda>_ _. True) (gs i) (ts' ! i))"
  proof (rule schedule_ghosts [OF assms(1), where gs = Q and R = "\<lambda>_ _ _. True" and
        P = "\<lambda>gs u. steady w u \<and> gs = Q" and step = changing])
    fix gs u i g u' assume "steady w u \<and> gs = Q" "changing (gs i) g u u'"
    then show "steady w u' \<and> gs(i := g) = Q" using steady_trans [of w u u'] by (auto simp: fun_upd_idem_iff)
  qed (simp_all add: assms(2))
  moreover have "length ts' = length ts" using length_run_schedule [of "is" "(ts, w)"] assms(1) by simp
  ultimately show ?thesis by auto
qed

section \<open>Properties\<close>

lemma changing_request:
  "ghost changing (\<lambda>_ _. True) (replaces env (snd x)) (request_thread env what secret wrap x)"
  unfolding request_thread_def case_prod_beta by (intro any_bind changing_answer any_Done)

text \<open>
  the pointer of \<open>verifyCode\<close> is the entry: whatever requests and sweeps do between its lookup and a
  reading, when the reading is defined the entry of the address is still the one that was found.
\<close>

theorem pointer_is_entry:
  assumes "codes_inv (vs_codes (w_verify w))"
    and "run_schedule is (program_tasks env what secret wrap reqs sweeps, w) = (us, u)"
    and "fst (find_code email u) = Ok (Some p)" and "run_schedule js (us, u) = (ts', w')"
    and "fst (read_member email p get w') \<noteq> Undefined"
  shows "map_of (vs_codes (w_verify w')) email = Some (snd p) \<and> fst (read_member email p get w') = Ok (get (snd p))"
proof -
  let ?Q = "\<lambda>i. if i < length reqs then replaces env (snd (reqs ! i)) else swept sweeps"
  have start: "ghost changing (\<lambda>_ _. True) (?Q i) (program_tasks env what secret wrap reqs sweeps ! i)"
    if "i < length (program_tasks env what secret wrap reqs sweeps)" for i
    using that by (cases "i < length reqs")
      (simp_all add: nth_program_tasks changing_request changing_sweeper less_Suc_eq)
  note s1 = schedule_steady [OF assms(2) start]
  then have "codes_inv (vs_codes (w_verify u))" using assms(1) by (simp add: steady_def)
  moreover have "steady u w'" using schedule_steady [OF assms(4), of ?Q] s1 by simp
  moreover have "map_of (vs_codes (w_verify u)) email = Some (snd p)" "fst p = vs_changes (w_verify u) email"
    using assms(3) by (auto simp: find_code_def gets_def split: option.splits)
  moreover have "\<not> fst p < vs_changes (w_verify w') email" "fst (read_member email p get w') = Ok (get (snd p))"
    using assms(5) by (simp_all add: read_member_def split: if_splits)
  ultimately show ?thesis unfolding steady_def by (metis le_neq_implies_less)
qed


text \<open>Where a request that uses the store of codes has its first action\<close>

definition framed :: "env \<Rightarrow> (exn \<Rightarrow> string) \<Rightarrow> http_request \<Rightarrow> (world, http_response) task \<Rightarrow>
    (world, http_response option) task" where
  "framed env what req t = bind_task (catch_task (catch_both env req t) (\<lambda>x. error_task env req 500 (what x)))
     (\<lambda>res. value_task (Some res))"

lemma register_begins:
  assumes "rq_method req = Post" and "rq_target req = ''/users/register''"
    and "jl_parse (ev_json env) (rq_body req) = Some j" and "get_string j ''username'' = Ok n"
    and "get_string j ''password'' = Ok p" and "get_string j ''email'' = Ok e"
    and "get_string j ''verify_code'' = Ok c"
  obtains k where "request_thread env what secret wrap (ch, req) =
    framed env what req (bind_task (check_task (ch_clock ch 0) e ''register'' c) k)"
proof -
  have find: "find_task env (new_jwt_util secret) wrap (rq_method req) (rq_target req) = Some (register_task env)"
    using assms(1,2) by (simp add: find_task_def route_tasks_def)
  have "\<exists>k. request_thread env what secret wrap (ch, req) =
      framed env what req (bind_task (check_task (ch_clock ch 0) e ''register'' c) k)"
    by (simp add: request_thread_def answer_task_def find register_task_def body_task_def parse_json_def assms(3)
        text_task_def assms(4-7) assms(4-7) [THEN get_string_contains] framed_def del: catch_task.simps)
      (rule exI, rule refl)
  with that show thesis by blast
qed

lemma send_begins:
  assumes "rq_method req = Post" and "rq_target req = ''/users/verify_code''"
    and "jl_parse (ev_json env) (rq_body req) = Some j" and "get_string j ''email'' = Ok e"
    and "get_string j ''action'' = Ok a" and "a \<in> {''register'', ''reset_password''}" and "isValidEmail e"
  obtains k where "request_thread env what secret wrap (ch, req) = framed env what req (bind_task (send_task env ch e a) k)"
proof -
  have find: "find_task env (new_jwt_util secret) wrap (rq_method req) (rq_target req) = Some (getVerifyCode_task env)"
    using assms(1,2) by (simp add: find_task_def route_tasks_def)
  have "\<exists>k. request_thread env what secret wrap (ch, req) = framed env what req (bind_task (send_task env ch e a) k)"
    using assms(6)
    by (simp add: request_thread_def answer_task_def find getVerifyCode_task_def body_task_def parse_json_def assms(3)
        text_task_def assms(4,5,7) assms(4,5) [THEN get_string_contains] framed_def del: catch_task.simps)
      (rule exI, rule refl)
  with that show thesis by blast
qed

text \<open>
  C32: a sweep between the two halves of \<open>verifyCode\<close> is enough. A registration finds the entry of its
  address, the main thread erases it as it has expired, and the registration reads it all the same,
  through a pointer to memory that the map has freed: the behaviour is undefined whatever code was sent.
\<close>

theorem sweep_breaks_check:
  assumes "rq_method req = Post" and "rq_target req = ''/users/register''"
    and "jl_parse (ev_json env) (rq_body req) = Some j" and "get_string j ''username'' = Ok n"
    and "get_string j ''password'' = Ok p" and "get_string j ''email'' = Ok e"
    and "get_string j ''verify_code'' = Ok c" and "codes_inv (vs_codes (w_verify w))"
    and "map_of (vs_codes (w_verify w)) e = Some info" and "vi_expire info < now"
  shows "fst (run_schedule [0, 1, 0] (program_tasks env what secret wrap [(ch, req)] [now], w)) ! 0 = Done Undefined"
proof -
  obtain k where k: "request_thread env what secret wrap (ch, req) =
      framed env what req (bind_task (check_task (ch_clock ch 0) e ''register'' c) k)"
    using register_begins [OF assms(1-7)] .
  let ?n = "vs_changes (w_verify w) e" and ?w = "snd (sweep_codes now w)"
  have "map_of (snd (cleanupExpiredCodes now (vs_codes (w_verify w)))) e = None"
    using codes.entry_sweep [OF assms(8), of now e] assms(9,10) by simp
  then have erased: "?n < vs_changes (w_verify ?w) e"
    using assms(9) by (simp add: sweep_codes_def Let_def case_prod_beta)
  show ?thesis
    using erased by (simp add: program_tasks_def k framed_def catch_both_def check_task_def once_def find_code_def gets_def assms(9)
        read_member_def)
qed

definition demo_signup :: http_request where
  "demo_signup = (demo_request [] ''register'')\<lparr>rq_method := Post, rq_target := ''/users/register''\<rparr>"

theorem sweep_breaks_check_witness:
  "fst (run_schedule [0, 1, 0] (program_tasks (demo_env demo_docs) (\<lambda>e. ''error'') ''key'' JString
     [(demo_chance 300, demo_signup)] [seconds 500], demo_coded)) ! 0 = Done Undefined"
  by (rule sweep_breaks_check [where e = "''a@b.cc''" and n = "''ann''" and p = "''secret''" and c = "''444444''"
      and j = "JObj [(''username'', JString ''ann''), (''password'', JString ''secret''), (''email'', JString ''a@b.cc''),
        (''verify_code'', JString ''444444'')]"
      and info = "\<lparr>vi_code = ''444444'', vi_expire = seconds 400, vi_action = ''register''\<rparr>"])
    (simp_all add: demo_signup_def demo_request_def demo_docs_def get_string_def demo_coded_def seconds_def)

section \<open>A data race\<close>

text \<open>
  C33: no sweep is needed. \<open>sendVerifyCode\<close> assigns to the entry of an address under the mutex, \<open>verifyCode\<close>
  reads it without: when a registration has found the entry of its address, and another request
  then mails a new code to this address and stores it, the registration reads the members of an entry
  that another thread has assigned to, with nothing that orders the two, and the behaviour is undefined,
  whatever the old code, the new one and the one that was sent.
\<close>

theorem check_races_store:
  assumes "rq_method req = Post" and "rq_target req = ''/users/register''"
    and "jl_parse (ev_json env) (rq_body req) = Some j" and "get_string j ''username'' = Ok n"
    and "get_string j ''password'' = Ok p" and "get_string j ''email'' = Ok e"
    and "get_string j ''verify_code'' = Ok c" and "map_of (vs_codes (w_verify w)) e = Some info"
    and "rq_method req' = Post" and "rq_target req' = ''/users/verify_code''"
    and "jl_parse (ev_json env) (rq_body req') = Some j'" and "get_string j' ''email'' = Ok e"
    and "get_string j' ''action'' = Ok a" and "a \<in> {''register'', ''reset_password''}" and "isValidEmail e"
    and "fst (sendTextEmail (ev_curl env) (ev_verify env) e ''Verification Code''
      (code_message (generateVerificationCode (ch_draws ch') 6)) (vs_mail (w_verify w)))"
  shows "fst (run_schedule [0, 1, 1, 0] (program_tasks env what secret wrap [(ch, req), (ch', req')] [], w)) ! 0 =
    Done Undefined"
proof -
  obtain k where k: "request_thread env what secret wrap (ch, req) =
      framed env what req (bind_task (check_task (ch_clock ch 0) e ''register'' c) k)"
    using register_begins [OF assms(1-7)] .
  obtain k' where k': "request_thread env what secret wrap (ch', req') =
      framed env what req' (bind_task (send_task env ch' e a) k')"
    using send_begins [OF assms(9-15)] .
  let ?p = "(vs_changes (w_verify w) e, info)"
  let ?new = "\<lparr>vi_code = generateVerificationCode (ch_draws ch') 6,
      vi_expire = ch_clock ch' 0 + seconds (vc_code_expiry (ev_verify env)), vi_action = a\<rparr>"
  let ?t = "framed env what req (bind_task (bind_task (once (read_member e ?p vi_expire)) (\<lambda>expire_time.
      if expire_time < ch_clock ch 0 then value_task False
      else bind_task (once (read_member e ?p vi_action)) (\<lambda>its_action.
        if its_action \<noteq> ''register'' then value_task False
        else bind_task (once (read_member e ?p vi_code)) (\<lambda>code. value_task (code = c))))) k)"
  let ?u = "framed env what req' (bind_task (bind_task (once (store_code e ?new)) (\<lambda>_. value_task True)) k')"
  have "act 0 (program_tasks env what secret wrap [(ch, req), (ch', req')] [], w) =
      ([?t, request_thread env what secret wrap (ch', req'), sweeper []], w)"
    by (simp add: program_tasks_def k framed_def catch_both_def check_task_def once_def find_code_def gets_def assms(8))
  moreover obtain u where u: "act 1 ([?t, request_thread env what secret wrap (ch', req'), sweeper []], w) = ([?t, ?u, sweeper []], u)"
    "vs_codes (w_verify u) = vs_codes (w_verify w)" "vs_changes (w_verify u) = vs_changes (w_verify w)"
    using assms(16)
    by (simp add: k' framed_def catch_both_def send_task_def once_def mail_code_def Let_def case_prod_beta)
  moreover obtain v us where v: "act 1 ([?t, ?u, sweeper []], u) = (?t # us, v)"
    "vs_changes (w_verify w) e < vs_changes (w_verify v) e"
    using u(2,3) assms(8)
    by (simp add: framed_def catch_both_def once_def store_code_def modify_def assign_code_def)
  moreover have "fst (act 0 (?t # us, v)) ! 0 = Done Undefined"
    using v(2) by (simp add: framed_def catch_both_def once_def read_member_def)
  ultimately show ?thesis by (simp del: act.simps)
qed

definition demo_reset_docs :: "string \<Rightarrow> json option" where
  "demo_reset_docs = demo_docs(''ask'' \<mapsto> JObj [(''email'', JString ''a@b.cc''), (''action'', JString ''reset_password'')])"

definition demo_ask :: http_request where
  "demo_ask = (demo_request [] ''ask'')\<lparr>rq_method := Post, rq_target := ''/users/verify_code''\<rparr>"

lemma demo_email: "isValidEmail ''a@b.cc''"
  by code_simp

theorem check_races_store_witness:
  "fst (run_schedule [0, 1, 1, 0] (program_tasks (demo_env demo_reset_docs) (\<lambda>e. ''error'') ''key'' JString
     [(demo_chance 100, demo_signup), (demo_chance 100, demo_ask)] [], demo_coded)) ! 0 = Done Undefined"
proof (rule check_races_store)
  show "rq_method demo_signup = Post" "rq_target demo_signup = ''/users/register''"
    "rq_method demo_ask = Post" "rq_target demo_ask = ''/users/verify_code''"
    by (simp_all add: demo_signup_def demo_ask_def)
  let ?j = "JObj [(''username'', JString ''ann''), (''password'', JString ''secret''), (''email'', JString ''a@b.cc''),
    (''verify_code'', JString ''444444'')]"
  let ?j' = "JObj [(''email'', JString ''a@b.cc''), (''action'', JString ''reset_password'')]"
  show "jl_parse (ev_json (demo_env demo_reset_docs)) (rq_body demo_signup) = Some ?j"
    "jl_parse (ev_json (demo_env demo_reset_docs)) (rq_body demo_ask) = Some ?j'"
    by (simp_all add: demo_reset_docs_def demo_docs_def demo_signup_def demo_ask_def demo_request_def)
  show "get_string ?j ''username'' = Ok ''ann''" "get_string ?j ''password'' = Ok ''secret''"
    "get_string ?j ''email'' = Ok ''a@b.cc''" "get_string ?j ''verify_code'' = Ok ''444444''"
    "get_string ?j' ''email'' = Ok ''a@b.cc''" "get_string ?j' ''action'' = Ok ''reset_password''"
    by (simp_all add: get_string_def)
  show "map_of (vs_codes (w_verify demo_coded)) ''a@b.cc'' =
      Some \<lparr>vi_code = ''444444'', vi_expire = seconds 400, vi_action = ''register''\<rparr>"
    by (simp add: demo_coded_def)
  show "fst (sendTextEmail (ev_curl (demo_env demo_reset_docs)) (ev_verify (demo_env demo_reset_docs)) ''a@b.cc''
      ''Verification Code'' (code_message (generateVerificationCode (ch_draws (demo_chance 100)) 6)) (vs_mail (w_verify demo_coded)))"
    by (simp add: sendTextEmail_def demo_curl_def Let_def)
qed (simp_all add: demo_email)

end
