(* ===== verification/Answers.thy ===== *)
theory Answers
  imports Sweeps
begin

text \<open>
  The whole server at work: the worker threads that \<open>Server::run\<close> of \<open>src/server/Server.cpp\<close> starts, and
  the main thread with its sweeps. A worker is in \<open>io_context::run\<close>, which runs one completion handler
  to its end before it takes the next, so of the sessions it answers one request after the other
  (\<open>Session::handleRequest\<close>). As many connections as workers are enough for any number of requests.
\<close>

section \<open>Workers with many requests\<close>

text \<open>
  The requests that one worker turns out to answer, in their order. No worker has a queue of its own:
  which requests it gets, from whatever sessions, the event loop decides while it runs, and what is
  shown here holds of every distribution. That two requests of one session never overlap only excludes
  some of the schedules.
\<close>

primrec answer_all :: "env \<Rightarrow> (exn \<Rightarrow> string) \<Rightarrow> string \<Rightarrow> (string \<Rightarrow> json) \<Rightarrow> (chance \<times> http_request) list \<Rightarrow>
    (world, http_response list) task" where
  "answer_all env what secret wrap [] = value_task []"
| "answer_all env what secret wrap (x # xs) =
     bind_task (answer_task env what secret wrap (fst x) (snd x)) (\<lambda>res.
     bind_task (answer_all env what secret wrap xs) (\<lambda>ress. value_task (res # ress)))"

definition worker_thread :: "env \<Rightarrow> (exn \<Rightarrow> string) \<Rightarrow> string \<Rightarrow> (string \<Rightarrow> json) \<Rightarrow> (chance \<times> http_request) list \<Rightarrow>
    (world, http_response list option) task" where
  "worker_thread env what secret wrap reqs =
     bind_task (answer_all env what secret wrap reqs) (\<lambda>ress. value_task (Some ress))"

definition server_tasks :: "env \<Rightarrow> (exn \<Rightarrow> string) \<Rightarrow> string \<Rightarrow> (string \<Rightarrow> json) \<Rightarrow> (chance \<times> http_request) list list \<Rightarrow>
    int list \<Rightarrow> (world, http_response list option) task list" where
  "server_tasks env what secret wrap reqss sweeps =
     map (worker_thread env what secret wrap) reqss @ [sweeper sweeps]"

lemma length_server_tasks [simp]: "length (server_tasks env what secret wrap reqss sweeps) = Suc (length reqss)"
  by (simp add: server_tasks_def)

lemma nth_server_tasks:
  "i < length reqss \<Longrightarrow> server_tasks env what secret wrap reqss sweeps ! i = worker_thread env what secret wrap (reqss ! i)"
  by (simp add: server_tasks_def nth_append)

lemma worker_ends: "ends_in (11 * length reqs) (worker_thread env what secret wrap reqs)"
proof -
  have all: "ends_in (11 * length reqs) (answer_all env what secret wrap reqs)"
  proof (induction reqs)
    case (Cons x xs)
    have "ends_in (11 + (11 * length xs + 0)) (answer_all env what secret wrap (x # xs))"
      unfolding answer_all.simps by (intro ends_in_bind answer_task_ends Cons) simp
    then show ?case by simp
  qed simp
  from ends_in_bind [OF this, of 0 "\<lambda>ress. value_task (Some ress)"] show ?thesis by (simp add: worker_thread_def)
qed

lemma answer_all_thread:
  assumes "\<forall>(ch, req) \<in> set reqs. id_fits env (token_of env (new_jwt_util secret) ch req)"
  shows "world_thread env G (\<exists>x \<in> set reqs. checks_code (snd x)) None (answer_all env what secret wrap reqs)"
  using assms
proof (induction reqs)
  case (Cons x xs)
  let ?c = "\<exists>y \<in> set (x # xs). checks_code (snd y)"
  have "id_fits env (token_of env (new_jwt_util secret) (fst x) (snd x))"
    using Cons.prems by (simp add: case_prod_beta)
  then have "world_thread env G ?c None (answer_task env what secret wrap (fst x) (snd x))"
    by (rule conn_runs_weaken [OF answer_task_thread]) simp_all
  moreover have "world_thread env G ?c None (answer_all env what secret wrap xs)"
    using Cons by (intro conn_runs_weaken [OF Cons.IH]) auto
  ultimately show ?case unfolding answer_all.simps by (intro conn_thread_bind) simp_all
qed simp

lemma worker_world:
  assumes "\<forall>(ch, req) \<in> set reqs. id_fits env (token_of env (new_jwt_util secret) ch req)"
  shows "world_thread env G (\<exists>x \<in> set reqs. checks_code (snd x)) None (worker_thread env what secret wrap reqs)"
  unfolding worker_thread_def by (intro conn_thread_bind answer_all_thread assms) simp

text \<open>One of the worker's requests replaces an entry.\<close>

abbreviation replaced_by :: "env \<Rightarrow> (chance \<times> http_request) list \<Rightarrow> world \<Rightarrow> world \<Rightarrow> bool" where
  "replaced_by env reqs w w' \<equiv> \<exists>x \<in> set reqs. replaces env (snd x) w w'"

lemma worker_changes:
  "ghost changing (\<lambda>_ _. True) (replaced_by env reqs) (worker_thread env what secret wrap reqs)"
proof -
  have all: "ghost changing (\<lambda>_ _. True) g (answer_all env what secret wrap xs)"
    if "\<forall>x \<in> set xs. \<forall>w w'. replaces env (snd x) w w' \<longrightarrow> g w w'" for g xs
    using that
  proof (induction xs)
    case (Cons x xs)
    have step: "ghost changing (\<lambda>g' _. g' = g) g (answer_task env what secret wrap (fst x) (snd x))"
      by (rule ghost_still, rule changing_answer) (use Cons.prems in simp)
    have rest: "ghost changing (\<lambda>_ _. True) g (answer_all env what secret wrap xs)" using Cons by simp
    show ?case
      unfolding answer_all.simps
    proof (rule ghost_bind [OF step])
      fix g' res assume "g' = g"
      with rest have "ghost changing (\<lambda>_ _. True) g' (answer_all env what secret wrap xs)" by simp
      then show "ghost changing (\<lambda>_ _. True) g'
          (bind_task (answer_all env what secret wrap xs) (\<lambda>ress. value_task (res # ress)))"
        by (rule any_bind) simp
    qed simp_all
  qed simp
  have "ghost changing (\<lambda>_ _. True) (replaced_by env reqs) (answer_all env what secret wrap reqs)"
    by (rule all) auto
  then show ?thesis unfolding worker_thread_def by (intro any_bind) simp_all
qed

lemma results_map: "results R t \<Longrightarrow> (\<And>r. R r \<Longrightarrow> results Q (bind_task (Done r) k)) \<Longrightarrow> results Q (bind_task t k)"
  by (induction rule: results.induct) (auto intro: results.Atom)

lemma results_any: "results (\<lambda>_. True) t"
proof (induction t)
  case (Atom f)
  have "results (\<lambda>_. True) (fst (f s))" for s
    using Atom.IH [of "f s" "fst (f s)"] by (simp add: prod_set_defs)
  then show ?case by (simp add: results_Atom)
qed simp

text \<open>What a worker returns: a response to each of its requests, in their order\<close>

abbreviation responds :: "env \<Rightarrow> (chance \<times> http_request) list \<Rightarrow> http_response list \<Rightarrow> bool" where
  "responds env \<equiv> list_all2 (\<lambda>x res. well_formed env (snd x) res)"

definition replied_well :: "env \<Rightarrow> (chance \<times> http_request) list \<Rightarrow> http_response list option outcome \<Rightarrow> bool" where
  "replied_well env reqs r \<longleftrightarrow> r = Undefined \<or> (\<exists>ress. r = Ok (Some ress) \<and> responds env reqs ress)"

lemma worker_results:
  assumes "dumps_ascii (ev_json env)" and "\<And>e. ascii (what e)"
  shows "results (replied_well env reqs) (worker_thread env what secret wrap reqs)"
proof -
  have "results (\<lambda>r. r = Undefined \<or> (\<exists>ress. r = Ok ress \<and> responds env reqs ress)) (answer_all env what secret wrap reqs)"
  proof (induction reqs)
    case (Cons x xs)
    show ?case
      unfolding answer_all.simps
    proof (rule results_map [OF answer_task_form [OF assms]])
      fix r assume r: "answered_well env (snd x) r"
      show "results (\<lambda>r. r = Undefined \<or> (\<exists>ress. r = Ok ress \<and> responds env (x # xs) ress))
        (bind_task (Done r) (\<lambda>res. bind_task (answer_all env what secret wrap xs) (\<lambda>ress. value_task (res # ress))))"
        using r by (auto simp: answered_well_def intro!: results_map [OF Cons])
    qed
  qed simp
  then show ?thesis
    unfolding worker_thread_def by (rule results_map) (auto simp: replied_well_def)
qed

section \<open>The server under a schedule\<close>

text \<open>Some thread changed an entry: the main thread erased it, or a request for a code assigned to it.\<close>

definition entry_changed :: "nat list \<Rightarrow> env \<Rightarrow> (chance \<times> http_request) list list \<Rightarrow> int list \<Rightarrow>
    (world, http_response list option) threads \<Rightarrow> bool" where
  "entry_changed is env reqss sweeps c \<longleftrightarrow>
     at_action is c (length reqss) (swept sweeps) \<or>
     (\<exists>j < length reqss. at_action is c j (replaced_by env (reqss ! j)))"

lemma entry_changed_append:
  "entry_changed js env reqss sweeps c \<Longrightarrow> entry_changed (js @ ks) env reqss sweeps c"
  unfolding entry_changed_def using at_action_append by blast

lemma server_changed:
  assumes "run_schedule is (server_tasks env what secret wrap reqss sweeps, w) = (ts', w')"
  shows "vs_changes (w_verify w') = vs_changes (w_verify w) \<or>
    entry_changed is env reqss sweeps (server_tasks env what secret wrap reqss sweeps, w)"
proof -
  let ?n = "length reqss"
  let ?Q = "\<lambda>i. if i < ?n then replaced_by env (reqss ! i) else swept sweeps"
  have "ghost changing (\<lambda>_ _. True) (?Q i) (server_tasks env what secret wrap reqss sweeps ! i)"
    if "i < length (server_tasks env what secret wrap reqss sweeps)" for i
  proof (cases "i < ?n")
    case True
    then show ?thesis using worker_changes by (simp add: nth_server_tasks)
  next
    case False
    then have "i = ?n" using that by simp
    then show ?thesis using changing_sweeper [OF order_refl] by (simp add: server_tasks_def nth_append)
  qed
  from schedule_changed [OF assms this] show ?thesis
    by (fastforce simp: entry_changed_def less_Suc_eq split: if_splits)
qed

lemma server_keeps:
  assumes "world_ok env w" and "distinct (pool_ids (world_pool w))" and "length reqss \<le> length (world_pool w)"
    and "\<forall>reqs \<in> set reqss. \<forall>(ch, req) \<in> set reqs. id_fits env (token_of env (new_jwt_util secret) ch req)"
    and "run_schedule is (server_tasks env what secret wrap reqss sweeps, w) = (ts', w')"
  shows "world_ok env w' \<and>
    ((\<forall>t \<in> set (take (length reqss) ts'). \<exists>r. t = Done r) \<longrightarrow>
       mset (pool_ids (world_pool w')) = mset (pool_ids (world_pool w))) \<and>
    (\<forall>i < length reqss. ts' ! i = Done Undefined \<longrightarrow> (\<exists>x \<in> set (reqss ! i). checks_code (snd x)) \<and>
       entry_changed is env reqss sweeps (server_tasks env what secret wrap reqss sweeps, w))"
proof -
  let ?G = "vs_changes (w_verify w)" and ?ts = "server_tasks env what secret wrap reqss sweeps"
  let ?c = "\<lambda>i. \<exists>x \<in> set (reqss ! i). checks_code (snd x)"
  have start: "world_inv env ?G w" using assms(1) by (simp add: world_inv_def)
  have member: "world_thread env ?G (?c i) None (?ts ! i)" if "i < length reqss" for i
  proof -
    have "\<forall>(ch, req) \<in> set (reqss ! i). id_fits env (token_of env (new_jwt_util secret) ch req)"
      using assms(4) that by (meson nth_mem)
    then show ?thesis using that worker_world by (simp add: nth_server_tasks)
  qed
  have "bystander world_pool (world_inv env ?G) t" if "t \<in> set (drop (length reqss) ?ts)" for t
    using that by (simp add: server_tasks_def sweeper_bystander)
  note run = conn_threads_run [where pool = world_pool and I = "world_inv env ?G" and D = "changed_since ?G" and
      m = "length reqss" and c = ?c, OF assms(5,2) start member this]
  have "entry_changed is env reqss sweeps (?ts, w)" if moment: "at_moment is (?ts, w) i (changed_since ?G)" for i
  proof -
    obtain js ks us u where "is = js @ i # ks" "run_schedule js (?ts, w) = (us, u)" "changed_since ?G u"
      using moment unfolding at_moment_def by blast
    with server_changed [of js env what secret wrap reqss sweeps w us u] show ?thesis
      using entry_changed_append by (auto simp: changed_since_def)
  qed
  with run assms(3) have "\<forall>i < length reqss. ts' ! i = Done Undefined \<longrightarrow> ?c i \<and> entry_changed is env reqss sweeps (?ts, w)"
    by (metis length_server_tasks less_SucI)
  with run show ?thesis by (simp add: world_inv_def)
qed

lemma server_replies:
  assumes "dumps_ascii (ev_json env)" and "\<And>e. ascii (what e)"
    and "run_schedule is (server_tasks env what secret wrap reqss sweeps, w) = (ts', w')"
    and "i < length reqss" and "11 * length (reqss ! i) \<le> count_list is i"
  obtains r where "ts' ! i = Done r" "replied_well env (reqss ! i) r"
proof -
  obtain r where r: "ts' ! i = Done r"
    using run_schedule_ends [OF _ _ assms(5,3)] assms(4) worker_ends by (auto simp: nth_server_tasks)
  let ?R = "\<lambda>i r. i < length reqss \<longrightarrow> replied_well env (reqss ! i) r"
  have "results (?R j) (server_tasks env what secret wrap reqss sweeps ! j)" if "j < Suc (length reqss)" for j
    using worker_results [OF assms(1,2)] by (cases "j < length reqss") (simp_all add: nth_server_tasks results_any)
  moreover have "length ts' = Suc (length reqss)"
    using length_run_schedule [of "is" "(server_tasks env what secret wrap reqss sweeps, w)"] assms(3) by simp
  ultimately have "replied_well env (reqss ! i) r"
    using run_schedule_results [OF assms(3), of ?R i] assms(4) r by simp
  with r that show thesis by blast
qed

section \<open>Properties\<close>

text \<open>
  C7: any number of workers with any number of requests each, and the main thread with its sweeps beside
  them, under any schedule, on any server, file system and mail system, with a connection for each
  worker and tokens whose identifiers are numbers that fit an \<open>int\<close>: the constraints of the schema and the
  distinctness of the addresses with a code hold throughout; as long as no sweep erases an entry of the
  store of codes and no request stores a code for an address that has one, every worker that had eleven
  actions for each of its requests has answered all of them, without an exception, by well-formed
  responses, whatever the others did, and when all are done the pool holds the connections it had.
  Otherwise the one other outcome is undefined behaviour, of a worker with a request that checks a code.
\<close>

theorem requests_answered:
  assumes "dumps_ascii (ev_json env)" and "\<forall>e. ascii (what e)" and "world_ok env w"
    and "distinct (pool_ids (world_pool w))" and "length reqss \<le> length (world_pool w)"
    and "\<forall>reqs \<in> set reqss. \<forall>(ch, req) \<in> set reqs. id_fits env (token_of env (new_jwt_util secret) ch req)"
    and "run_schedule is (server_tasks env what secret wrap reqss sweeps, w) = (ts', w')"
  shows "world_ok env w' \<and>
    (\<forall>i < length reqss. 11 * length (reqss ! i) \<le> count_list is i \<longrightarrow>
       (\<exists>ress. ts' ! i = Done (Ok (Some ress)) \<and> responds env (reqss ! i) ress) \<or>
       ts' ! i = Done Undefined \<and> (\<exists>x \<in> set (reqss ! i). checks_code (snd x)) \<and>
       (at_action is (server_tasks env what secret wrap reqss sweeps, w) (length reqss)
          (\<lambda>u v. \<exists>now \<in> set sweeps. erases now u \<and> v = snd (sweep_codes now u)) \<or>
        (\<exists>j < length reqss. at_action is (server_tasks env what secret wrap reqss sweeps, w) j
          (\<lambda>u v. \<exists>x \<in> set (reqss ! j). replaces env (snd x) u v)))) \<and>
    ((\<forall>i < length reqss. 11 * length (reqss ! i) \<le> count_list is i \<and> ts' ! i \<noteq> Done Undefined) \<longrightarrow>
       mset (pool_ids (world_pool w')) = mset (pool_ids (world_pool w)))"
proof -
  note keep = server_keeps [OF assms(3-7)]
  have reply: "\<exists>r. ts' ! i = Done r \<and> replied_well env (reqss ! i) r"
    if "i < length reqss" "11 * length (reqss ! i) \<le> count_list is i" for i
    using server_replies [OF assms(1) _ assms(7) that] assms(2) by blast
  have "length ts' = Suc (length reqss)"
    using length_run_schedule [of "is" "(server_tasks env what secret wrap reqss sweeps, w)"] assms(7) by simp
  then have "\<forall>t \<in> set (take (length reqss) ts'). \<exists>r. t = Done r"
    if "\<forall>i < length reqss. 11 * length (reqss ! i) \<le> count_list is i"
    using that reply by (fastforce simp: in_set_conv_nth)
  moreover have "(\<exists>ress. ts' ! i = Done (Ok (Some ress)) \<and> responds env (reqss ! i) ress) \<or>
      ts' ! i = Done Undefined \<and> (\<exists>x \<in> set (reqss ! i). checks_code (snd x)) \<and>
      entry_changed is env reqss sweeps (server_tasks env what secret wrap reqss sweeps, w)"
    if i: "i < length reqss" "11 * length (reqss ! i) \<le> count_list is i" for i
    using reply [OF i] keep i(1) by (auto simp: replied_well_def)
  ultimately show ?thesis using keep unfolding entry_changed_def swept_def by blast
qed

definition demo_post :: "string \<Rightarrow> http_request" where
  "demo_post target = (demo_request [] ''x'')\<lparr>rq_target := target\<rparr>"

text \<open>Three requests on two workers\<close>

theorem requests_answered_witness:
  "\<exists>ts' w' ress. run_schedule ([2] @ concat (replicate 22 [0, 1]))
       (server_tasks (demo_env Map.empty) (\<lambda>e. ''error'') ''key'' JString
          [[(demo_chance 200, demo_post ''/users/register'')],
           [(demo_chance 200, demo_post ''/users/login''), (demo_chance 300, demo_post ''/users/register'')]] [],
        demo_world) = (ts', w') \<and>
     ts' ! 1 = Done (Ok (Some ress)) \<and> length ress = 2 \<and> well_formed (demo_env Map.empty) (demo_post ''/users/login'') (ress ! 0)"
proof -
  let ?reqss = "[[(demo_chance 200, demo_post ''/users/register'')],
    [(demo_chance 200, demo_post ''/users/login''), (demo_chance 300, demo_post ''/users/register'')]]"
  let ?is = "[2] @ concat (replicate 22 [0, 1]) :: nat list"
  let ?env = "demo_env Map.empty"
  obtain ts' w' where r: "run_schedule ?is (server_tasks ?env (\<lambda>e. ''error'') ''key'' JString ?reqss [], demo_world) =
      (ts', w')" by fastforce
  have "id_fits ?env []" by (simp add: id_fits_def getClaim_def demo_jwt_def)
  moreover have "token_of ?env ju ch (demo_post t) = []" for ju ch t
    using demo_no_token [of Map.empty ju ch "''x''"] by (simp add: token_of_def demo_post_def)
  ultimately have ids: "\<forall>reqs \<in> set ?reqss. \<forall>(ch, req) \<in> set reqs. id_fits ?env (token_of ?env (new_jwt_util ''key'') ch req)"
    by simp
  have d: "dumps_ascii (ev_json ?env)" "\<forall>e. ascii ((\<lambda>e :: exn. ''error'') e)"
    "distinct (pool_ids (world_pool demo_world))" "length ?reqss \<le> length (world_pool demo_world)"
    by (simp_all add: ascii_def demo_world_def)
  have "1 < length ?reqss" "11 * length (?reqss ! 1) \<le> count_list ?is 1" by code_simp+
  from requests_answered [OF d(1,2) conjunct1 [OF demo_world_ok] d(3,4) ids r, THEN conjunct2, THEN conjunct1,
      rule_format, OF this]
  have "\<exists>ress. ts' ! 1 = Done (Ok (Some ress)) \<and> responds ?env (?reqss ! 1) ress"
    by (simp add: at_action_def replaces_def asks_code_def demo_post_def)
  then obtain ress where ress: "ts' ! 1 = Done (Ok (Some ress))" "responds ?env (?reqss ! 1) ress" by blast
  then have "length ress = 2 \<and> well_formed ?env (demo_post ''/users/login'') (ress ! 0)"
    by (auto simp: list_all2_Cons1)
  with r ress(1) show ?thesis by blast
qed

end
