(* ===== verification/Queues.thy ===== *)
theory Queues
  imports Answers
begin

text \<open>
  A worker of the server answers its requests one after the other; \<open>Signups\<close>, \<open>Logins\<close>, \<open>Credentials\<close> and
  \<open>Mailings\<close> look at every request as a thread of its own. What the server can do is among
  what these threads can do: a simulation with the actions in the same order, so that what is shown of
  the threads holds of the server.
\<close>

section \<open>A worker and the threads of its requests\<close>

lemma bind_assoc: "bind_task (bind_task t f) g = bind_task t (\<lambda>x. bind_task (f x) g)"
proof (induction t)
  case (Done r)
  then show ?case by (cases r) simp_all
next
  case (Atom h)
  have "bind_task (bind_task (fst (h s)) f) g = bind_task (fst (h s)) (\<lambda>x. bind_task (f x) g)" for s
    using Atom.IH [of "h s" "fst (h s)"] by (simp add: prod_set_defs)
  then show ?case by (simp add: fun_eq_iff map_prod_def case_prod_beta)
qed

text \<open>The worker in the middle: it has the responses \<open>rs\<close>, is in \<open>t\<close>, and \<open>xs\<close> are still to come.\<close>

definition going :: "env \<Rightarrow> (exn \<Rightarrow> string) \<Rightarrow> string \<Rightarrow> (string \<Rightarrow> json) \<Rightarrow> http_response list \<Rightarrow>
    (world, http_response) task \<Rightarrow> (chance \<times> http_request) list \<Rightarrow> (world, http_response list option) task" where
  "going env what secret wrap rs t xs =
     bind_task t (\<lambda>res. bind_task (answer_all env what secret wrap xs) (\<lambda>ress. value_task (Some (rs @ res # ress))))"

text \<open>The threads \<open>vs\<close> of its requests at this point: those before are done, those after have not begun.\<close>

fun tracks :: "env \<Rightarrow> (exn \<Rightarrow> string) \<Rightarrow> string \<Rightarrow> (string \<Rightarrow> json) \<Rightarrow> http_response list \<Rightarrow> (chance \<times> http_request) list \<Rightarrow>
    (world, http_response option) task list \<Rightarrow> (world, http_response list option) task \<Rightarrow> bool" where
  "tracks env what secret wrap rs [] [] u \<longleftrightarrow> u = value_task (Some rs)"
| "tracks env what secret wrap rs (x # xs) (v # vs) u \<longleftrightarrow>
     (\<exists>res. v = value_task (Some res) \<and> tracks env what secret wrap (rs @ [res]) xs vs u) \<or>
     (\<exists>t. v = bind_task t (\<lambda>res. value_task (Some res)) \<and> u = going env what secret wrap rs t xs \<and>
        vs = map (request_thread env what secret wrap) xs)"
| "tracks env what secret wrap rs _ _ u \<longleftrightarrow> False"

lemma tracks_going:
  "tracks env what secret wrap rs (x # xs) (map (request_thread env what secret wrap) (x # xs))
     (going env what secret wrap rs (answer_task env what secret wrap (fst x) (snd x)) xs)"
  by (auto simp: request_thread_def case_prod_beta)

lemma tracks_start:
  "tracks env what secret wrap [] xs (map (request_thread env what secret wrap) xs) (worker_thread env what secret wrap xs)"
proof (cases xs)
  case (Cons x ys)
  have "worker_thread env what secret wrap (x # ys) =
      going env what secret wrap [] (answer_task env what secret wrap (fst x) (snd x)) ys"
    by (simp add: worker_thread_def going_def bind_assoc)
  then show ?thesis using tracks_going [of env what secret wrap "[]" x ys] Cons by simp
qed (simp add: worker_thread_def)

text \<open>A request is answered: without an action the worker begins the next one.\<close>

lemma tracks_turn:
  "tracks env what secret wrap (rs @ [res]) xs (map (request_thread env what secret wrap) xs)
     (going env what secret wrap rs (value_task res) xs)"
proof (cases xs)
  case (Cons y ys)
  have "going env what secret wrap rs (value_task res) (y # ys) =
      going env what secret wrap (rs @ [res]) (answer_task env what secret wrap (fst y) (snd y)) ys"
    by (simp add: going_def bind_assoc)
  then show ?thesis using tracks_going [of env what secret wrap "rs @ [res]" y ys] Cons by simp
qed (simp add: going_def)

lemma tracks_step:
  assumes "tracks env what secret wrap rs xs vs (Atom f)"
  shows "\<exists>p < length vs. \<exists>h. vs ! p = Atom h \<and>
    (\<forall>s. \<exists>v. h s = (v, snd (f s)) \<and> tracks env what secret wrap rs xs (vs[p := v]) (fst (f s)))"
  using assms
proof (induction xs arbitrary: rs vs)
  case Nil
  then show ?case by (cases vs) simp_all
next
  case (Cons x xs)
  obtain v vs' where vs: "vs = v # vs'" using Cons.prems by (cases vs) simp_all
  have later: ?case if w: "v = value_task (Some res)" and t: "tracks env what secret wrap (rs @ [res]) xs vs' (Atom f)" for res
  proof -
    obtain p h where "p < length vs'" "vs' ! p = Atom h"
      "\<forall>s. \<exists>v. h s = (v, snd (f s)) \<and> tracks env what secret wrap (rs @ [res]) xs (vs'[p := v]) (fst (f s))"
      using Cons.IH [OF t] by blast
    then show ?thesis using w vs by (intro exI [of _ "Suc p"] conjI exI [of _ h]) auto
  qed
  consider (before) res where "v = value_task (Some res)" "tracks env what secret wrap (rs @ [res]) xs vs' (Atom f)"
  | (now) t where "v = bind_task t (\<lambda>res. value_task (Some res))" "Atom f = going env what secret wrap rs t xs"
      "vs' = map (request_thread env what secret wrap) xs"
    using Cons.prems vs by auto
  then show ?case
  proof cases
    case before
    then show ?thesis by (rule later)
  next
    case (now t)
    show ?thesis
    proof (cases t)
      case (Atom g)
      have f: "f s = map_prod (\<lambda>t. going env what secret wrap rs t xs) (\<lambda>t. t) (g s)" for s
        using now(2) by (simp add: Atom going_def)
      let ?h = "\<lambda>s. map_prod (\<lambda>t. bind_task t (\<lambda>res. value_task (Some res))) (\<lambda>t. t) (g s)"
      have "vs ! 0 = Atom ?h" using now(1) vs by (simp add: Atom)
      moreover have "?h s = (fst (?h s), snd (f s)) \<and>
          tracks env what secret wrap rs (x # xs) (vs[0 := fst (?h s)]) (fst (f s))" for s
        using now(3) vs by (auto simp: f map_prod_def case_prod_beta)
      ultimately show ?thesis using vs by blast
    next
      case (Done r)
      then obtain res where r: "r = Ok res" using now(2) by (cases r) (simp_all add: going_def)
      have "tracks env what secret wrap (rs @ [res]) xs vs' (Atom f)"
        using tracks_turn [of env what secret wrap rs res xs] now(2,3) by (simp add: Done r)
      then show ?thesis using later [of res] now(1) by (simp add: Done r)
    qed
  qed
qed

lemma tracks_done:
  assumes "tracks env what secret wrap rs xs vs (value_task (Some ress))"
  shows "\<exists>rs'. ress = rs @ rs' \<and> vs = map (\<lambda>res. value_task (Some res)) rs'"
  using assms
proof (induction xs arbitrary: rs vs)
  case Nil
  then show ?case by (cases vs) simp_all
next
  case (Cons x xs)
  obtain v vs' where vs: "vs = v # vs'" using Cons.prems by (cases vs) simp_all
  have later: ?case if w: "v = value_task (Some res)"
    and t: "tracks env what secret wrap (rs @ [res]) xs vs' (value_task (Some ress))" for res
  proof -
    obtain rs' where "ress = (rs @ [res]) @ rs'" "vs' = map (\<lambda>res. value_task (Some res)) rs'"
      using Cons.IH [OF t] by blast
    then show ?thesis using w vs by (intro exI [of _ "res # rs'"]) simp
  qed
  consider (before) res where "v = value_task (Some res)" "tracks env what secret wrap (rs @ [res]) xs vs' (value_task (Some ress))"
  | (now) t where "v = bind_task t (\<lambda>res. value_task (Some res))" "value_task (Some ress) = going env what secret wrap rs t xs"
      "vs' = map (request_thread env what secret wrap) xs"
    using Cons.prems vs by auto
  then show ?case
  proof cases
    case (now t)
    then obtain res where t: "t = value_task res"
      by (cases t) (auto simp: going_def split: outcome.splits)
    show ?thesis
      using later [of res] tracks_turn [of env what secret wrap rs res xs] now by (simp add: t)
  qed (rule later)
qed

section \<open>The server and the threads of all requests\<close>

lemma concat_update:
  assumes "i < length xss" and "p < length (xss ! i)"
  shows "length (concat (take i xss)) + p < length (concat xss)"
    and "concat xss ! (length (concat (take i xss)) + p) = xss ! i ! p"
    and "(concat xss)[length (concat (take i xss)) + p := y] = concat (xss[i := (xss ! i)[p := y]])"
proof -
  have c: "concat xss = concat (take i xss) @ xss ! i @ concat (drop (Suc i) xss)"
    using assms(1) by (metis concat.simps(2) concat_append id_take_nth_drop)
  show "length (concat (take i xss)) + p < length (concat xss)"
    using assms(2) by (subst c) simp
  show "concat xss ! (length (concat (take i xss)) + p) = xss ! i ! p"
    using assms(2) by (subst c) (simp add: nth_append)
  have "concat (xss[i := (xss ! i)[p := y]]) = concat (take i xss) @ (xss ! i)[p := y] @ concat (drop (Suc i) xss)"
    using assms(1) by (simp add: upd_conv_take_nth_drop)
  then show "(concat xss)[length (concat (take i xss)) + p := y] = concat (xss[i := (xss ! i)[p := y]])"
    using assms(2) by (subst c) (simp add: list_update_append)
qed

text \<open>
  The threads of the server and the threads of all requests, with the main thread at the same sweep
\<close>

definition tracks_all :: "env \<Rightarrow> (exn \<Rightarrow> string) \<Rightarrow> string \<Rightarrow> (string \<Rightarrow> json) \<Rightarrow> (chance \<times> http_request) list list \<Rightarrow>
    (world, http_response list option) task list \<Rightarrow> (world, http_response option) task list \<Rightarrow> bool" where
  "tracks_all env what secret wrap reqss us vs \<longleftrightarrow> (\<exists>segs sweeps. length segs = length reqss \<and>
     (\<forall>i < length reqss. length (segs ! i) = length (reqss ! i) \<and>
        tracks env what secret wrap [] (reqss ! i) (segs ! i) (us ! i)) \<and>
     length us = Suc (length reqss) \<and> us ! length reqss = sweeper sweeps \<and> vs = concat segs @ [sweeper sweeps])"

lemma tracks_all_start:
  "tracks_all env what secret wrap reqss (server_tasks env what secret wrap reqss sweeps)
     (program_tasks env what secret wrap (concat reqss) sweeps)"
  unfolding tracks_all_def
  by (rule exI [of _ "map (map (request_thread env what secret wrap)) reqss"], rule exI [of _ sweeps])
    (simp add: tracks_start nth_server_tasks program_tasks_def map_concat, simp add: server_tasks_def nth_append)

lemma tracks_all_step:
  assumes "tracks_all env what secret wrap reqss us vs" and "i < length us" and "us ! i = Atom f" and "f s = (t, s')"
  shows "\<exists>j v. act j (vs, s) = (v, s') \<and> tracks_all env what secret wrap reqss (us[i := t]) v"
proof -
  obtain segs sweeps where segs: "length segs = length reqss"
    "\<And>i. i < length reqss \<Longrightarrow> length (segs ! i) = length (reqss ! i)"
    "\<And>i. i < length reqss \<Longrightarrow> tracks env what secret wrap [] (reqss ! i) (segs ! i) (us ! i)"
    and us: "length us = Suc (length reqss)" "us ! length reqss = sweeper sweeps"
    and vs: "vs = concat segs @ [sweeper sweeps]"
    using assms(1) unfolding tracks_all_def by blast
  show ?thesis
  proof (cases "i = length reqss")
    case True
    then obtain now rest where sw: "sweeps = now # rest" using us(2) assms(3) by (cases sweeps) auto
    have t: "t = sweeper rest" "s' = snd (sweep_codes now s)" using us(2) assms(3,4) True sw by auto
    have "act (length (concat segs)) (vs, s) = (concat segs @ [sweeper rest], s')"
      using t(2) by (simp add: vs sw nth_append)
    moreover have "tracks_all env what secret wrap reqss (us[i := t]) (concat segs @ [sweeper rest])"
      unfolding tracks_all_def using segs us t(1) True
      by (intro exI [of _ segs] exI [of _ rest]) (simp add: nth_list_update)
    ultimately show ?thesis by blast
  next
    case False
    then have i: "i < length reqss" using assms(2) us(1) by simp
    obtain p h where p: "p < length (segs ! i)" "segs ! i ! p = Atom h"
      "\<forall>s. \<exists>v. h s = (v, snd (f s)) \<and> tracks env what secret wrap [] (reqss ! i) ((segs ! i)[p := v]) (fst (f s))"
      using tracks_step [of env what secret wrap "[]" "reqss ! i" "segs ! i" f] segs(3) [OF i] assms(3) by auto
    from p(3) assms(4) obtain v where v: "h s = (v, s')" "tracks env what secret wrap [] (reqss ! i) ((segs ! i)[p := v]) t"
      by (metis fst_conv snd_conv)
    let ?j = "length (concat (take i segs)) + p"
    note upd = concat_update(1,2) [of i segs p] concat_update(3) [of i segs p v]
    have "i < length segs" using i segs(1) by simp
    then have "act ?j (vs, s) = (concat (segs[i := (segs ! i)[p := v]]) @ [sweeper sweeps], s')"
      using upd p(1,2) v(1) by (simp add: vs nth_append list_update_append)
    moreover have "tracks_all env what secret wrap reqss (us[i := t]) (concat (segs[i := (segs ! i)[p := v]]) @ [sweeper sweeps])"
      unfolding tracks_all_def
      by (rule exI [of _ "segs[i := (segs ! i)[p := v]]"], rule exI [of _ sweeps])
        (use segs us v(2) i in \<open>simp add: nth_list_update\<close>)
    ultimately show ?thesis by blast
  qed
qed

lemma server_simulated:
  assumes "run_schedule is (server_tasks env what secret wrap reqss sweeps, w) = (us, w')"
  shows "\<exists>js vs. run_schedule js (program_tasks env what secret wrap (concat reqss) sweeps, w) = (vs, w') \<and>
    tracks_all env what secret wrap reqss us vs"
proof -
  let ?P = "\<lambda>us u. \<exists>js vs. run_schedule js (program_tasks env what secret wrap (concat reqss) sweeps, w) = (vs, u) \<and>
    tracks_all env what secret wrap reqss us vs"
  show "?P us w'"
  proof (rule run_schedule_inv [where P = ?P, OF _ assms])
    show "?P (server_tasks env what secret wrap reqss sweeps) w"
      by (intro exI [of _ "[]"] exI [of _ "program_tasks env what secret wrap (concat reqss) sweeps"])
        (simp add: tracks_all_start)
  next
    fix us u i f t u'
    assume "?P us u" and a: "i < length us" "us ! i = Atom f" "f u = (t, u')"
    then obtain js vs where js: "run_schedule js (program_tasks env what secret wrap (concat reqss) sweeps, w) = (vs, u)"
      "tracks_all env what secret wrap reqss us vs" by blast
    obtain j v where j: "act j (vs, u) = (v, u')" "tracks_all env what secret wrap reqss (us[i := t]) v"
      using tracks_all_step [OF js(2) a] by blast
    have "run_schedule (js @ [j]) (program_tasks env what secret wrap (concat reqss) sweeps, w) = (v, u')"
      using js(1) j(1) by (simp add: run_schedule_append del: act.simps)
    with j(2) show "?P (us[i := t]) u'" by blast
  qed
qed

text \<open>
  the server is among its requests. Whatever the workers, each with the requests it turns out to
  answer, and the main thread can do under some schedule, the requests as threads of their own can do
  under a schedule, to the same tables, codes, mails, avatars and pool; and the responses of a worker
  that is done are those of the threads of its requests, in order. So what holds of the threads of all
  requests under every schedule holds of the server.
\<close>

theorem workers_refine_requests:
  assumes "run_schedule is (server_tasks env what secret wrap reqss sweeps, w) = (us, w')"
  shows "\<exists>js vs. run_schedule js (program_tasks env what secret wrap (concat reqss) sweeps, w) = (vs, w') \<and>
    (\<forall>i < length reqss. \<forall>ress. us ! i = Done (Ok (Some ress)) \<longrightarrow> length ress = length (reqss ! i) \<and>
       (\<forall>m < length (reqss ! i). concat reqss ! (length (concat (take i reqss)) + m) = reqss ! i ! m \<and>
          vs ! (length (concat (take i reqss)) + m) = Done (Ok (Some (ress ! m)))))"
proof -
  obtain js vs segs sws where js: "run_schedule js (program_tasks env what secret wrap (concat reqss) sweeps, w) = (vs, w')"
    and segs: "length segs = length reqss" "\<And>i. i < length reqss \<Longrightarrow> length (segs ! i) = length (reqss ! i)"
    "\<And>i. i < length reqss \<Longrightarrow> tracks env what secret wrap [] (reqss ! i) (segs ! i) (us ! i)"
    and vs: "vs = concat segs @ [sweeper sws]"
    using server_simulated [OF assms] unfolding tracks_all_def by blast
  have off: "length (concat (take i segs)) = length (concat (take i reqss))" for i
  proof -
    have "map length segs = map length reqss" using segs(1,2) by (simp add: list_eq_iff_nth_eq)
    then have "map length (take i segs) = map length (take i reqss)" by (metis take_map)
    then show ?thesis by (simp add: length_concat)
  qed
  have "length ress = length (reqss ! i) \<and>
      (\<forall>m < length (reqss ! i). concat reqss ! (length (concat (take i reqss)) + m) = reqss ! i ! m \<and>
         vs ! (length (concat (take i reqss)) + m) = Done (Ok (Some (ress ! m))))"
    if i: "i < length reqss" and d: "us ! i = Done (Ok (Some ress))" for i ress
  proof -
    have "segs ! i = map (\<lambda>res. value_task (Some res)) ress"
      using tracks_done [of env what secret wrap "[]" "reqss ! i" "segs ! i" ress] segs(3) [OF i] d by auto
    moreover have "i < length segs" using i segs(1) by simp
    ultimately show ?thesis
      using concat_update(1,2) [of i segs] concat_update(2) [OF i] segs(2) [OF i] off [of i]
      by (auto simp: vs nth_append)
  qed
  with js show ?thesis by blast
qed

text \<open>Three requests on two workers, and the same as three threads\<close>

theorem workers_refine_requests_witness:
  "\<exists>us w' js vs. run_schedule ([2] @ concat (replicate 22 [0, 1]))
       (server_tasks (demo_env Map.empty) (\<lambda>e. ''error'') ''key'' JString
          [[(demo_chance 200, demo_post ''/users/register'')],
           [(demo_chance 200, demo_post ''/users/login''), (demo_chance 300, demo_post ''/users/register'')]] [seconds 500],
        demo_world) = (us, w') \<and>
     run_schedule js (program_tasks (demo_env Map.empty) (\<lambda>e. ''error'') ''key'' JString
          [(demo_chance 200, demo_post ''/users/register''), (demo_chance 200, demo_post ''/users/login''),
           (demo_chance 300, demo_post ''/users/register'')] [seconds 500], demo_world) = (vs, w')"
proof -
  let ?reqss = "[[(demo_chance 200, demo_post ''/users/register'')],
    [(demo_chance 200, demo_post ''/users/login''), (demo_chance 300, demo_post ''/users/register'')]]"
  let ?is = "[2] @ concat (replicate 22 [0, 1]) :: nat list"
  obtain us w' where r: "run_schedule ?is (server_tasks (demo_env Map.empty) (\<lambda>e. ''error'') ''key'' JString ?reqss
      [seconds 500], demo_world) = (us, w')" by fastforce
  have "concat ?reqss = [(demo_chance 200, demo_post ''/users/register''), (demo_chance 200, demo_post ''/users/login''),
      (demo_chance 300, demo_post ''/users/register'')]" by simp
  with workers_refine_requests [OF r] r show ?thesis by (metis (no_types, lifting))
qed

end
