(* ===== verification/Signups.thy ===== *)
theory Signups
  imports Sweeps
begin

text \<open>
  Registrations that meet. \<open>handleRegister\<close> of \<open>src/handlers/UserHandler.cpp\<close> asks whether the name is
  taken in one statement and inserts the row in another, so that two requests can both find a name
  free; what keeps them apart are the unique keys of \<open>users\<close>. Here any requests run at the same time,
  and each thread owns the row that it inserted.
\<close>

section \<open>Rows that threads own\<close>

text \<open>
  \<open>keys\<close> are the keys of the rows in a state. An action keeps all rows; it may insert one, apart from
  all that are there, which its thread owns from then on.
\<close>

definition gains :: "('s \<Rightarrow> 'k set) \<Rightarrow> ('k \<Rightarrow> 'k \<Rightarrow> bool) \<Rightarrow> 'k option \<Rightarrow> 'k option \<Rightarrow> 's \<Rightarrow> 's \<Rightarrow> bool" where
  "gains keys apart cl cl' s s' \<longleftrightarrow> keys s \<subseteq> keys s' \<and>
     (cl' = cl \<or> cl = None \<and> (\<exists>k. cl' = Some k \<and> k \<in> keys s' \<and> (\<forall>q \<in> keys s. apart q k)))"

text \<open>A thread that owns \<open>cl\<close> and will own what \<open>R\<close> says of its outcome\<close>

abbreviation owner :: "('s \<Rightarrow> 'k set) \<Rightarrow> ('k \<Rightarrow> 'k \<Rightarrow> bool) \<Rightarrow> ('k option \<Rightarrow> 'a outcome \<Rightarrow> bool) \<Rightarrow>
    'k option \<Rightarrow> ('s, 'a) task \<Rightarrow> bool" where
  "owner keys apart \<equiv> ghost (gains keys apart)"

lemma owner_dao_in: "owner keys apart R cl t \<Longrightarrow> owner (\<lambda>w. keys (w_dao w)) apart R cl (dao_in t)"
  by (erule ghost_dao_in) (auto simp: gains_def)

lemma owner_once:
  assumes "\<And>s. keys s \<subseteq> keys (snd (m s))" and "\<And>s. R cl (fst (m s))"
  shows "owner keys apart R cl (once m)"
  by (rule ghost_once) (use assms in \<open>auto simp: gains_def\<close>)

section \<open>Schedules\<close>

text \<open>
  The contract of a table with a unique key: that two keys are apart does not depend on who came
  first. It is all that the threads need.
\<close>

locale unique_rows =
  fixes keys :: "'s \<Rightarrow> 'k set" and apart :: "'k \<Rightarrow> 'k \<Rightarrow> bool"
  assumes apart_sym: "apart k q \<Longrightarrow> apart q k"
begin

text \<open>What the threads own: it is there, apart from what was there, and apart from each other\<close>

definition settled :: "'k set \<Rightarrow> nat \<Rightarrow> (nat \<Rightarrow> 'k option) \<Rightarrow> 's \<Rightarrow> bool" where
  "settled K n own s \<longleftrightarrow> K \<subseteq> keys s \<and>
     (\<forall>i < n. \<forall>k. own i = Some k \<longrightarrow> k \<in> keys s \<and> (\<forall>q \<in> K. apart q k) \<and>
        (\<forall>j < n. \<forall>q. j \<noteq> i \<and> own j = Some q \<longrightarrow> apart k q))"

lemma settled_step:
  assumes "settled K n own s" and "gains keys apart (own i) cl s s'"
  shows "settled K n (own(i := cl)) s'"
proof -
  have keep: "k \<in> keys s'" if "k \<in> keys s" for k
    using assms(2) that by (auto simp: gains_def)
  show ?thesis
  proof (cases "cl = own i")
    case True
    with assms(1) keep show ?thesis by (auto simp: settled_def fun_upd_idem)
  next
    case False
    then obtain k where k: "own i = None" "cl = Some k" "k \<in> keys s'" "\<forall>q \<in> keys s. apart q k"
      using assms(2) by (auto simp: gains_def)
    have new: "apart q k \<and> apart k q" if "j < n" "own j = Some q" for j q
      using assms(1) k(4) that apart_sym unfolding settled_def by blast
    show ?thesis
      unfolding settled_def
    proof (intro conjI allI impI)
      show "K \<subseteq> keys s'" using assms(1) keep by (auto simp: settled_def)
    next
      fix j q assume j: "j < n" "(own(i := cl)) j = Some q"
      show "q \<in> keys s'" using j k keep assms(1) by (auto simp: settled_def split: if_splits)
      show "\<forall>r \<in> K. apart r q" using j k assms(1) by (fastforce simp: settled_def split: if_splits)
    next
      fix j q l r assume "j < n" "(own(i := cl)) j = Some q" "l < n" "l \<noteq> j \<and> (own(i := cl)) l = Some r"
      then show "apart q r" using k new assms(1) by (auto simp: settled_def split: if_splits)
    qed
  qed
qed

lemma schedule_settles:
  assumes "run_schedule is (ts, s) = (ts', s')" and "\<And>i. i < length ts \<Longrightarrow> owner keys apart (R i) None (ts ! i)"
  shows "\<exists>own. settled (keys s) (length ts) own s' \<and>
    (\<forall>i < length ts. owner keys apart (R i) (own i) (ts' ! i))"
proof (rule schedule_ghosts [where gs = "\<lambda>_. None" and P = "settled (keys s) (length ts)", OF assms])
  show "settled (keys s) (length ts) (\<lambda>_. None) s" by (simp add: settled_def)
qed (assumption, rule settled_step)

end

section \<open>The rows of \<open>users\<close>\<close>

definition user_keys :: "db \<Rightarrow> (string \<times> string) set" where
  "user_keys d = set (map (\<lambda>r. (ur_username r, ur_email r)) (users d))"

lemma user_keys_mono: "set (users d) \<subseteq> set (users d') \<Longrightarrow> user_keys d \<subseteq> user_keys d'"
  by (auto simp: user_keys_def)

abbreviation dao_users :: "dao_state \<Rightarrow> (string \<times> string) set" where
  "dao_users s \<equiv> user_keys (ds_db s)"

abbreviation world_users :: "world \<Rightarrow> (string \<times> string) set" where
  "world_users w \<equiv> dao_users (w_dao w)"

definition other_user :: "server \<Rightarrow> string \<times> string \<Rightarrow> string \<times> string \<Rightarrow> bool" where
  "other_user srv k q \<longleftrightarrow> \<not> same srv (fst k) (fst q) \<and> \<not> same srv (snd k) (snd q)"

interpretation accounts: unique_rows world_users "other_user srv" for srv
  by unfold_locales (auto simp: other_user_def same_def)

named_theorems owner_intros \<open>tasks that keep the rows of others\<close>

text \<open>Statements that keep all rows\<close>

definition keeps_users :: "'x stmt \<Rightarrow> bool" where
  "keeps_users st \<longleftrightarrow> (\<forall>k d. user_keys d \<subseteq> user_keys (snd (st k d)))"

lemma keeps_select [owner_intros]:
  "keeps_users (select_users_by_id srv i)" "keeps_users (select_users_by_username srv n)"
  "keeps_users (select_last_insert_id cid)"
  by (simp_all add: keeps_users_def select_users_by_id_def select_users_by_username_def select_last_insert_id_def)

lemma keeps_update_users:
  assumes "\<And>r. ur_username (g r) = ur_username r \<and> ur_email (g r) = ur_email r"
  shows "keeps_users (update_users srv ok g i)"
proof -
  have "map (\<lambda>r. (ur_username r, ur_email r)) (update_rows P g (\<lambda>r. r\<lparr>ur_update_at := t\<rparr>) xs) =
      map (\<lambda>r. (ur_username r, ur_email r)) xs" for P t xs
    using assms by (simp add: update_rows_def)
  then show ?thesis by (simp add: keeps_users_def update_users_def user_keys_def Let_def del: set_map)
qed

lemma keeps_update [owner_intros]:
  "keeps_users (update_passwd_hash srv h i)" "keeps_users (update_qq_id srv q i)"
  "keeps_users (update_netease_id srv q i)"
  unfolding update_passwd_hash_def update_qq_id_def update_netease_id_def by (simp_all add: keeps_update_users)

abbreviation dao_owner :: "server \<Rightarrow> ((string \<times> string) option \<Rightarrow> 'a outcome \<Rightarrow> bool) \<Rightarrow>
    (string \<times> string) option \<Rightarrow> (dao_state, 'a) task \<Rightarrow> bool" where
  "dao_owner srv \<equiv> owner dao_users (other_user srv)"

abbreviation user_owner :: "env \<Rightarrow> ((string \<times> string) option \<Rightarrow> 'a outcome \<Rightarrow> bool) \<Rightarrow>
    (string \<times> string) option \<Rightarrow> (world, 'a) task \<Rightarrow> bool" where
  "user_owner env \<equiv> owner world_users (other_user (ev_server env))"

lemma jdbc_keeps_users:
  assumes "keeps_users st"
  shows "dao_users s \<subseteq> dao_users (snd (jdbc srv c st s)) \<and> fst (jdbc srv c st s) \<noteq> Undefined"
proof -
  obtain r s' where call: "jdbc srv c st s = (r, s')" by fastforce
  then show ?thesis
    by (cases rule: jdbc_cases) (use assms call in \<open>simp_all add: keeps_users_def, (metis snd_conv)+\<close>)
qed

lemma owner_stmt [owner_intros]:
  assumes "keeps_users st" and "\<And>x. dao_owner srv R cl (k x)" and "\<And>e. R cl (Raised e)"
  shows "dao_owner srv R cl (stmt srv c st k)"
proof (rule ghost_stmt)
  fix s x s' assume "jdbc srv c st s = (Ok x, s')"
  then show "\<exists>cl'. gains dao_users (other_user srv) cl cl' s s' \<and> dao_owner srv R cl' (k x)"
    using jdbc_keeps_users [OF assms(1), of s srv c] assms(2) by (auto simp: gains_def)
next
  fix s s' assume "jdbc srv c st s = (Raised SqlException, s')"
  then show "gains dao_users (other_user srv) cl cl s s' \<and> R cl (Raised SqlException)"
    using jdbc_keeps_users [OF assms(1), of s srv c] assms(3) by (simp add: gains_def)
qed

text \<open>The \<open>INSERT\<close>: when it succeeds, its thread owns the row.\<close>

lemma insert_gains:
  assumes "jdbc srv c (insert_user srv (c_id c) n h m) s = (r, s')"
  shows "(\<exists>x. r = Ok x \<and> gains dao_users (other_user srv) None (Some (n, m)) s s') \<or>
    (\<exists>e. r = Raised e \<and> dao_users s \<subseteq> dao_users s')"
proof -
  have adds: "user_keys d \<subseteq> user_keys d'" if "insert_user srv cid n h m k d = (x, d')" for cid k d x d'
    using insert_user_adds [OF that] by (simp add: user_keys_mono)
  from assms show ?thesis
  proof (cases rule: jdbc_cases)
    case (ok x d)
    from ok(2) show ?thesis
      by (cases rule: insert_user_cases)
        (use ok adds [OF ok(2)] in \<open>auto simp: gains_def other_user_def user_keys_def\<close>)
  qed (auto dest: adds)
qed

definition created_own :: "user \<Rightarrow> (string \<times> string) option \<Rightarrow> (bool \<times> user) outcome \<Rightarrow> bool" where
  "created_own u cl r \<longleftrightarrow> (\<forall>v. r = Ok (True, v) \<longrightarrow> cl = Some (us_username u, us_email u))"

lemma create_body_owner: "dao_owner srv (created_own u) None (create_body srv evp u c)"
  unfolding create_body_def
proof (rule ghost_stmt)
  let ?st = "insert_user srv (c_id c) (us_username u) (hashPassword evp (us_passwd_hash u)) (us_email u)"
  have tail: "dao_owner srv (created_own u) (Some (us_username u, us_email u)) (create_tail srv u c)"
    unfolding create_tail_def by (intro owner_intros) (auto simp: created_own_def)
  fix s x s'
  show "\<exists>cl. gains dao_users (other_user srv) None cl s s' \<and> dao_owner srv (created_own u) cl (create_tail srv u c)"
    if "jdbc srv c ?st s = (Ok x, s')"
    using insert_gains [OF that] tail by auto
  show "gains dao_users (other_user srv) None None s s' \<and> created_own u None (Raised SqlException)"
    if "jdbc srv c ?st s = (Raised SqlException, s')"
    using insert_gains [OF that] by (auto simp: gains_def created_own_def)
qed

lemma gains_of_tables: "of_tables (gains dao_users (other_user srv))"
  by (simp add: of_tables_def gains_def)

lemmas dao_task_owner = ghost_dao_task [OF gains_of_tables]

lemma createUser_owner: "dao_owner srv (created_own u) None (createUser_task srv evp u)"
  unfolding createUser_task_def
  by (intro dao_task_owner create_body_owner) (simp_all add: created_own_def)

abbreviation any_outcome :: "(string \<times> string) option \<Rightarrow> 'a outcome \<Rightarrow> bool" where
  "any_outcome \<equiv> (\<lambda>_ _. True)"

text \<open>What a thread owns does not change while it does other things.\<close>

abbreviation still :: "(string \<times> string) option \<Rightarrow> (string \<times> string) option \<Rightarrow> 'a outcome \<Rightarrow> bool" where
  "still cl \<equiv> (\<lambda>cl' _. cl' = cl)"

lemma user_tasks_owner [owner_intros]:
  "dao_owner srv (still cl) cl (userById_task srv i)"
  "dao_owner srv (still cl) cl (userByName_task srv n)"
  "dao_owner srv (still cl) cl (updatePassword_task srv evp i p)"
  "dao_owner srv (still cl) cl (updateQQId_task srv i q)"
  "dao_owner srv (still cl) cl (updateNetEaseId_task srv i q)"
  unfolding user_task_defs by (intro dao_task_owner owner_intros; simp add: owner_intros)+

lemma once_tasks_owner [owner_intros]:
  "user_owner env (still cl) cl (once (mail_code env email verify_code))"
  "user_owner env (still cl) cl (once (store_code email info))"
  "user_owner env (still cl) cl (check_task now email action code)"
  "user_owner env (still cl) cl (once (gets g))"
  "user_owner env (still cl) cl (once (write_avatar env p d))"
  "user_owner env (still cl) cl (once (modify (\<lambda>w. w\<lparr>w_files := (w_files w)\<lparr>af_dir := True\<rparr>\<rparr>)))"
  by (rule owner_once ghost_check; simp add: gains_def mail_code_def store_code_def write_avatar_def and_then_def
      gets_def modify_def ret_def case_prod_beta)+

section \<open>Registrations\<close>

text \<open>The name and the address in the body of a request\<close>

definition signs_up :: "env \<Rightarrow> http_request \<Rightarrow> string \<Rightarrow> string \<Rightarrow> bool" where
  "signs_up env req n e \<longleftrightarrow> (\<exists>j. jl_parse (ev_json env) (rq_body req) = Some j \<and>
     get_string j ''username'' = Ok n \<and> get_string j ''email'' = Ok e)"

definition registers :: "http_request \<Rightarrow> bool" where
  "registers req \<longleftrightarrow> rq_method req = Post \<and> rq_target req = ''/users/register''"

definition registered :: "env \<Rightarrow> http_request \<Rightarrow> (string \<times> string) option \<Rightarrow> http_response outcome \<Rightarrow> bool" where
  "registered env req cl r \<longleftrightarrow> (accepted r \<longrightarrow> (\<exists>n e. signs_up env req n e \<and> cl = Some (n, e)))"

lemma registered_refused: "\<not> accepted r \<Longrightarrow> registered env req cl r"
  by (simp add: registered_def)

lemmas error_owner = ghost_error [where R = "registered env req", OF registered_refused] for env req

lemma created_task_owner:
  assumes "signs_up env req n e" and "us_username u = n" and "us_email u = e"
  shows "user_owner env (registered env req) None
    (bind_task (dao_in (createUser_task (ev_server env) evp u)) (\<lambda>(created, user).
       if \<not> created then error_task env req status_internal_server_error ''Failed to create user''
       else json_task env req (resp user)))"
proof (rule ghost_bind [OF owner_dao_in [OF createUser_owner]])
  fix cl x assume x: "created_own u cl (Ok x)"
  obtain b v where b: "x = (b, v)" by fastforce
  obtain r where "json_task env req (resp v) = Done r" using json_task_Done by blast
  moreover have "registered env req cl r" if b
    using x b that assms by (auto simp: created_own_def registered_def)
  ultimately show "user_owner env (registered env req) cl (case x of (created, user) \<Rightarrow>
       if \<not> created then error_task env req status_internal_server_error ''Failed to create user''
       else json_task env req (resp user))"
    using b by (simp add: error_owner)
qed (simp_all add: registered_refused)

lemma register_task_owner: "user_owner env (registered env req) None (register_task env ch req)"
  unfolding register_task_def
proof (rule ghost_catch_both [OF registered_refused])
  let ?inserted = "\<lambda>n p e. bind_task (dao_in (userByName_task (ev_server env) n)) (\<lambda>found.
       if found \<noteq> None then error_task env req status_conflict ''Username already exists''
       else
         bind_task (dao_in (createUser_task (ev_server env) (ev_evp env)
             (new_user\<lparr>us_username := n, us_passwd_hash := p, us_email := e\<rparr>)))
           (\<lambda>(created, user).
         if \<not> created
         then error_task env req status_internal_server_error ''Failed to create user''
         else json_task env req
                (JObj [(''code'', JInt 200), (''message'', JString ''User registered successfully''),
                       (''user_id'', JInt (us_id user))])))"
  let ?checked = "\<lambda>n p e c. bind_task (check_task (ch_clock ch 0) e ''register'' c) (\<lambda>valid.
       if \<not> valid then error_task env req status_bad_request ''Invalid verification code''
       else ?inserted n p e)"
  have checked: "user_owner env (registered env req) None (?checked n p e c)" if s: "signs_up env req n e" for n p e c
  proof (rule ghost_bind [OF once_tasks_owner(3)])
    fix cl valid assume cl: "(cl :: (string \<times> string) option) = None"
    have "user_owner env (registered env req) None (?inserted n p e)"
      by (rule ghost_bind [OF owner_dao_in [OF user_tasks_owner(2)]])
        (use s in \<open>auto simp: error_owner registered_refused intro: created_task_owner\<close>)
    then show "user_owner env (registered env req) cl (if \<not> valid
        then error_task env req status_bad_request ''Invalid verification code'' else ?inserted n p e)"
      using cl by (simp add: error_owner)
  qed (simp_all add: registered_refused)
  show "user_owner env (registered env req) None (bind_task (body_task env req) (\<lambda>j.
      if \<not> contains j ''username'' \<or> \<not> contains j ''password'' \<or> \<not> contains j ''email'' \<or>
         \<not> contains j ''verify_code''
      then error_task env req status_bad_request ''Missing username or password or email or verify_code''
      else
        bind_task (text_task j ''username'') (\<lambda>username. bind_task (text_task j ''password'') (\<lambda>password.
        bind_task (text_task j ''email'') (\<lambda>email. bind_task (text_task j ''verify_code'') (\<lambda>verify_code.
        ?checked username password email verify_code))))))"
    by (intro ghost_body ghost_text ghost_if error_owner checked) (auto simp: signs_up_def registered_refused)
qed

section \<open>All other requests\<close>

lemma any_dao [any_intros]:
  "user_owner env any_outcome cl (dao_in (userById_task (ev_server env) i))"
  "user_owner env any_outcome cl (dao_in (userByName_task (ev_server env) n))"
  "user_owner env any_outcome cl (dao_in (updatePassword_task (ev_server env) evp i p))"
  "user_owner env any_outcome cl (dao_in (updateQQId_task (ev_server env) i q))"
  "user_owner env any_outcome cl (dao_in (updateNetEaseId_task (ev_server env) i q))"
  by (rule ghost_mono [OF owner_dao_in [OF user_tasks_owner(1)]] ghost_mono [OF owner_dao_in [OF user_tasks_owner(2)]]
      ghost_mono [OF owner_dao_in [OF user_tasks_owner(3)]] ghost_mono [OF owner_dao_in [OF user_tasks_owner(4)]]
      ghost_mono [OF owner_dao_in [OF user_tasks_owner(5)]]; simp)+

lemma any_once [any_intros]:
  "user_owner env (still cl) cl (once m) \<Longrightarrow> user_owner env any_outcome cl (once m)"
  "user_owner env (still cl) cl (check_task now email action code) \<Longrightarrow>
   user_owner env any_outcome cl (check_task now email action code)"
  by (rule ghost_mono; simp)+

lemma any_send [any_intros]: "user_owner env any_outcome cl (send_task env ch email action)"
  unfolding send_task_def Let_def by (intro any_intros once_tasks_owner)

lemma any_avatar_dir [any_intros]: "user_owner env any_outcome cl (avatar_dir_task env)"
  unfolding avatar_dir_task_def by (intro any_intros once_tasks_owner)

lemma handler_tasks_any:
  "user_owner env any_outcome cl (getVerifyCode_task env ch req)" "user_owner env any_outcome cl (login_task env ju ch req)"
  "user_owner env any_outcome cl (getProfile_task env ju ch req)"
  "user_owner env any_outcome cl (updateAvatar_task env ju ch req)"
  "user_owner env any_outcome cl (getAvatar_task env ju ch req)"
  "user_owner env any_outcome cl (changePassword_task env ju ch req)"
  "user_owner env any_outcome cl (bindPlatform_task env ju ch req)"
  unfolding handler_task_defs Let_def by (intro any_intros once_tasks_owner)+

text \<open>A request through the router and the session\<close>

definition keeps_promise :: "env \<Rightarrow> http_request \<Rightarrow> (string \<times> string) option \<Rightarrow> http_response outcome \<Rightarrow> bool" where
  "keeps_promise env req cl r \<longleftrightarrow> (registers req \<longrightarrow> registered env req cl r)"

lemma keeps_promise_refused: "\<not> accepted r \<Longrightarrow> keeps_promise env req cl r"
  by (simp add: keeps_promise_def registered_refused)

lemma registers_find: "registers req \<Longrightarrow> find_task env ju wrap (rq_method req) (rq_target req) = Some (register_task env)"
  by (simp add: registers_def find_task_def route_tasks_def)

lemma found_task_owner:
  assumes "find_task env ju wrap (rq_method req) (rq_target req) = Some h"
  shows "user_owner env (keeps_promise env req) None (h ch req)"
proof (cases "registers req")
  case True
  then have "user_owner env (registered env req) None (h ch req)"
    using assms register_task_owner [of env req ch] by (auto simp: registers_find)
  then show ?thesis by (rule ghost_mono) (simp add: keeps_promise_def)
next
  case False
  have "user_owner env any_outcome None (h ch req)"
    using find_task_cases [OF assms] handler_tasks_any
      ghost_mono [OF register_task_owner, where Q = any_outcome] by (auto intro: any_intros)
  then show ?thesis by (rule ghost_mono) (simp add: keeps_promise_def False)
qed

lemma answer_task_owner: "user_owner env (keeps_promise env req) None (answer_task env what secret wrap ch req)"
  by (rule ghost_answer [OF keeps_promise_refused found_task_owner])

text \<open>The sweeps keep the rows.\<close>

lemma sweeper_owner: "user_owner env any_outcome cl (sweeper sweeps)"
  by (induction sweeps) (auto simp: ghost_Atom gains_def sweep_codes_codes)

lemma program_owner:
  assumes "i < Suc (length reqs)"
  shows "user_owner env (\<lambda>cl r. i < length reqs \<longrightarrow>
      (\<forall>res. r = Ok (Some res) \<longrightarrow> keeps_promise env (snd (reqs ! i)) cl (Ok res))) None
    (program_tasks env what secret wrap reqs sweeps ! i)"
proof (cases "i = length reqs")
  case True
  then show ?thesis by (simp add: nth_program_tasks sweeper_owner)
next
  case False
  then show ?thesis
    using assms ghost_mono [OF ghost_request [OF answer_task_owner]] by (simp add: nth_program_tasks)
qed

section \<open>Properties\<close>

text \<open>
  C8: registrations at the same time, among any requests and sweeps, under any schedule and on any server: who is
  told that the registration succeeded has a row with the name and the address of the request, which
  no earlier user had; and no two who are told so have the same name or the same address, although
  both may have found them free.
\<close>

theorem concurrent_registrations:
  assumes "run_schedule is (program_tasks env what secret wrap reqs sweeps, w) = (ts', w')"
    and "i < length reqs" and "registers (snd (reqs ! i))" and "ts' ! i = Done (Ok (Some res))" and "rs_status res = 200"
  shows "\<exists>n e. signs_up env (snd (reqs ! i)) n e \<and>
    (\<exists>r \<in> set (users (ds_db (w_dao w'))). ur_username r = n \<and> ur_email r = e) \<and>
    (\<forall>r \<in> set (users (ds_db (w_dao w))). \<not> same (ev_server env) (ur_username r) n \<and>
       \<not> same (ev_server env) (ur_email r) e) \<and>
    (\<forall>j res' n' e'. j < length reqs \<and> j \<noteq> i \<and> registers (snd (reqs ! j)) \<and> ts' ! j = Done (Ok (Some res')) \<and>
       rs_status res' = 200 \<and> signs_up env (snd (reqs ! j)) n' e' \<longrightarrow>
       \<not> same (ev_server env) n n' \<and> \<not> same (ev_server env) e e')"
proof -
  let ?R = "\<lambda>i cl r. i < length reqs \<longrightarrow>
      (\<forall>res. r = Ok (Some res) \<longrightarrow> keeps_promise env (snd (reqs ! i)) cl (Ok res))"
  obtain own where own: "accounts.settled (ev_server env) (world_users w) (Suc (length reqs)) own w'"
    "\<forall>i < Suc (length reqs). user_owner env (?R i) (own i) (ts' ! i)"
    using accounts.schedule_settles [OF assms(1), where R = ?R and srv = "ev_server env"]
      program_owner [where env = env and what = what and secret = secret and wrap = wrap and sweeps = sweeps]
    by auto
  have claim: "\<exists>n e. signs_up env (snd (reqs ! j)) n e \<and> own j = Some (n, e)"
    if "j < length reqs" "registers (snd (reqs ! j))" "ts' ! j = Done (Ok (Some res'))" "rs_status res' = 200" for j res'
    using own(2) [rule_format, of j] that by (simp add: keeps_promise_def registered_def)
  from claim [OF assms(2-5)] obtain n e where ne: "signs_up env (snd (reqs ! i)) n e" "own i = Some (n, e)" by blast
  have mine: "(n, e) \<in> world_users w'" "\<forall>q \<in> world_users w. other_user (ev_server env) q (n, e)"
    using own(1) ne(2) less_SucI [OF assms(2)] unfolding accounts.settled_def by blast+
  have apart: "other_user (ev_server env) (n, e) (n', e')"
    if "j < length reqs" "j \<noteq> i" "registers (snd (reqs ! j))" "ts' ! j = Done (Ok (Some res'))" "rs_status res' = 200"
      "signs_up env (snd (reqs ! j)) n' e'" for j res' n' e'
  proof -
    have "own j = Some (n', e')" using claim [OF that(1,3-5)] that(6) by (auto simp: signs_up_def)
    then show ?thesis using own(1) ne(2) assms(2) that(1,2) unfolding accounts.settled_def by (metis less_SucI)
  qed
  show ?thesis
    using ne(1) mine apart by (intro exI [of _ n] exI [of _ e]) (fastforce simp: user_keys_def other_user_def)
qed

lemma demo_signup_registers: "registers demo_signup"
  by (simp add: registers_def demo_signup_def)

lemma demo_register_answer:
  "\<exists>res w'. run_task (answer_task (demo_env demo_docs) what secret wrap (demo_chance 100) demo_signup) demo_coded =
     (Ok res, w') \<and> rs_status res = 200"
proof -
  let ?req = "demo_request [] ''register''"
  have "reply_error env demo_signup st m = reply_error env ?req st m" "reply_json env demo_signup j = reply_json env ?req j"
    "body_json env demo_signup = body_json env ?req" for env st m j
    by (simp_all add: reply_error_def reply_json_def body_json_def demo_signup_def)
  then have "handleRegister env ch demo_signup = handleRegister env ch ?req" for env ch
    by (simp only: handleRegister_def with_catch_def)
  then obtain res w' where "run_task (register_task (demo_env demo_docs) (demo_chance 100) demo_signup) demo_coded =
      (Ok res, w')" "rs_status res = 200"
    using demo_register run_handler_tasks(2) by metis
  then show ?thesis
    by (simp add: answer_task_def registers_find demo_signup_registers run_catch_task catch_exn_def del: run_task.simps)
qed

text \<open>One name twice: the first request runs to its end, the second one is refused.\<close>

theorem concurrent_registrations_witness:
  "\<exists>ts' w' res. run_schedule (replicate 11 0 @ 2 # replicate 11 1)
       (program_tasks (demo_env demo_docs) (\<lambda>e. ''error'') ''key'' JString
          (replicate 2 (demo_chance 100, demo_signup)) [seconds 150], demo_coded) = (ts', w') \<and>
     ts' ! 0 = Done (Ok (Some res)) \<and> rs_status res = 200 \<and>
     (\<forall>res'. ts' ! 1 = Done (Ok (Some res')) \<longrightarrow> rs_status res' \<noteq> 200)"
proof -
  let ?reqs = "replicate 2 (demo_chance 100, demo_signup)" and ?env = "demo_env demo_docs"
  let ?t = "request_thread ?env (\<lambda>e. ''error'') ''key'' JString (demo_chance 100, demo_signup)"
  let ?main = "sweeper [seconds 150] :: (world, http_response option) task"
  obtain res w1 where r: "run_task (answer_task ?env (\<lambda>e. ''error'') ''key'' JString (demo_chance 100) demo_signup) demo_coded = (Ok res, w1)" "rs_status res = 200"
    using demo_register_answer by blast
  obtain ts' w' where run: "run_schedule (replicate 11 0 @ 2 # replicate 11 1)
      (program_tasks ?env (\<lambda>e. ''error'') ''key'' JString ?reqs [seconds 150], demo_coded) = (ts', w')"
    by fastforce
  have two: "program_tasks ?env (\<lambda>e. ''error'') ''key'' JString ?reqs [seconds 150] = [?t, ?t, ?main]"
    by (simp add: program_tasks_def numeral_2_eq_2)
  have alone: "run_schedule (replicate 11 0) ([?t, ?t, ?main], demo_coded) = ([Done (Ok (Some res)), ?t, ?main], w1)"
    using request_alone [OF _ _ r(1), of 0 "[?t, ?t, ?main]"] by (simp del: sweeper_Cons)
  have "run_schedule (2 # replicate 11 1) ([Done (Ok (Some res)), ?t, ?main], w1) = (ts', w')"
    using run by (simp only: run_schedule_append two alone)
  from run_schedule_Done [OF this, of 0 "Ok (Some res)"] have "ts' ! 0 = Done (Ok (Some res))" by simp
  moreover have "rs_status res' \<noteq> 200" if res': "ts' ! 1 = Done (Ok (Some res'))" for res'
  proof
    assume ok: "rs_status res' = 200"
    have "snd (?reqs ! 0) = demo_signup" "snd (?reqs ! 1) = demo_signup" "0 < length ?reqs" "1 < length ?reqs" by simp_all
    with concurrent_registrations [OF run, of 0 res] \<open>ts' ! 0 = _\<close> r(2) demo_signup_registers obtain n e where
      n: "signs_up ?env demo_signup n e" "\<forall>j res' n' e'. j < length ?reqs \<and> j \<noteq> 0 \<and> registers (snd (?reqs ! j)) \<and>
        ts' ! j = Done (Ok (Some res')) \<and> rs_status res' = 200 \<and> signs_up ?env (snd (?reqs ! j)) n' e' \<longrightarrow>
        \<not> same (ev_server ?env) n n' \<and> \<not> same (ev_server ?env) e e'" by metis
    from n(2) [THEN spec, of 1, THEN spec, of res', THEN spec, of n, THEN spec, of e] n(1) res' ok demo_signup_registers
    show False by (simp add: same_def)
  qed
  ultimately show ?thesis using run r(2) by blast
qed

end
