(* ===== verification/Logins.thy ===== *)
theory Logins
  imports Sweeps
begin

text \<open>
  Logins while others act. \<open>handleLogin\<close> of \<open>src/handlers/UserHandler.cpp\<close> reads the user in one statement
  and compares the password afterwards, when the row may have changed. The ghost of its thread is the
  tables as it read them.
\<close>

abbreviation saw_tables :: "db option \<Rightarrow> db option \<Rightarrow> dao_state \<Rightarrow> dao_state \<Rightarrow> bool" where
  "saw_tables \<equiv> remembers ds_db"

abbreviation saw_world :: "db option \<Rightarrow> db option \<Rightarrow> world \<Rightarrow> world \<Rightarrow> bool" where
  "saw_world \<equiv> remembers (\<lambda>w. ds_db (w_dao w))"

lemma saw_of_tables: "of_tables saw_tables"
  by (simp add: of_tables_def remembers_def)

lemma saw_in: "ghost saw_tables R g t \<Longrightarrow> ghost saw_world R g (dao_in t)"
  by (erule ghost_dao_in) (simp add: remembers_def)

definition saw_user :: "server \<Rightarrow> string \<Rightarrow> db option \<Rightarrow> user option outcome \<Rightarrow> bool" where
  "saw_user srv n g r \<longleftrightarrow> (\<forall>u. r = Ok (Some u) \<longrightarrow>
     (\<exists>d. g = Some d \<and> (\<exists>row \<in> set (users d). same srv (ur_username row) n \<and> u = buildFromResultSet srv row)))"

lemma userByName_saw: "ghost saw_tables (saw_user srv n) g (userByName_task srv n)"
  unfolding userByName_task_def
proof (rule ghost_dao_task [OF saw_of_tables])
  fix c show "ghost saw_tables (saw_user srv n) g
      (stmt srv c (select_users_by_username srv n) (\<lambda>rows. value_task (first_user srv rows)))"
  proof (rule ghost_stmt)
    fix s rows s' assume "jdbc srv c (select_users_by_username srv n) s = (Ok rows, s')"
    then have rows: "rows = filter (\<lambda>r. same srv (ur_username r) n) (scan srv (ds_tick s) (users (ds_db s)))"
      by (cases rule: jdbc_cases) (simp_all add: select_users_by_username_def)
    have "\<exists>row \<in> set (users (ds_db s)). same srv (ur_username row) n \<and> u = buildFromResultSet srv row"
      if u: "first_user srv rows = Some u" for u
    proof -
      obtain row rest where r: "rows = row # rest" "u = buildFromResultSet srv row"
        using u by (cases rows) (auto simp: first_user_def)
      then have "row \<in> set rows" by simp
      then show ?thesis using rows r(2) by auto
    qed
    then show "\<exists>g'. saw_tables g g' s s' \<and> ghost saw_tables (saw_user srv n) g' (value_task (first_user srv rows))"
      by (intro exI [of _ "Some (ds_db s)"]) (simp add: remembers_def saw_user_def)
  qed (simp_all add: remembers_def saw_user_def)
qed (simp_all add: saw_user_def)

text \<open>
  What a successful login had seen: a user of that name with the hash of the password; its token is
  made out to that user.
\<close>

definition matched :: "env \<Rightarrow> jwt_util \<Rightarrow> chance \<Rightarrow> http_request \<Rightarrow> http_response \<Rightarrow> user_row \<Rightarrow> bool" where
  "matched env ju ch req res row \<longleftrightarrow> (\<exists>n p t. login_body env req n p \<and> same (ev_server env) (ur_username row) n \<and>
     verifyPassword (ev_evp env) p (ur_passwd_hash row) \<and>
     generateToken (ev_jwt env) ju (ch_clock ch 0) (ur_username row)
       [(''email'', ur_email row), (''id'', to_string (ur_id row))] (24 * 120 * 3600) = Ok t \<and>
     rs_fields res ''Authorization'' = Some t)"

definition logged_in :: "env \<Rightarrow> jwt_util \<Rightarrow> chance \<Rightarrow> http_request \<Rightarrow> db option \<Rightarrow> http_response outcome \<Rightarrow> bool" where
  "logged_in env ju ch req g r \<longleftrightarrow> (\<forall>res. r = Ok res \<and> rs_status res = 200 \<longrightarrow>
     (\<exists>d. g = Some d \<and> (\<exists>row \<in> set (users d). matched env ju ch req res row)))"

lemma logged_in_refused: "\<not> accepted r \<Longrightarrow> logged_in env ju ch req g r"
  by (auto simp: logged_in_def accepted_def)

lemma token_reply:
  assumes "\<And>res. rs_fields res ''Authorization'' = Some t \<Longrightarrow> logged_in env ju ch req g (Ok res)"
  shows "ghost saw_world (logged_in env ju ch req) g
    (bind_task (json_task env req j) (\<lambda>res. value_task (set_field ''Authorization'' t res)))"
proof -
  obtain r where "json_task env req j = Done r" using json_task_Done by blast
  then show ?thesis using assms by (cases r) (simp_all add: logged_in_refused)
qed

lemma password_checked:
  assumes "login_body env req n p" and "saw_user (ev_server env) n g (Ok (Some u))"
  shows "ghost saw_world (logged_in env ju ch req) g
    (if \<not> verifyPassword (ev_evp env) p (us_passwd_hash u)
     then error_task env req status_unauthorized ''Incorrect password''
     else bind_task (Done (generateToken (ev_jwt env) ju (ch_clock ch 0) (us_username u)
         [(''email'', us_email u), (''id'', to_string (us_id u))] (24 * 120 * 3600)))
       (\<lambda>token. bind_task (json_task env req j) (\<lambda>res. value_task (set_field ''Authorization'' token res))))"
proof (cases "verifyPassword (ev_evp env) p (us_passwd_hash u)")
  case False
  then show ?thesis by (simp add: ghost_error logged_in_refused)
next
  case True
  obtain d row where row: "g = Some d" "row \<in> set (users d)" "same (ev_server env) (ur_username row) n"
    "u = buildFromResultSet (ev_server env) row"
    using assms(2) by (auto simp: saw_user_def)
  show ?thesis
  proof (cases "generateToken (ev_jwt env) ju (ch_clock ch 0) (us_username u)
      [(''email'', us_email u), (''id'', to_string (us_id u))] (24 * 120 * 3600)")
    case (Ok t)
    have "logged_in env ju ch req g (Ok res)" if "rs_fields res ''Authorization'' = Some t" for res
      using that assms(1) row True Ok unfolding logged_in_def matched_def
      by (auto simp: buildFromResultSet_def intro!: bexI [of _ row])
    from token_reply [OF this] show ?thesis using True Ok by simp
  qed (use True in \<open>simp_all add: logged_in_refused\<close>)
qed

lemma login_task_saw: "ghost saw_world (logged_in env ju ch req) g (login_task env ju ch req)"
  unfolding login_task_def
proof (intro ghost_catch_both logged_in_refused ghost_body ghost_if ghost_text ghost_error accepted_simps(1)
    ghost_bind [OF saw_in [OF userByName_saw]])
  fix j n p g user
  assume "jl_parse (ev_json env) (rq_body req) = Some j" "get_string j ''username'' = Ok n"
    "get_string j ''password'' = Ok p" and saw: "saw_user (ev_server env) n g (Ok user)"
  then have "login_body env req n p" by (simp add: login_body_def)
  from password_checked [OF this] saw
  show "ghost saw_world (logged_in env ju ch req) g (case user of
       None \<Rightarrow> error_task env req status_not_found ''User not found''
     | Some u \<Rightarrow>
         if \<not> verifyPassword (ev_evp env) p (us_passwd_hash u)
         then error_task env req status_unauthorized ''Incorrect password''
         else
           bind_task (Done (generateToken (ev_jwt env) ju (ch_clock ch 0) (us_username u)
               [(''email'', us_email u), (''id'', to_string (us_id u))] (24 * 120 * 3600)))
             (\<lambda>token. bind_task (json_task env req
                 (JObj [(''code'', JInt 200), (''message'', JString ''Login successful''), (''user'', user_json u)]))
               (\<lambda>res. value_task (set_field ''Authorization'' token res))))"
    by (cases user) (simp_all add: ghost_error logged_in_refused)
qed simp_all

definition logs_in :: "http_request \<Rightarrow> bool" where
  "logs_in req \<longleftrightarrow> rq_method req = Post \<and> rq_target req = ''/users/login''"

lemma logs_in_find: "logs_in req \<Longrightarrow> find_task env ju wrap (rq_method req) (rq_target req) = Some (login_task env ju)"
  by (simp add: logs_in_def find_task_def route_tasks_def)

lemma answer_task_saw:
  assumes "logs_in req"
  shows "ghost saw_world (logged_in env (new_jwt_util secret) ch req) g (answer_task env what secret wrap ch req)"
  by (rule ghost_answer [OF logged_in_refused]) (auto simp: logs_in_find [OF assms] intro: login_task_saw)

section \<open>Properties\<close>

text \<open>
  C9: a login while any other threads act (requests that change the password, for one): when it succeeds
  there was a moment of the run, one at which its own thread acted, when \<open>users\<close> held a row of that name
  with the hash of the password in the request, and the token in the answer is made out to that row.
  The threads beside it may do anything to the tables and the codes. So a password that was replaced before the
  login began is not accepted.
\<close>

theorem concurrent_login:
  assumes "run_schedule is (ts, w) = (ts', w')" and "i < length ts"
    and "ts ! i = request_thread env what secret wrap (ch, req)" and "logs_in req"
    and "ts' ! i = Done (Ok (Some res))" and "rs_status res = 200"
  shows "\<exists>js ks us u. is = js @ i # ks \<and> run_schedule js (ts, w) = (us, u) \<and>
    (\<exists>row \<in> set (users (ds_db (w_dao u))). matched env (new_jwt_util secret) ch req res row)"
proof -
  let ?R = "\<lambda>g r. \<forall>res. r = Ok (Some res) \<longrightarrow> logged_in env (new_jwt_util secret) ch req g (Ok res)"
  have start: "ghost saw_world ?R None (ts ! i)"
    using ghost_request [where x = "(ch, req)", OF answer_task_saw] assms(3,4) by simp
  obtain g where g: "ghost saw_world ?R g (ts' ! i)"
    "\<forall>v. g = Some v \<longrightarrow> (\<exists>js ks us u. is = js @ i # ks \<and> run_schedule js (ts, w) = (us, u) \<and> v = ds_db (w_dao u))"
    using schedule_moment [where step = saw_world and view = "\<lambda>w. ds_db (w_dao w)", OF assms(1,2) start] by auto
  then obtain d where "g = Some d" "\<exists>row \<in> set (users d). matched env (new_jwt_util secret) ch req res row"
    using assms(5,6) by (auto simp: logged_in_def)
  with g(2) show ?thesis by blast
qed

definition demo_signin :: http_request where
  "demo_signin = (demo_request [] ''login'')\<lparr>rq_method := Post, rq_target := ''/users/login''\<rparr>"

lemma demo_signin_logs_in: "logs_in demo_signin"
  by (simp add: logs_in_def demo_signin_def)

lemma demo_login_answer:
  "\<exists>res w'. run_task (answer_task (demo_env demo_docs) what ''key'' wrap (demo_chance 100) demo_signin) demo_account =
     (Ok res, w') \<and> rs_status res = 200"
proof -
  let ?req = "demo_request [] ''login''"
  have "reply_error env demo_signin st m = reply_error env ?req st m" "reply_json env demo_signin j = reply_json env ?req j"
    "body_json env demo_signin = body_json env ?req" for env st m j
    by (simp_all add: reply_error_def reply_json_def body_json_def demo_signin_def)
  then have "handleLogin env ju ch demo_signin = handleLogin env ju ch ?req" for env ju ch
    by (simp only: handleLogin_def with_catch_def)
  then obtain res w' where "run_task (login_task (demo_env demo_docs) (new_jwt_util ''key'') (demo_chance 100) demo_signin)
      demo_account = (Ok res, w')" "rs_status res = 200"
    using demo_login run_handler_tasks(3) by metis
  then show ?thesis
    by (simp add: answer_task_def logs_in_find [OF demo_signin_logs_in] run_catch_task catch_exn_def del: run_task.simps)
qed

theorem concurrent_login_witness:
  "\<exists>res js ks us u. replicate 11 0 = js @ 0 # ks \<and>
     run_schedule js ([request_thread (demo_env demo_docs) (\<lambda>e. ''error'') ''key'' JString (demo_chance 100, demo_signin)],
       demo_account) = (us, u) \<and>
     (\<exists>row \<in> set (users (ds_db (w_dao u))).
        matched (demo_env demo_docs) (new_jwt_util ''key'') (demo_chance 100) demo_signin res row)"
proof -
  let ?t = "request_thread (demo_env demo_docs) (\<lambda>e. ''error'') ''key'' JString (demo_chance 100, demo_signin)"
  obtain res w' where r: "run_task (answer_task (demo_env demo_docs) (\<lambda>e. ''error'') ''key'' JString (demo_chance 100)
      demo_signin) demo_account = (Ok res, w')" "rs_status res = 200"
    using demo_login_answer by blast
  have run: "run_schedule (replicate 11 0) ([?t], demo_account) = ([Done (Ok (Some res))], w')"
    using request_alone [OF _ _ r(1), of 0 "[?t]"] by simp
  show ?thesis
    by (rule exI [of _ res], rule concurrent_login [OF run _ _ demo_signin_logs_in _ r(2)]) simp_all
qed

end
