(* ===== verification/Shutdown.thy ===== *)
theory Shutdown
  imports Server
begin

text \<open>
  The end of the program. \<open>signalHandler\<close> of \<open>src/server/main.cpp\<close> runs on the main thread wherever
  that thread is, and calls \<open>Server::stop\<close>, which joins the workers. What comes of it depends on what
  the main thread was doing: starting, starting workers, sleeping, sweeping the store of codes with its
  mutex held, or past the lifetime of the server that \<open>g_server\<close> points to.
\<close>

section \<open>State\<close>

text \<open>
  The main thread: before \<open>g_server\<close> is set; before \<open>run\<close>; in the loop that starts the workers, \<open>k\<close> of
  them started; at the test of the loop of sweeps; asleep; at the mutex of the store; in the sweep, with
  the mutex; after \<open>run\<close>; after the destructor of the server. \<open>Terminated\<close>: \<open>std::terminate\<close>; \<open>Broken\<close>:
  undefined behaviour.
\<close>

datatype main_pc = Starting | Ready | Spawning nat | Testing | Sleeping | Locking | Sweeping | Leaving
  | Destroyed | Terminated | Broken

text \<open>\<open>stop\<close> past its first line: before \<open>close()\<close>, before \<open>m_ioc.stop()\<close>, before the joins\<close>

datatype stop_pc = Closing | Stopping | Joining

text \<open>
  A worker: between two handlers, in a handler (\<open>True\<close>: it can still use the store of codes, which a
  request does at most once), at the mutex of the store, holding it, returned from \<open>m_ioc.run()\<close>
\<close>

datatype serving = Polling | Handling bool | Blocked | Holding | Ended

text \<open>\<open>sd_hit\<close> is not in the program: where the main thread was when the signal began to stop the server.\<close>

record shutdown =
  sd_main :: main_pc
  sd_handler :: "stop_pc option"
  sd_running :: bool
  sd_acceptor :: bool
  sd_stopped :: bool
  sd_threads :: "serving list"
  sd_hit :: "main_pc option"

definition main_begin :: shutdown where
  "main_begin = \<lparr>sd_main = Starting, sd_handler = None, sd_running = False, sd_acceptor = True,
     sd_stopped = False, sd_threads = [], sd_hit = None\<rparr>"

definition store_free :: "shutdown \<Rightarrow> bool" where
  "store_free s \<longleftrightarrow> sd_main s \<noteq> Sweeping \<and> Holding \<notin> set (sd_threads s)"

text \<open>
  The signal handler on the main thread. Before \<open>g_server\<close> is set it does nothing; \<open>stop\<close> returns at once
  when the server does not run; \<open>g_server\<close> is never reset.
\<close>

definition signalHandler :: "shutdown \<Rightarrow> shutdown" where
  "signalHandler s =
     (if sd_main s = Starting then s
      else if sd_main s = Destroyed then s\<lparr>sd_main := Broken\<rparr>
      else if \<not> sd_running s then s
      else s\<lparr>sd_handler := Some Closing, sd_hit := Some (sd_main s)\<rparr>)"

text \<open>
  The steps of a program with \<open>n\<close> workers. While the handler runs, the main thread does not go on. The
  destructor of the server calls \<open>stop\<close>, which returns at once as \<open>run\<close> has; a thread that is still
  joinable when it is destroyed ends the program.
\<close>

inductive mstep :: "nat \<Rightarrow> shutdown \<Rightarrow> shutdown \<Rightarrow> bool" for n where
  Construct: "sd_main s = Starting \<Longrightarrow> sd_handler s = None \<Longrightarrow> mstep n s (s\<lparr>sd_main := Ready\<rparr>)"
| Run: "sd_main s = Ready \<Longrightarrow> sd_handler s = None \<Longrightarrow>
    mstep n s (s\<lparr>sd_main := Spawning 0, sd_running := True\<rparr>)"
| Spawn: "sd_main s = Spawning k \<Longrightarrow> sd_handler s = None \<Longrightarrow> k < n \<Longrightarrow>
    mstep n s (s\<lparr>sd_main := Spawning (Suc k), sd_threads := sd_threads s @ [Polling]\<rparr>)"
| Spawned: "sd_main s = Spawning k \<Longrightarrow> sd_handler s = None \<Longrightarrow> \<not> k < n \<Longrightarrow> mstep n s (s\<lparr>sd_main := Testing\<rparr>)"
| Test: "sd_main s = Testing \<Longrightarrow> sd_handler s = None \<Longrightarrow>
    mstep n s (s\<lparr>sd_main := (if sd_running s then Sleeping else Leaving)\<rparr>)"
| Wake: "sd_main s = Sleeping \<Longrightarrow> sd_handler s = None \<Longrightarrow> mstep n s (s\<lparr>sd_main := Locking\<rparr>)"
| Lock: "sd_main s = Locking \<Longrightarrow> sd_handler s = None \<Longrightarrow> store_free s \<Longrightarrow> mstep n s (s\<lparr>sd_main := Sweeping\<rparr>)"
| Swept: "sd_main s = Sweeping \<Longrightarrow> sd_handler s = None \<Longrightarrow> mstep n s (s\<lparr>sd_main := Testing\<rparr>)"
| Destroy: "sd_main s = Leaving \<Longrightarrow> sd_handler s = None \<Longrightarrow>
    mstep n s (s\<lparr>sd_main := (if sd_threads s = [] then Destroyed else Terminated)\<rparr>)"
| Close: "sd_handler s = Some Closing \<Longrightarrow> mstep n s (s\<lparr>sd_handler := Some Stopping, sd_acceptor := False\<rparr>)"
| Stop: "sd_handler s = Some Stopping \<Longrightarrow> mstep n s (s\<lparr>sd_handler := Some Joining, sd_stopped := True\<rparr>)"
| Join: "sd_handler s = Some Joining \<Longrightarrow> set (sd_threads s) \<subseteq> {Ended} \<Longrightarrow>
    mstep n s (s\<lparr>sd_handler := None, sd_threads := [], sd_running := False\<rparr>)"
| Take: "sd_main s \<notin> {Terminated, Broken} \<Longrightarrow> k < length (sd_threads s) \<Longrightarrow> sd_threads s ! k = Polling \<Longrightarrow>
    \<not> sd_stopped s \<Longrightarrow> mstep n s (s\<lparr>sd_threads := (sd_threads s)[k := Handling True]\<rparr>)"
| Want: "sd_main s \<notin> {Terminated, Broken} \<Longrightarrow> k < length (sd_threads s) \<Longrightarrow> sd_threads s ! k = Handling True \<Longrightarrow>
    mstep n s (s\<lparr>sd_threads := (sd_threads s)[k := Blocked]\<rparr>)"
| Acquire: "sd_main s \<notin> {Terminated, Broken} \<Longrightarrow> k < length (sd_threads s) \<Longrightarrow> sd_threads s ! k = Blocked \<Longrightarrow>
    store_free s \<Longrightarrow> mstep n s (s\<lparr>sd_threads := (sd_threads s)[k := Holding]\<rparr>)"
| Release: "sd_main s \<notin> {Terminated, Broken} \<Longrightarrow> k < length (sd_threads s) \<Longrightarrow> sd_threads s ! k = Holding \<Longrightarrow>
    mstep n s (s\<lparr>sd_threads := (sd_threads s)[k := Handling False]\<rparr>)"
| Finish: "sd_main s \<notin> {Terminated, Broken} \<Longrightarrow> k < length (sd_threads s) \<Longrightarrow> sd_threads s ! k = Handling b \<Longrightarrow>
    mstep n s (s\<lparr>sd_threads := (sd_threads s)[k := Polling]\<rparr>)"
| Exit: "sd_main s \<notin> {Terminated, Broken} \<Longrightarrow> k < length (sd_threads s) \<Longrightarrow> sd_threads s ! k = Polling \<Longrightarrow>
    sd_stopped s \<Longrightarrow> mstep n s (s\<lparr>sd_threads := (sd_threads s)[k := Ended]\<rparr>)"

inductive_cases mstepE: "mstep n s s'"

text \<open>
  Signals come at any time; one that comes while its handler runs waits. All of them are handled by the
  main thread here, although nothing keeps the system from giving one to a worker.
\<close>

inductive reach :: "nat \<Rightarrow> shutdown \<Rightarrow> bool" for n where
  Begin: "reach n main_begin"
| Step: "reach n s \<Longrightarrow> mstep n s s' \<Longrightarrow> reach n s'"
| Signal: "reach n s \<Longrightarrow> sd_handler s = None \<Longrightarrow> reach n (signalHandler s)"

section \<open>What holds at every moment\<close>

fun serving_pc :: "main_pc \<Rightarrow> bool" where
  "serving_pc (Spawning k) = True"
| "serving_pc pc = (pc \<in> {Testing, Sleeping, Locking, Sweeping})"

text \<open>How many workers there are, by where the main thread is and where the signal found it\<close>

definition started :: "nat \<Rightarrow> main_pc \<Rightarrow> nat" where
  "started n pc = (case pc of Starting \<Rightarrow> 0 | Ready \<Rightarrow> 0 | Spawning k \<Rightarrow> k | _ \<Rightarrow> n)"

definition ended_early :: "nat \<Rightarrow> shutdown \<Rightarrow> nat" where
  "ended_early n s = (if sd_running s then 0 else case sd_hit s of None \<Rightarrow> 0 | Some pc \<Rightarrow> started n pc)"

definition good :: "nat \<Rightarrow> shutdown \<Rightarrow> bool" where
  "good n s \<longleftrightarrow>
     (sd_running s \<longrightarrow> serving_pc (sd_main s)) \<and>
     (sd_handler s \<noteq> None \<longrightarrow> sd_running s \<and> sd_hit s = Some (sd_main s)) \<and>
     (sd_stopped s \<longleftrightarrow> sd_handler s = Some Joining \<or> sd_hit s \<noteq> None \<and> sd_handler s = None) \<and>
     (sd_hit s = None \<longrightarrow> (serving_pc (sd_main s) \<longleftrightarrow> sd_running s) \<and>
        sd_main s \<notin> {Leaving, Destroyed, Terminated, Broken}) \<and>
     (sd_hit s \<noteq> None \<and> sd_handler s = None \<longrightarrow> \<not> sd_running s) \<and>
     (\<forall>pc. sd_hit s = Some pc \<longrightarrow> serving_pc pc \<and> started n pc \<le> started n (sd_main s)) \<and>
     (\<forall>k. sd_main s = Spawning k \<longrightarrow> k \<le> n) \<and>
     (sd_main s \<in> {Starting, Ready} \<longrightarrow> sd_hit s = None) \<and>
     length (sd_threads s) = started n (sd_main s) - ended_early n s \<and>
     (sd_main s \<in> {Destroyed, Broken} \<longrightarrow> sd_threads s = []) \<and> (sd_main s = Terminated \<longrightarrow> sd_threads s \<noteq> [])"

lemma good_begin: "good n main_begin"
  by (simp add: good_def main_begin_def started_def ended_early_def)

lemma good_step:
  assumes "good n s" and "mstep n s s'"
  shows "good n s'"
  using assms(2,1)
  by (cases rule: mstep.cases)
    (auto simp: good_def started_def ended_early_def split: main_pc.splits option.splits if_splits)

lemma good_signal: "good n s \<Longrightarrow> sd_handler s = None \<Longrightarrow> good n (signalHandler s)"
  by (auto simp: good_def signalHandler_def started_def ended_early_def split: main_pc.splits option.splits)

lemma reach_good: "reach n s \<Longrightarrow> good n s"
  by (induction rule: reach.induct) (auto intro: good_begin good_step good_signal)

section \<open>How far it is to the end\<close>

fun rank :: "serving \<Rightarrow> nat" where
  "rank Ended = 0"
| "rank Polling = 1"
| "rank (Handling False) = 2"
| "rank Holding = 3"
| "rank Blocked = 4"
| "rank (Handling True) = 5"

fun pc_rank :: "nat \<Rightarrow> main_pc \<Rightarrow> nat" where
  "pc_rank n (Spawning k) = 7 + 2 * (n - k)"
| "pc_rank n Sleeping = 6"
| "pc_rank n Locking = 5"
| "pc_rank n Sweeping = 4"
| "pc_rank n Testing = 3"
| "pc_rank n Leaving = 2"
| "pc_rank n pc = 0"

definition effort :: "nat \<Rightarrow> shutdown \<Rightarrow> nat" where
  "effort n s = sum_list (map rank (sd_threads s)) + pc_rank n (sd_main s) + (if sd_handler s = None then 0 else 1)"

lemma rank_le: "rank w \<le> 5"
  by (cases w rule: rank.cases) simp_all

lemma effort_le:
  assumes "good n s"
  shows "effort n s \<le> 7 * n + 8"
proof -
  have "sum_list (map rank ws) \<le> 5 * length ws" for ws
  proof (induction ws)
    case (Cons w ws)
    then show ?case using rank_le [of w] by simp
  qed simp
  then have "sum_list (map rank (sd_threads s)) \<le> 5 * length (sd_threads s)" .
  moreover have "5 * length (sd_threads s) + pc_rank n (sd_main s) \<le> 7 * n + 7"
    using assms by (cases "sd_main s") (auto simp: good_def started_def)
  ultimately show ?thesis by (simp add: effort_def)
qed

lemma sum_list_update_less:
  assumes "k < length xs" and "rank x < rank (xs ! k)"
  shows "sum_list (map rank (xs[k := x])) < sum_list (map rank xs)"
  using assms
proof (induction xs arbitrary: k)
  case (Cons y ys)
  then show ?case by (cases k) auto
qed simp

lemma effort_worker [simp]:
  "k < length (sd_threads s) \<Longrightarrow> rank w < rank (sd_threads s ! k) \<Longrightarrow>
   effort n (s\<lparr>sd_threads := (sd_threads s)[k := w]\<rparr>) < effort n s"
  by (simp add: effort_def sum_list_update_less)

lemma rank_Handling: "1 < rank (Handling b)"
  by (cases b) simp_all

lemma effort_less:
  assumes "good n s" and "sd_stopped s" and "mstep n s s'"
  shows "effort n s' < effort n s \<and> sd_stopped s' \<and> sd_hit s' = sd_hit s"
proof -
  have s: "sd_main s \<noteq> Starting" "sd_main s \<noteq> Ready"
    "sd_handler s = None \<and> \<not> sd_running s \<or> sd_handler s = Some Joining"
    using assms(1,2) by (auto simp: good_def)
  from assms(3) show ?thesis
  proof (cases rule: mstep.cases)
    case (Finish k b)
    then show ?thesis using assms(2) rank_Handling [of b] by simp
  qed (use s assms(2) in \<open>auto, simp_all add: effort_def\<close>)
qed

text \<open>
  Everybody who is not done waits: the main thread, in the handler it runs while it holds the mutex,
  for the workers; and these for the mutex.
\<close>

definition deadlocked :: "shutdown \<Rightarrow> bool" where
  "deadlocked s \<longleftrightarrow> sd_handler s = Some Joining \<and> sd_main s = Sweeping \<and>
     Blocked \<in> set (sd_threads s) \<and> set (sd_threads s) \<subseteq> {Blocked, Ended}"

definition stuck :: "nat \<Rightarrow> shutdown \<Rightarrow> bool" where
  "stuck n s \<longleftrightarrow> (\<forall>s'. \<not> mstep n s s')"

lemma deadlocked_stuck: "deadlocked s \<Longrightarrow> stuck n s"
  unfolding stuck_def
proof (intro allI notI)
  fix s' assume d: "deadlocked s" and step: "mstep n s s'"
  have w: "sd_threads s ! k = Blocked \<or> sd_threads s ! k = Ended" if "k < length (sd_threads s)" for k
    using d nth_mem [OF that] by (auto simp: deadlocked_def)
  from step show False
    by (cases rule: mstep.cases) (use d in \<open>auto simp: deadlocked_def store_free_def dest: w\<close>)
qed

lemma stuck_iff:
  assumes "good n s"
  shows "stuck n s \<longleftrightarrow> sd_main s \<in> {Destroyed, Terminated, Broken} \<or> deadlocked s"
proof
  assume stuck: "stuck n s"
  then have no: "\<not> mstep n s s'" for s' by (simp add: stuck_def)
  show "sd_main s \<in> {Destroyed, Terminated, Broken} \<or> deadlocked s"
  proof (rule disjCI)
    assume live: "\<not> deadlocked s"
    show "sd_main s \<in> {Destroyed, Terminated, Broken}"
    proof (rule ccontr)
      assume main: "sd_main s \<notin> {Destroyed, Terminated, Broken}"
      have w: "sd_threads s ! k \<in> {Blocked, Ended}" if "k < length (sd_threads s)" for k
        using no main that
        by (cases "sd_threads s ! k"; cases "sd_stopped s") (blast intro: mstep.intros)+
      have h: "Holding \<notin> set (sd_threads s)"
        using w by (fastforce simp: in_set_conv_nth)
      show False
      proof (cases "sd_handler s")
        case None
        then show False using no main h mstep.Spawn [of s _ n] mstep.Spawned [of s _ n] mstep.Lock [of s n]
          by (cases "sd_main s") (auto simp: store_free_def intro: mstep.intros)
      next
        case (Some p)
        show False
        proof (cases p)
          case Joining
          have all: "set (sd_threads s) \<subseteq> {Blocked, Ended}" using w by (fastforce simp: in_set_conv_nth)
          have b: "Blocked \<in> set (sd_threads s)"
            using all no Some Joining by (blast intro: mstep.Join)
          then obtain k where k: "k < length (sd_threads s)" "sd_threads s ! k = Blocked"
            by (auto simp: in_set_conv_nth)
          have "sd_main s = Sweeping"
            using no [of "s\<lparr>sd_threads := (sd_threads s)[k := Holding]\<rparr>"] k main h mstep.Acquire [of s k n]
            by (auto simp: store_free_def)
          then show False using live all b Some Joining by (simp add: deadlocked_def)
        qed (use no Some in \<open>blast intro: mstep.intros\<close>)+
      qed
    qed
  qed
next
  assume "sd_main s \<in> {Destroyed, Terminated, Broken} \<or> deadlocked s"
  then show "stuck n s"
  proof
    assume m: "sd_main s \<in> {Destroyed, Terminated, Broken}"
    then have "sd_handler s = None" "sd_main s = Destroyed \<longrightarrow> sd_threads s = []"
      using assms by (auto simp: good_def)
    then show "stuck n s"
      using m unfolding stuck_def by (auto elim!: mstepE)
  qed (rule deadlocked_stuck)
qed

section \<open>The runs after the signal\<close>

text \<open>Where the program must end, by where the signal found the main thread\<close>

definition outcomes :: "nat \<Rightarrow> main_pc option \<Rightarrow> main_pc set" where
  "outcomes n hit =
     (case hit of
        Some (Spawning k) \<Rightarrow> if k < n then {Terminated} else {Destroyed}
      | _ \<Rightarrow> {Destroyed})"

lemma run_bound:
  assumes "(mstep n ^^ m) s t" and "good n s" and "sd_stopped s"
  shows "good n t \<and> sd_stopped t \<and> sd_hit t = sd_hit s \<and> m + effort n t \<le> effort n s"
  using assms(1)
proof (induction m arbitrary: t)
  case (Suc m)
  then obtain u where u: "(mstep n ^^ m) s u" "mstep n u t" by auto
  from Suc.IH [OF u(1)] effort_less [of n u t] good_step [of n u t] u(2) show ?case by auto
qed (use assms(2,3) in simp)

lemma run_not_broken: "(mstep n ^^ m) s t \<Longrightarrow> sd_main s \<noteq> Broken \<Longrightarrow> sd_main t \<noteq> Broken"
proof (induction m arbitrary: t)
  case (Suc m)
  then obtain u where "(mstep n ^^ m) s u" "mstep n u t" by auto
  with Suc show ?case by (auto elim!: mstepE split: if_splits)
qed simp

lemma good_outcome:
  assumes "good n s" and "sd_stopped s" and "sd_main s \<in> {Destroyed, Terminated}"
  shows "sd_main s \<in> outcomes n (sd_hit s)"
proof -
  have "sd_handler s = None" "\<not> sd_running s" using assms(1,3) by (auto simp: good_def)
  then obtain pc where pc: "sd_hit s = Some pc" "serving_pc pc" "started n pc \<le> n"
    "length (sd_threads s) = n - started n pc"
    using assms by (fastforce simp: good_def ended_early_def started_def)
  then show ?thesis using assms(1,3)
    by (cases pc) (auto simp: outcomes_def started_def good_def)
qed

section \<open>Runs\<close>

text \<open>The server at sleep, with all its workers between two handlers\<close>

definition serving_state :: "nat \<Rightarrow> main_pc \<Rightarrow> shutdown" where
  "serving_state k pc = \<lparr>sd_main = pc, sd_handler = None, sd_running = True, sd_acceptor = True,
     sd_stopped = False, sd_threads = replicate k Polling, sd_hit = None\<rparr>"

lemma reach_spawning: "k \<le> n \<Longrightarrow> reach n (serving_state k (Spawning k))"
proof (induction k)
  case 0
  have "reach n (main_begin\<lparr>sd_main := Ready\<rparr>)"
    by (rule reach.Step [OF reach.Begin mstep.Construct]) (simp_all add: main_begin_def)
  from reach.Step [OF this mstep.Run] show ?case by (simp add: main_begin_def serving_state_def)
next
  case (Suc k)
  then have "reach n (serving_state k (Spawning k))" by simp
  from reach.Step [OF this mstep.Spawn [of _ k]] Suc.prems show ?case
    by (simp add: serving_state_def replicate_append_same)
qed

lemma reach_serving: "reach n (serving_state n Testing)" "reach n (serving_state n Sleeping)"
  "reach n (serving_state n Locking)"
proof -
  show t: "reach n (serving_state n Testing)"
    using reach.Step [OF reach_spawning [of n n] mstep.Spawned [of _ n]] by (simp add: serving_state_def)
  show l: "reach n (serving_state n Sleeping)"
    using reach.Step [OF t mstep.Test] by (simp add: serving_state_def)
  show "reach n (serving_state n Locking)"
    using reach.Step [OF l mstep.Wake] by (simp add: serving_state_def)
qed

text \<open>The signal, and the handler up to the joins\<close>

lemma reach_joining:
  assumes "reach n s" and "sd_handler s = None" and "sd_running s"
  shows "reach n (s\<lparr>sd_handler := Some Joining, sd_acceptor := False, sd_stopped := True, sd_hit := Some (sd_main s)\<rparr>)"
proof -
  have "sd_main s \<notin> {Starting, Destroyed}" using reach_good [OF assms(1)] assms(3) by (auto simp: good_def)
  then have "signalHandler s = s\<lparr>sd_handler := Some Closing, sd_hit := Some (sd_main s)\<rparr>"
    using assms(3) by (simp add: signalHandler_def)
  with reach.Signal [OF assms(1,2)] have 1: "reach n (s\<lparr>sd_handler := Some Closing, sd_hit := Some (sd_main s)\<rparr>)"
    by simp
  have 2: "reach n (s\<lparr>sd_hit := Some (sd_main s), sd_handler := Some Stopping, sd_acceptor := False\<rparr>)"
    using reach.Step [OF 1 mstep.Close] by simp
  show ?thesis using reach.Step [OF 2 mstep.Stop] by (cases s) simp
qed

lemma stopped_ends:
  assumes "good n s" and "sd_stopped s"
  shows "\<exists>m t. (mstep n ^^ m) s t \<and> stuck n t"
  using assms
proof (induction "effort n s" arbitrary: s rule: less_induct)
  case less
  show ?case
  proof (cases "stuck n s")
    case True
    then have "(mstep n ^^ 0) s s \<and> stuck n s" by simp
    then show ?thesis by blast
  next
    case False
    then obtain u where u: "mstep n s u" by (auto simp: stuck_def)
    from effort_less [OF less.prems u] less.hyps [of u] good_step [OF less.prems(1) u]
    obtain m t where "(mstep n ^^ m) u t" "stuck n t" by blast
    then have "(mstep n ^^ Suc m) s t" using u by (metis relpowp_Suc_I2)
    with \<open>stuck n t\<close> show ?thesis by blast
  qed
qed

section \<open>Signals at bad moments\<close>

text \<open>A worker at the mutex while the main thread sweeps, and the signal\<close>

lemma reach_sweep_waiting:
  assumes "0 < n"
  shows "reach n ((serving_state n Sweeping)\<lparr>sd_threads := (replicate n Polling)[0 := Blocked]\<rparr>)"
proof -
  have 1: "reach n ((serving_state n Locking)\<lparr>sd_threads := (replicate n Polling)[0 := Handling True]\<rparr>)"
    using reach.Step [OF reach_serving(3) mstep.Take [of _ 0]] assms by (simp add: serving_state_def)
  have 2: "reach n ((serving_state n Locking)\<lparr>sd_threads := (replicate n Polling)[0 := Blocked]\<rparr>)"
    using reach.Step [OF 1 mstep.Want [of _ 0]] assms by (simp add: serving_state_def)
  have "Holding \<notin> set ((replicate n Polling)[0 := Blocked])"
    using set_update_subset_insert [of "replicate n Polling" 0 Blocked] by auto
  then show ?thesis
    using reach.Step [OF 2 mstep.Lock] by (simp add: serving_state_def store_free_def)
qed

text \<open>The other workers leave the stopped loop.\<close>

lemma reach_exits:
  assumes "reach n s" and "sd_stopped s" and "sd_main s \<notin> {Terminated, Broken}" and "k \<le> length (sd_threads s)"
    and "\<And>j. j < k \<Longrightarrow> sd_threads s ! j \<in> {Blocked, Polling}"
  shows "\<exists>ws. reach n (s\<lparr>sd_threads := ws\<rparr>) \<and> length ws = length (sd_threads s) \<and>
    (\<forall>j < k. ws ! j = (if sd_threads s ! j = Blocked then Blocked else Ended)) \<and>
    (\<forall>j. k \<le> j \<longrightarrow> ws ! j = sd_threads s ! j)"
  using assms(4,5)
proof (induction k)
  case 0
  then show ?case using assms(1) by (intro exI [of _ "sd_threads s"]) simp
next
  case (Suc k)
  then obtain ws where ws: "reach n (s\<lparr>sd_threads := ws\<rparr>)" "length ws = length (sd_threads s)"
    "\<forall>j < k. ws ! j = (if sd_threads s ! j = Blocked then Blocked else Ended)"
    "\<forall>j. k \<le> j \<longrightarrow> ws ! j = sd_threads s ! j" by auto
  show ?case
  proof (cases "sd_threads s ! k = Blocked")
    case True
    with ws show ?thesis by (intro exI [of _ ws]) (auto simp: less_Suc_eq)
  next
    case False
    then have "ws ! k = Polling" using Suc.prems(2) [of k] ws(4) by auto
    then have "reach n (s\<lparr>sd_threads := ws[k := Ended]\<rparr>)"
      using reach.Step [OF ws(1) mstep.Exit [of _ k]] ws(2) Suc.prems(1) assms(2,3) by simp
    with ws False Suc.prems(1) show ?thesis
      by (intro exI [of _ "ws[k := Ended]"]) (auto simp: less_Suc_eq nth_list_update)
  qed
qed

lemma reach_deadlock:
  assumes "0 < n"
  shows "\<exists>s. reach n s \<and> deadlocked s"
proof -
  let ?s = "(serving_state n Sweeping)\<lparr>sd_threads := (replicate n Polling)[0 := Blocked]\<rparr>"
  let ?j = "?s\<lparr>sd_handler := Some Joining, sd_acceptor := False, sd_stopped := True, sd_hit := Some (sd_main ?s)\<rparr>"
  have r: "reach n ?j"
    using reach_joining [OF reach_sweep_waiting [OF assms]] by (simp add: serving_state_def)
  have "sd_threads ?j ! j \<in> {Blocked, Polling}" if "j < n" for j
    using that by (cases j) simp_all
  with reach_exits [OF r, of n] obtain ws where ws: "reach n (?j\<lparr>sd_threads := ws\<rparr>)" "length ws = n"
    "\<forall>j < n. ws ! j = (if sd_threads ?j ! j = Blocked then Blocked else Ended)"
    by (auto simp: serving_state_def)
  then have "ws ! 0 = Blocked" using assms by simp
  then have "Blocked \<in> set ws" using ws(2) assms by (metis nth_mem)
  moreover have "set ws \<subseteq> {Blocked, Ended}" using ws(2,3) by (auto simp: in_set_conv_nth)
  ultimately show ?thesis using ws(1) by (intro exI [of _ "?j\<lparr>sd_threads := ws\<rparr>"]) (simp add: deadlocked_def serving_state_def)
qed

text \<open>Where a signal found the program is where the runs after it end.\<close>

lemma reach_outcome:
  assumes "reach n s" and "sd_handler s = None" and "sd_running s" and "sd_main s \<noteq> Sweeping"
  shows "\<exists>t. reach n t \<and> sd_main t \<in> outcomes n (Some (sd_main s))"
proof -
  let ?s = "s\<lparr>sd_handler := Some Joining, sd_acceptor := False, sd_stopped := True, sd_hit := Some (sd_main s)\<rparr>"
  have r: "reach n ?s" by (rule reach_joining [OF assms(1-3)])
  obtain m t where t: "(mstep n ^^ m) ?s t" "stuck n t"
    using stopped_ends [OF reach_good [OF r]] by auto
  have rt: "reach n t" using t(1)
  proof (induction m arbitrary: t)
    case (Suc m)
    then show ?case by (auto intro: reach.Step)
  qed (use r in simp)
  have hit: "sd_hit t = Some (sd_main s)" "sd_stopped t" using run_bound [OF t(1) reach_good [OF r]] by simp_all
  have "sd_main ?s \<noteq> Broken" using reach_good [OF assms(1)] assms(3) by (auto simp: good_def)
  with run_not_broken [OF t(1)] have "sd_main t \<noteq> Broken" by blast
  moreover have "\<not> deadlocked t"
    using reach_good [OF rt] hit(1) assms(4) by (auto simp: good_def deadlocked_def)
  ultimately have "sd_main t \<in> {Destroyed, Terminated}"
    using t(2) stuck_iff [OF reach_good [OF rt]] by blast
  from good_outcome [OF reach_good [OF rt] hit(2) this] rt hit(1) show ?thesis by auto
qed

section \<open>Properties\<close>

text \<open>
  C16: once the signal handler has stopped the event loop, the program ends within \<open>7 * n + 8\<close> steps of
  its \<open>n\<close> workers and its main thread, whatever they were doing and in whatever order they act: the
  workers finish their handlers and are joined, \<open>run\<close> returns and the server is destroyed. The one
  exception is a signal that interrupts the sweep of expired codes: the handler may then wait for a
  worker that waits for the mutex which the interrupted sweep holds. And when the signal came while the
  workers were being started, the end is \<open>std::terminate\<close>.
\<close>

theorem shutdown_ends:
  assumes "reach n s" and "sd_stopped s" and "sd_main s \<noteq> Broken" and "(mstep n ^^ m) s t"
  shows "m \<le> 7 * n + 8 \<and>
    (stuck n t \<longleftrightarrow> sd_main t \<in> outcomes n (sd_hit s) \<or> deadlocked t \<and> sd_hit s = Some Sweeping)"
proof -
  have g: "good n s" using reach_good [OF assms(1)] .
  have t: "good n t" "sd_stopped t" "sd_hit t = sd_hit s" "m + effort n t \<le> effort n s"
    using run_bound [OF assms(4) g assms(2)] by simp_all
  have "sd_main t \<noteq> Broken" using run_not_broken [OF assms(4,3)] .
  moreover have "deadlocked t \<longrightarrow> sd_hit t = Some Sweeping" using t(1) by (auto simp: good_def deadlocked_def)
  moreover have "sd_main t \<in> {Destroyed, Terminated}" if "sd_main t \<in> outcomes n (sd_hit s)"
    using that by (auto simp: outcomes_def split: option.splits main_pc.splits if_splits)
  ultimately show ?thesis
    using stuck_iff [OF t(1)] good_outcome [OF t(1,2)] effort_le [OF g] t(3,4) by auto
qed

theorem shutdown_ends_witness:
  "\<exists>s m t. sd_main s = Sleeping \<and> sd_handler s = Some Joining \<and> (mstep 4 ^^ m) s t \<and> m \<le> 36 \<and>
     sd_main t = Destroyed"
proof -
  let ?s = "(serving_state 4 Sleeping)\<lparr>sd_handler := Some Joining, sd_acceptor := False, sd_stopped := True,
      sd_hit := Some Sleeping\<rparr>"
  have r: "reach 4 ?s"
    using reach_joining [OF reach_serving(2) [of 4]] by (simp add: serving_state_def)
  obtain m t where t: "(mstep 4 ^^ m) ?s t" "stuck 4 t"
    using stopped_ends [OF reach_good [OF r]] by auto
  from shutdown_ends [OF r _ _ t(1)] t(2) have "m \<le> 36" "sd_main t = Destroyed"
    by (simp_all add: serving_state_def outcomes_def)
  with t(1) show ?thesis by (intro exI [of _ ?s] exI [of _ m] exI [of _ t]) (simp add: serving_state_def)
qed

text \<open>
  C17: a signal that the main thread handles can go wrong, with any number of workers: in the sweep it can
  end in a deadlock, in which neither the main thread nor any worker has a step left; while the
  workers are started it ends in \<open>std::terminate\<close>, as those started afterwards are never joined; and
  after the server was destroyed it is undefined behaviour, \<open>g_server\<close> being as it was. These are the only
  bad ends of such a signal: whenever neither the main thread nor a worker has a step left, the server
  was destroyed in order, or it is one of the three. A signal before \<open>g_server\<close> is set is lost. (That a
  worker handles a signal, and joins itself, is outside of this model.)
\<close>

theorem signal_hazards:
  assumes "0 < n"
  shows "(\<exists>s. reach n s \<and> deadlocked s \<and> stuck n s) \<and>
    (\<exists>s. reach n s \<and> sd_main s = Terminated) \<and>
    (\<exists>s. reach n s \<and> sd_main s = Destroyed \<and> sd_main (signalHandler s) = Broken) \<and>
    (\<forall>s. reach n s \<and> stuck n s \<longrightarrow> sd_main s = Destroyed \<and> sd_threads s = [] \<or> deadlocked s \<or>
       sd_main s = Terminated \<or> sd_main s = Broken) \<and>
    signalHandler main_begin = main_begin"
proof -
  obtain s where "reach n s" "sd_main s = Terminated"
    using reach_outcome [OF reach_spawning [of 0 n]] assms by (auto simp: serving_state_def outcomes_def)
  moreover obtain t where "reach n t" "sd_main t = Destroyed"
    using reach_outcome [OF reach_serving(2) [of n]] by (auto simp: serving_state_def outcomes_def)
  moreover have "sd_main s = Destroyed \<and> sd_threads s = [] \<or> deadlocked s \<or> sd_main s = Terminated \<or> sd_main s = Broken"
    if "reach n s \<and> stuck n s" for s
    using that reach_good [of n s] stuck_iff [of n s] by (auto simp: good_def)
  ultimately show ?thesis
    using reach_deadlock [OF assms] deadlocked_stuck by (auto simp: signalHandler_def main_begin_def)
qed

theorem signal_hazards_witness: "\<exists>s. reach 4 s \<and> deadlocked s"
  using signal_hazards [of 4] by auto

end
