(* ===== verification/Credentials.thy ===== *)
theory Credentials
  imports Sweeps
begin

text \<open>
  Where the hashes of the passwords come from. Requests of all kinds run at the same time; the hash of
  a user is written by \<open>handleRegister\<close> and \<open>handleChangePassword\<close> of \<open>src/handlers/UserHandler.cpp\<close> alone, in
  a statement long after they checked a code. The ghost of a thread is the store of codes as it last
  saw it, and every new pair of a user and a hash is put to the account of the thread that wrote it.
\<close>

section \<open>Facts and who accounts for them\<close>

text \<open>
  An action keeps \<open>I\<close>, and each fact that is new after it has a reason in what its thread had seen.
\<close>

definition owes :: "('s \<Rightarrow> bool) \<Rightarrow> ('s \<Rightarrow> 'f set) \<Rightarrow> ('v \<Rightarrow> 'f \<Rightarrow> bool) \<Rightarrow> 'v option \<Rightarrow> 's \<Rightarrow> 's \<Rightarrow> bool" where
  "owes I facts A g s s' \<longleftrightarrow> (I s \<longrightarrow>
     I s' \<and> (\<forall>x \<in> facts s'. x \<in> facts s \<or> (\<exists>v. g = Some v \<and> A v x)))"

lemma owes_same [simp]: "I s' = I s \<Longrightarrow> facts s' = facts s \<Longrightarrow> owes I facts A g s s'"
  by (simp add: owes_def)

definition accounts :: "('s \<Rightarrow> 'v) \<Rightarrow> ('s \<Rightarrow> bool) \<Rightarrow> ('s \<Rightarrow> 'f set) \<Rightarrow> ('v \<Rightarrow> 'f \<Rightarrow> bool) \<Rightarrow>
    'v option \<Rightarrow> 'v option \<Rightarrow> 's \<Rightarrow> 's \<Rightarrow> bool" where
  "accounts view I facts A g g' s s' \<longleftrightarrow> remembers view g g' s s' \<and> owes I facts A g s s'"

lemma at_moment_ghost:
  assumes "run_schedule is (ts, s) = (ts', s')" and "i < length ts"
    and "ghost (accounts view I facts A) R None (ts ! i)"
  obtains g where "ghost (accounts view I facts A) R g (ts' ! i)"
    "\<And>v. g = Some v \<Longrightarrow> at_moment is (ts, s) i (\<lambda>u. v = view u)"
proof -
  have "\<exists>g. ghost (accounts view I facts A) R g (ts' ! i) \<and> (\<forall>v. g = Some v \<longrightarrow>
      (\<exists>js ks us u. is = js @ i # ks \<and> run_schedule js (ts, s) = (us, u) \<and> v = view u))"
    by (rule schedule_moment [OF assms]) (simp add: accounts_def)
  then show thesis using that by (auto simp: at_moment_def)
qed

lemma schedule_accounts:
  assumes "run_schedule is (ts, s) = (ts', s')" and "I s"
    and "\<And>i. i < length ts \<Longrightarrow> ghost (accounts view I facts (A i)) (R i) None (ts ! i)"
  shows "I s' \<and> (\<forall>x \<in> facts s'. x \<in> facts s \<or>
    (\<exists>i < length ts. at_moment is (ts, s) i (\<lambda>u. A i (view u) x)))"
  using assms(1)
proof (induction "is" arbitrary: ts' s' rule: rev_induct)
  case Nil
  then show ?case using assms(2) by simp
next
  case (snoc k "is")
  obtain us u where run: "run_schedule is (ts, s) = (us, u)" by fastforce
  have last: "act k (us, u) = (ts', s')" using snoc.prems run by (simp add: run_schedule_append del: act.simps)
  have Iu: "I u" using snoc.IH [OF run] by blast
  have old: "x \<in> facts s \<or> (\<exists>i < length ts. at_moment (is @ [k]) (ts, s) i (\<lambda>u. A i (view u) x))"
    if "x \<in> facts u" for x
    using snoc.IH [OF run] that at_moment_snoc by blast
  show ?case
  proof (cases rule: act_cases [of k us u])
    case idle
    then show ?thesis using last Iu old by simp
  next
    case (acted f t v)
    have k: "k < length ts" using acted(1) length_run_schedule [of "is" "(ts, s)"] run by simp
    obtain g where g: "ghost (accounts view I facts (A k)) (R k) g (us ! k)"
      "\<And>v. g = Some v \<Longrightarrow> at_moment is (ts, s) k (\<lambda>u. v = view u)"
      using at_moment_ghost [OF run k assms(3) [OF k]] by blast
    then obtain g' where "accounts view I facts (A k) g g' u v"
      using acted by (metis fst_conv ghost_Atom snd_conv)
    then have v: "I v" "\<And>x. x \<in> facts v \<Longrightarrow> x \<in> facts u \<or> (\<exists>y. g = Some y \<and> A k y x)"
      using Iu by (auto simp: accounts_def owes_def)
    have new: "at_moment (is @ [k]) (ts, s) k (\<lambda>u. A k (view u) x)" if "g = Some y" "A k y x" for x y
      by (rule at_moment_snoc [OF at_moment_mono [OF g(2) [OF that(1)]]]) (use that(2) in simp)
    have "s' = v" using last acted(4) by simp
    with v(1) v(2) [THEN disjE] old new k show ?thesis by blast
  qed
qed

section \<open>The hashes in \<open>users\<close>\<close>

definition hashes :: "db \<Rightarrow> (int \<times> string) set" where
  "hashes d = (\<lambda>r. (ur_id r, ur_passwd_hash r)) ` set (users d)"

text \<open>The users \<open>K\<close> stay, and the next identifier is a new one.\<close>

definition keeps_ids :: "int set \<Rightarrow> db \<Rightarrow> bool" where
  "keeps_ids K d \<longleftrightarrow> (let ids = set (map ur_id (users d)) in K \<subseteq> ids \<and> (\<forall>i \<in> ids. i < ai_users d))"

type_synonym codes = "(string \<times> verify_info) list"

type_synonym reason = "codes \<Rightarrow> int \<times> string \<Rightarrow> bool"

text \<open>What a statement adds to the hashes\<close>

definition adds_hashes :: "int set \<Rightarrow> (int \<times> string \<Rightarrow> bool) \<Rightarrow> 'x stmt \<Rightarrow> bool" where
  "adds_hashes K B st \<longleftrightarrow> (\<forall>k d. keeps_ids K d \<longrightarrow> keeps_ids K (snd (st k d)) \<and>
     (\<forall>x \<in> hashes (snd (st k d)). x \<in> hashes d \<or> B x))"

lemma selects_add [simp]:
  "adds_hashes K B (select_users_by_id srv i)" "adds_hashes K B (select_users_by_username srv n)"
  "adds_hashes K B (select_last_insert_id cid)"
  by (simp_all add: adds_hashes_def select_users_by_id_def select_users_by_username_def select_last_insert_id_def)

lemma update_users_adds:
  assumes "\<And>r. ur_id (f r) = ur_id r" and "\<And>r. ur_id r = i \<Longrightarrow> ur_passwd_hash (f r) = ur_passwd_hash r \<or> B (i, ur_passwd_hash (f r))"
  shows "adds_hashes K B (update_users srv ok f i)"
proof -
  have ids: "map ur_id (update_rows (\<lambda>r. ur_id r = i) f (\<lambda>r. r\<lparr>ur_update_at := t\<rparr>) rows) = map ur_id rows" for t rows
    using assms(1) by (simp add: update_rows_def)
  have "x \<in> hashes d \<or> B x"
    if "x \<in> hashes (d\<lparr>users := update_rows (\<lambda>r. ur_id r = i) f (\<lambda>r. r\<lparr>ur_update_at := t\<rparr>) (users d)\<rparr>)" for t d x
    using assms that by (fastforce simp: hashes_def update_rows_def split: if_splits)
  moreover have "keeps_ids K (d\<lparr>users := rows\<rparr>) = keeps_ids K d" if "map ur_id rows = map ur_id (users d)" for rows d
    using that by (simp add: keeps_ids_def Let_def del: set_map)
  ultimately show ?thesis
    using ids unfolding adds_hashes_def update_users_def Let_def by auto
qed

lemma updates_add:
  "adds_hashes K B (update_qq_id srv q i)" "adds_hashes K B (update_netease_id srv q i)"
  "B (i, h) \<Longrightarrow> adds_hashes K B (update_passwd_hash srv h i)"
  unfolding update_qq_id_def update_netease_id_def update_passwd_hash_def by (intro update_users_adds; simp)+

lemma insert_adds:
  assumes "\<And>i. i \<notin> K \<Longrightarrow> B (i, h)"
  shows "adds_hashes K B (insert_user srv cid n h m)"
  unfolding adds_hashes_def
proof (intro allI impI)
  fix k d assume d: "keeps_ids K d"
  then have new: "ai_users d \<notin> K" unfolding keeps_ids_def Let_def by (metis less_irrefl subsetD)
  let ?d = "snd (insert_user srv cid n h m k d)"
  have "users ?d = users d \<and> ai_users d \<le> ai_users ?d \<or>
      (\<exists>row. users ?d = users d @ [row] \<and> ur_id row = ai_users d \<and> ur_passwd_hash row = h \<and>
         ai_users ?d = ai_users d + 1)"
    by (simp add: insert_user_def burn_def)
  then show "keeps_ids K ?d \<and> (\<forall>x \<in> hashes ?d. x \<in> hashes d \<or> B x)"
  proof (elim disjE exE)
    assume "users ?d = users d \<and> ai_users d \<le> ai_users ?d"
    then show ?thesis using d by (fastforce simp: keeps_ids_def hashes_def Let_def)
  next
    fix row assume "users ?d = users d @ [row] \<and> ur_id row = ai_users d \<and> ur_passwd_hash row = h \<and>
        ai_users ?d = ai_users d + 1"
    then show ?thesis using d assms [OF new] by (fastforce simp: keeps_ids_def hashes_def Let_def)
  qed
qed

section \<open>The operations that the handlers use\<close>

abbreviation accountable :: "int set \<Rightarrow> reason \<Rightarrow> codes option \<Rightarrow> codes option \<Rightarrow> dao_state \<Rightarrow> dao_state \<Rightarrow> bool" where
  "accountable K A g g' s s' \<equiv> g' = g \<and> owes (on_db (keeps_ids K)) (\<lambda>s. hashes (ds_db s)) A g s s'"

lemma accountable_of_tables: "of_tables (accountable K A)"
  by (simp add: of_tables_def)

lemma jdbc_accounts:
  assumes "adds_hashes K (\<lambda>x. \<exists>v. g = Some v \<and> A v x) st"
  shows "accountable K A g g s (snd (jdbc srv c st s))"
proof -
  obtain r s' where call: "jdbc srv c st s = (r, s')" by fastforce
  then show ?thesis
    by (cases rule: jdbc_cases) (use assms call in \<open>auto simp: adds_hashes_def owes_def, (metis snd_conv)+\<close>)
qed

lemma accounts_stmt:
  assumes "adds_hashes K (\<lambda>x. \<exists>v. g = Some v \<and> A v x) st"
    and "\<And>x. ghost (accountable K A) R g (k x)" and "R g (Raised SqlException)"
  shows "ghost (accountable K A) R g (stmt srv c st k)"
proof (rule ghost_stmt)
  fix s x s' assume "jdbc srv c st s = (Ok x, s')"
  then show "\<exists>g'. accountable K A g g' s s' \<and> ghost (accountable K A) R g' (k x)"
    using jdbc_accounts [OF assms(1), of s srv c] assms(2) by simp
next
  fix s s' assume "jdbc srv c st s = (Raised SqlException, s')"
  then show "accountable K A g g s s' \<and> R g (Raised SqlException)"
    using jdbc_accounts [OF assms(1), of s srv c] assms(3) by simp
qed

abbreviation still_seen :: "codes option \<Rightarrow> codes option \<Rightarrow> 'a outcome \<Rightarrow> bool" where
  "still_seen g \<equiv> (\<lambda>g' _. g' = g)"

lemma user_tasks_account:
  "ghost (accountable K A) (still_seen g) g (userById_task srv i)"
  "ghost (accountable K A) (still_seen g) g (userByName_task srv n)"
  "ghost (accountable K A) (still_seen g) g (updateQQId_task srv i q)"
  "ghost (accountable K A) (still_seen g) g (updateNetEaseId_task srv i q)"
  unfolding user_task_defs
  by (intro ghost_dao_task [OF accountable_of_tables] accounts_stmt updates_add selects_add; simp)+

lemma updatePassword_accounts:
  assumes "A v (i, hashPassword evp p)"
  shows "ghost (accountable K A) (still_seen (Some v)) (Some v) (updatePassword_task srv evp i p)"
  unfolding user_task_defs
  by (intro ghost_dao_task [OF accountable_of_tables] accounts_stmt updates_add) (use assms in simp_all)

lemma createUser_accounts:
  assumes "\<And>i. i \<notin> K \<Longrightarrow> A v (i, hashPassword evp (us_passwd_hash u))"
  shows "ghost (accountable K A) (still_seen (Some v)) (Some v) (createUser_task srv evp u)"
  unfolding createUser_task_def create_body_def create_tail_def
  by (intro ghost_dao_task [OF accountable_of_tables] accounts_stmt insert_adds selects_add)
    (use assms in simp_all)

section \<open>The handlers\<close>

abbreviation codes_of :: "world \<Rightarrow> codes" where
  "codes_of w \<equiv> vs_codes (w_verify w)"

abbreviation keeps_users_of :: "int set \<Rightarrow> world \<Rightarrow> bool" where
  "keeps_users_of K w \<equiv> keeps_ids K (ds_db (w_dao w))"

abbreviation world_hashes :: "world \<Rightarrow> (int \<times> string) set" where
  "world_hashes w \<equiv> hashes (ds_db (w_dao w))"

abbreviation liable :: "int set \<Rightarrow> reason \<Rightarrow> codes option \<Rightarrow> codes option \<Rightarrow> world \<Rightarrow> world \<Rightarrow> bool" where
  "liable K A \<equiv> accounts codes_of (keeps_users_of K) world_hashes A"

lemma liable_dao: "ghost (accountable K A) R g t \<Longrightarrow> ghost (liable K A) R g (dao_in t)"
  by (erule ghost_dao_in) (simp add: accounts_def remembers_def owes_def)

lemma liable_once:
  assumes "\<And>w. ds_db (w_dao (snd (m w))) = ds_db (w_dao w)"
  shows "ghost (liable K A) (\<lambda>_ _. True) g (once m)"
  by (rule ghost_once) (use assms in \<open>simp_all add: accounts_def remembers_def\<close>)

lemma any_liable [any_intros]:
  "ghost (liable K A) (\<lambda>_ _. True) g (dao_in (userById_task srv i))"
  "ghost (liable K A) (\<lambda>_ _. True) g (dao_in (userByName_task srv n))"
  "ghost (liable K A) (\<lambda>_ _. True) g (dao_in (updateQQId_task srv i q))"
  "ghost (liable K A) (\<lambda>_ _. True) g (dao_in (updateNetEaseId_task srv i q))"
  by (rule ghost_mono [OF liable_dao [OF user_tasks_account(1)]] ghost_mono [OF liable_dao [OF user_tasks_account(2)]]
      ghost_mono [OF liable_dao [OF user_tasks_account(3)]] ghost_mono [OF liable_dao [OF user_tasks_account(4)]]; simp)+

lemma any_liable_once [any_intros]:
  "ghost (liable K A) (\<lambda>_ _. True) g (once (mail_code env email verify_code))"
  "ghost (liable K A) (\<lambda>_ _. True) g (once (store_code email info))"
  "ghost (liable K A) (\<lambda>_ _. True) g (once (gets f))"
  "ghost (liable K A) (\<lambda>_ _. True) g (once (write_avatar env p d))"
  "ghost (liable K A) (\<lambda>_ _. True) g (once (modify (\<lambda>w. w\<lparr>w_files := (w_files w)\<lparr>af_dir := True\<rparr>\<rparr>)))"
  by (rule liable_once; simp add: mail_code_def store_code_def write_avatar_def and_then_def
      gets_def modify_def ret_def case_prod_beta)+

lemma quiet_handlers:
  "ghost (liable K A) (\<lambda>_ _. True) g (getVerifyCode_task env ch req)"
  "ghost (liable K A) (\<lambda>_ _. True) g (login_task env ju ch req)"
  "ghost (liable K A) (\<lambda>_ _. True) g (getProfile_task env ju ch req)"
  "ghost (liable K A) (\<lambda>_ _. True) g (updateAvatar_task env ju ch req)"
  "ghost (liable K A) (\<lambda>_ _. True) g (getAvatar_task env ju ch req)"
  "ghost (liable K A) (\<lambda>_ _. True) g (bindPlatform_task env ju ch req)"
  unfolding handler_task_defs send_task_def avatar_dir_task_def Let_def by (intro any_intros)+

text \<open>The pointer of \<open>verifyCode\<close> is to an entry of the store as it was at the lookup.\<close>

abbreviation found_in :: "string \<Rightarrow> nat \<times> verify_info \<Rightarrow> codes option \<Rightarrow> bool" where
  "found_in email p g \<equiv> \<exists>cs. g = Some cs \<and> map_of cs email = Some (snd p)"

lemma liable_find:
  "ghost (liable K A) (\<lambda>g r. \<forall>p. r = Ok (Some p) \<longrightarrow> found_in email p g) g (once (find_code email))"
  unfolding once_def
proof (rule ghost.Atom)
  fix w :: world
  show "\<exists>g'. liable K A g g' w (snd (map_prod Done (\<lambda>t. t) (find_code email w))) \<and>
    ghost (liable K A) (\<lambda>g r. \<forall>p. r = Ok (Some p) \<longrightarrow> found_in email p g) g'
      (fst (map_prod Done (\<lambda>t. t) (find_code email w)))"
    by (rule exI [of _ "Some (codes_of w)"])
      (simp add: find_code_def gets_def accounts_def remembers_def split: option.splits)
qed

lemma liable_read:
  assumes "found_in email p g"
  shows "ghost (liable K A) (\<lambda>g r. found_in email p g \<and> (\<forall>x. r = Ok x \<longrightarrow> x = get (snd p))) g
    (once (read_member email p get))"
  by (rule ghost_once) (use assms in \<open>auto simp: read_member_def accounts_def remembers_def\<close>)

lemma liable_check:
  "ghost (liable K A) (\<lambda>g r. r = Ok True \<longrightarrow> (\<exists>cs. g = Some cs \<and> verifyCode cs email action code now)) g
     (check_task now email action code)"
  unfolding check_task_def
proof (rule ghost_bind [OF liable_find])
  let ?R = "\<lambda>g r. r = Ok True \<longrightarrow> (\<exists>cs. g = Some cs \<and> verifyCode cs email action code now)"
  fix g x assume "\<forall>p. Ok x = Ok (Some p) \<longrightarrow> found_in email p g"
  then show "ghost (liable K A) ?R g
      (case x of None \<Rightarrow> value_task False
       | Some pInfo \<Rightarrow>
           bind_task (once (read_member email pInfo vi_expire)) (\<lambda>expire_time.
           if expire_time < now then value_task False
           else
             bind_task (once (read_member email pInfo vi_action)) (\<lambda>its_action.
             if its_action \<noteq> action then value_task False
             else bind_task (once (read_member email pInfo vi_code)) (\<lambda>c. value_task (c = code)))))"
  proof (cases x)
    case (Some p)
    with \<open>\<forall>p. Ok x = Ok (Some p) \<longrightarrow> found_in email p g\<close> have p: "found_in email p g" by simp
    show ?thesis
      unfolding Some option.case
    proof (rule ghost_bind [OF liable_read [OF p]], rule ghost_when)
      fix g t assume 1: "found_in email p g \<and> (\<forall>x. Ok t = Ok x \<longrightarrow> x = vi_expire (snd p))" "\<not> t < now"
      then have p1: "found_in email p g" by simp
      show "ghost (liable K A) ?R g (bind_task (once (read_member email p vi_action)) (\<lambda>its_action.
          if its_action \<noteq> action then value_task False
          else bind_task (once (read_member email p vi_code)) (\<lambda>c. value_task (c = code))))"
      proof (rule ghost_bind [OF liable_read [OF p1]], rule ghost_when)
        fix g a assume 2: "found_in email p g \<and> (\<forall>x. Ok a = Ok x \<longrightarrow> x = vi_action (snd p))" "\<not> a \<noteq> action"
        then have p2: "found_in email p g" by simp
        show "ghost (liable K A) ?R g (bind_task (once (read_member email p vi_code)) (\<lambda>c. value_task (c = code)))"
          by (rule ghost_bind [OF liable_read [OF p2]]) (use 1 2 in \<open>auto simp: verifyCode_def\<close>)
      qed simp_all
    qed simp_all
  qed simp
qed simp_all

text \<open>
  The two reasons for a hash: a change of the password by the user whom the token names, with a code
  for some address, and a registration with a code for its address.
\<close>

definition asks_reset :: "env \<Rightarrow> jwt_util \<Rightarrow> chance \<Rightarrow> http_request \<Rightarrow> string \<Rightarrow> string \<Rightarrow> int \<Rightarrow> string \<Rightarrow> bool" where
  "asks_reset env ju ch req e c i h \<longleftrightarrow> rq_method req = Post \<and> rq_target req = ''/users/password'' \<and>
     token_of env ju ch req \<noteq> [] \<and>
     (\<exists>t j p. getClaim (ev_jwt env) (token_of env ju ch req) ''id'' = Ok t \<and> atoi t = Some i \<and>
        jl_parse (ev_json env) (rq_body req) = Some j \<and> get_string j ''new_password'' = Ok p \<and>
        get_string j ''email'' = Ok e \<and> get_string j ''verify_code'' = Ok c \<and> h = hashPassword (ev_evp env) p)"

definition resets :: "env \<Rightarrow> jwt_util \<Rightarrow> chance \<Rightarrow> http_request \<Rightarrow> codes \<Rightarrow> int \<Rightarrow> string \<Rightarrow> bool" where
  "resets env ju ch req cs i h \<longleftrightarrow>
     (\<exists>e c. asks_reset env ju ch req e c i h \<and> verifyCode cs e ''reset_password'' c (ch_clock ch 2))"

definition enrols :: "env \<Rightarrow> chance \<Rightarrow> http_request \<Rightarrow> codes \<Rightarrow> string \<Rightarrow> bool" where
  "enrols env ch req cs h \<longleftrightarrow> rq_method req = Post \<and> rq_target req = ''/users/register'' \<and>
     (\<exists>j p e c. jl_parse (ev_json env) (rq_body req) = Some j \<and> get_string j ''password'' = Ok p \<and>
        get_string j ''email'' = Ok e \<and> get_string j ''verify_code'' = Ok c \<and>
        verifyCode cs e ''register'' c (ch_clock ch 0) \<and> h = hashPassword (ev_evp env) p)"

definition reason :: "env \<Rightarrow> jwt_util \<Rightarrow> int set \<Rightarrow> chance \<Rightarrow> http_request \<Rightarrow> reason" where
  "reason env ju K ch req cs = (\<lambda>(i, h). resets env ju ch req cs i h \<or> i \<notin> K \<and> enrols env ch req cs h)"

lemma liable_id:
  assumes "\<And>t i. getClaim (ev_jwt env) token ''id'' = Ok t \<Longrightarrow> atoi t = Some i \<Longrightarrow> ghost step (\<lambda>_ _. True) g (k i)"
  shows "ghost step (\<lambda>_ _. True) g (bind_task (id_task env token) k)"
  using assms by (auto simp: id_task_def split: outcome.splits option.splits)

lemma liable_bind:
  assumes "ghost step R g t" and "\<And>g x. R g (Ok x) \<Longrightarrow> ghost step (\<lambda>_ _. True) g (k x)"
  shows "ghost step (\<lambda>_ _. True) g (bind_task t k)"
  by (rule ghost_bind [OF assms(1)]) (use assms(2) in simp_all)

lemmas liable_rules = any_catch_both ghost_body ghost_when any_replies liable_id any_text
  liable_bind [OF liable_check]

lemma changePassword_liable:
  assumes "rq_method req = Post" and "rq_target req = ''/users/password''"
  shows "ghost (liable K (reason env ju K ch req)) (\<lambda>_ _. True) None (changePassword_task env ju ch req)"
proof -
  let ?A = "reason env ju K ch req"
  let ?stored = "\<lambda>i p. bind_task (dao_in (updatePassword_task (ev_server env) (ev_evp env) i p)) (\<lambda>updated.
      if \<not> updated
      then error_task env req status_internal_server_error ''Failed to update password''
      else json_task env req (message_json ''Password changed successfully''))"
  have "ghost (liable K ?A) (\<lambda>_ _. True) (Some cs) (?stored i p)"
    if "?A cs (i, hashPassword (ev_evp env) p)" for cs i p
    by (rule liable_bind [OF liable_dao [OF updatePassword_accounts]]) (use that in \<open>simp_all add: any_intros\<close>)
  then show ?thesis
    unfolding changePassword_task_def Let_def
    by (intro liable_rules) (auto simp: reason_def resets_def asks_reset_def assms)
qed

lemma register_liable:
  assumes "rq_method req = Post" and "rq_target req = ''/users/register''"
  shows "ghost (liable K (reason env ju K ch req)) (\<lambda>_ _. True) None (register_task env ch req)"
proof -
  let ?A = "reason env ju K ch req"
  let ?stored = "\<lambda>n p e. bind_task (dao_in (createUser_task (ev_server env) (ev_evp env)
      (new_user\<lparr>us_username := n, us_passwd_hash := p, us_email := e\<rparr>))) (\<lambda>(created, user).
      if \<not> created
      then error_task env req status_internal_server_error ''Failed to create user''
      else json_task env req
             (JObj [(''code'', JInt 200), (''message'', JString ''User registered successfully''),
                    (''user_id'', JInt (us_id user))]))"
  have stored: "ghost (liable K ?A) (\<lambda>_ _. True) (Some cs) (?stored n p e)"
    if "\<And>i. i \<notin> K \<Longrightarrow> ?A cs (i, hashPassword (ev_evp env) p)" for cs n p e
    by (rule liable_bind [OF liable_dao [OF createUser_accounts]])
      (use that in \<open>simp_all add: any_intros split: prod.split\<close>)
  have "ghost (liable K ?A) (\<lambda>_ _. True) (Some cs)
      (bind_task (dao_in (userByName_task (ev_server env) n)) (\<lambda>found.
        if found \<noteq> None then error_task env req status_conflict ''Username already exists'' else ?stored n p e))"
    if "\<And>i. i \<notin> K \<Longrightarrow> ?A cs (i, hashPassword (ev_evp env) p)" for cs n p e
    by (rule liable_bind [OF liable_dao [OF user_tasks_account(2)]]) (simp_all add: any_replies stored [OF that])
  then show ?thesis
    unfolding register_task_def
    by (intro liable_rules) (auto simp: reason_def enrols_def assms)
qed

lemma found_liable:
  assumes "find_task env ju wrap (rq_method req) (rq_target req) = Some h"
  shows "ghost (liable K (reason env ju K ch req)) (\<lambda>_ _. True) None (h ch req)"
proof -
  from find_task_member [OF assms] show ?thesis
    by (auto simp: route_tasks_def intro: quiet_handlers any_replies changePassword_liable register_liable)
qed

lemma answer_liable:
  "ghost (liable K (reason env (new_jwt_util secret) K ch req)) (\<lambda>_ _. True) None
     (answer_task env what secret wrap ch req)"
  by (rule ghost_answer [OF _ found_liable]) simp

section \<open>Under any schedule\<close>

text \<open>Who accounts for what in the program: the requests, by \<open>A\<close>; the main thread does not.\<close>

definition by_request :: "nat \<Rightarrow> (nat \<Rightarrow> 'v \<Rightarrow> 'f \<Rightarrow> bool) \<Rightarrow> nat \<Rightarrow> 'v \<Rightarrow> 'f \<Rightarrow> bool" where
  "by_request n A k v x \<longleftrightarrow> k < n \<and> A k v x"

lemma program_accounts:
  assumes "run_schedule is (program_tasks env what secret wrap reqs sweeps, w) = (ts', w')" and "I w"
    and req: "\<And>k. k < length reqs \<Longrightarrow> ghost (accounts view I facts (A k)) (\<lambda>_ _. True) None
        (answer_task env what secret wrap (fst (reqs ! k)) (snd (reqs ! k)))"
    and "\<And>A. ghost (accounts view I facts A) (\<lambda>_ _. True) None (sweeper sweeps :: (world, http_response option) task)"
  shows "I w' \<and> (\<forall>x \<in> facts w'. x \<in> facts w \<or> (\<exists>k < length reqs.
    at_moment is (program_tasks env what secret wrap reqs sweeps, w) k (\<lambda>u. A k (view u) x)))"
proof -
  have "ghost (accounts view I facts (by_request (length reqs) A k)) (\<lambda>_ _. True) None
      (program_tasks env what secret wrap reqs sweeps ! k)" if "k < Suc (length reqs)" for k
  proof (cases "k = length reqs")
    case False
    then have k: "k < length reqs" using that by simp
    then have "by_request (length reqs) A k = A k" by (simp add: by_request_def fun_eq_iff)
    with req [OF k] show ?thesis
      using k ghost_mono [OF ghost_request, of "accounts view I facts (A k)" "\<lambda>_ _. True"] by (simp add: nth_program_tasks)
  qed (simp add: nth_program_tasks assms(4))
  then have "I w' \<and> (\<forall>x \<in> facts w'. x \<in> facts w \<or> (\<exists>k < Suc (length reqs).
      at_moment is (program_tasks env what secret wrap reqs sweeps, w) k (\<lambda>u. by_request (length reqs) A k (view u) x)))"
    using schedule_accounts [where I = I and facts = facts and view = view and R = "\<lambda>_ _ _. True" and
        A = "by_request (length reqs) A", OF assms(1,2)] by simp
  then show ?thesis by (fastforce simp: by_request_def at_moment_logic)
qed

lemma sweeper_liable: "ghost (liable K A) (\<lambda>_ _. True) g (sweeper sweeps)"
  by (induction sweeps) (auto simp: ghost_Atom sweep_codes_codes accounts_def remembers_def)

lemma schedule_hashes:
  assumes "run_schedule is (program_tasks env what secret wrap reqs sweeps, w) = (ts', w')"
    and "users_ok (ev_server env) (ds_db (w_dao w))" and "r \<in> set (users (ds_db (w_dao w')))"
  shows "(\<exists>q \<in> set (users (ds_db (w_dao w))). ur_id q = ur_id r \<and> ur_passwd_hash q = ur_passwd_hash r) \<or>
    (\<exists>k < length reqs. at_moment is (program_tasks env what secret wrap reqs sweeps, w) k
       (\<lambda>u. resets env (new_jwt_util secret) (fst (reqs ! k)) (snd (reqs ! k)) (vs_codes (w_verify u))
          (ur_id r) (ur_passwd_hash r))) \<or>
    ur_id r \<notin> ur_id ` set (users (ds_db (w_dao w))) \<and>
    (\<exists>k < length reqs. at_moment is (program_tasks env what secret wrap reqs sweeps, w) k
       (\<lambda>u. enrols env (fst (reqs ! k)) (snd (reqs ! k)) (vs_codes (w_verify u)) (ur_passwd_hash r)))"
proof -
  let ?ts = "program_tasks env what secret wrap reqs sweeps"
  let ?K = "ur_id ` set (users (ds_db (w_dao w)))" and ?x = "(ur_id r, ur_passwd_hash r)"
  let ?A = "\<lambda>k. reason env (new_jwt_util secret) ?K (fst (reqs ! k)) (snd (reqs ! k))"
  have keep: "keeps_users_of ?K w"
    using assms(2) by (auto simp: keeps_ids_def users_ok_def ids_ok_def Let_def)
  have "?x \<in> world_hashes w'" using assms(3) by (auto simp: hashes_def)
  then consider "?x \<in> world_hashes w"
    | k where "k < length reqs" "at_moment is (?ts, w) k (\<lambda>u. ?A k (codes_of u) ?x)"
    using program_accounts [where A = ?A and view = codes_of and I = "keeps_users_of ?K" and facts = world_hashes,
        OF assms(1) keep answer_liable sweeper_liable] by blast
  then show ?thesis
  proof cases
    case 1
    then show ?thesis by (auto simp: hashes_def)
  next
    case 2
    then show ?thesis by (auto simp: reason_def at_moment_logic)
  qed
qed

section \<open>Properties\<close>

text \<open>
  C10: any requests at the same time and sweeps beside them, under any schedule, on any server, whatever fails: the hash that a
  user has in the end is the one that it had at the start; or the hash of the new password in a
  request whose token names this user, and at a moment when that request acted there was an unexpired
  code for \<open>reset_password\<close> with its address; or, for a user who was not there at the start, the hash of
  the password in a registration, with a code for \<open>register\<close> in the same way. No race of the handlers
  gives a user another hash.
\<close>

theorem hashes_accounted:
  assumes "run_schedule is (program_tasks env what secret wrap reqs sweeps, w) = (ts', w')"
    and "users_ok (ev_server env) (ds_db (w_dao w))" and "r \<in> set (users (ds_db (w_dao w')))"
  shows "(\<exists>q \<in> set (users (ds_db (w_dao w))). ur_id q = ur_id r \<and> ur_passwd_hash q = ur_passwd_hash r) \<or>
    (\<exists>k < length reqs. at_moment is (program_tasks env what secret wrap reqs sweeps, w) k
       (\<lambda>u. resets env (new_jwt_util secret) (fst (reqs ! k)) (snd (reqs ! k)) (vs_codes (w_verify u))
          (ur_id r) (ur_passwd_hash r))) \<or>
    ur_id r \<notin> ur_id ` set (users (ds_db (w_dao w))) \<and>
    (\<exists>k < length reqs. at_moment is (program_tasks env what secret wrap reqs sweeps, w) k
       (\<lambda>u. enrols env (fst (reqs ! k)) (snd (reqs ! k)) (vs_codes (w_verify u)) (ur_passwd_hash r)))"
  by (rule schedule_hashes [OF assms])

definition demo_reset :: http_request where
  "demo_reset = (demo_request ''token'' ''change'')\<lparr>rq_method := Post, rq_target := ''/users/password''\<rparr>"

lemma demo_reset_answer:
  "\<exists>res w'. run_task (answer_task (demo_env demo_docs) what ''key'' wrap (demo_chance 200) demo_reset) demo_account =
     (Ok res, w') \<and> (\<exists>r. r \<in> set (users (ds_db (w_dao w'))))"
proof -
  let ?req = "demo_request ''token'' ''change''" and ?env = "demo_env demo_docs"
  have "reply_error env demo_reset st m = reply_error env ?req st m" "reply_json env demo_reset j = reply_json env ?req j"
    "body_json env demo_reset = body_json env ?req" "token_of env ju ch demo_reset = token_of env ju ch ?req" for env ju ch st m j
    by (simp_all add: reply_error_def reply_json_def body_json_def token_of_def demo_reset_def)
  then have "handleChangePassword env ju ch demo_reset = handleChangePassword env ju ch ?req" for env ju ch
    by (simp only: handleChangePassword_def with_catch_def)
  then obtain res w' where r: "handleChangePassword ?env (new_jwt_util ''key'') (demo_chance 200) ?req demo_account = (Ok res, w')"
    "rs_status res = 200" "run_task (changePassword_task ?env (new_jwt_util ''key'') (demo_chance 200) demo_reset) demo_account =
      (Ok res, w')"
    using demo_change run_handler_tasks(7) by metis
  have "find_task ?env (new_jwt_util ''key'') wrap (rq_method demo_reset) (rq_target demo_reset) =
      Some (changePassword_task ?env (new_jwt_util ''key''))"
    by (simp add: find_task_def route_tasks_def demo_reset_def)
  then have "run_task (answer_task ?env what ''key'' wrap (demo_chance 200) demo_reset) demo_account = (Ok res, w')"
    using r(3) by (simp add: answer_task_def run_catch_task catch_exn_def del: run_task.simps)
  moreover have "\<exists>r. r \<in> set (users (ds_db (w_dao w')))"
  proof -
    have g: "dao_good (ev_server ?env) (w_dao demo_account)" using demo_account_good by simp
    have "user_by_id demo_server (ds_db (w_dao demo_account)) 1 \<noteq> None"
      by (simp add: user_by_id_def demo_account_def demo_ann_def)
    from g r(1,2) this have "user_by_id demo_server (ds_db (w_dao w')) 1 \<noteq> None"
    proof (cases rule: change_password_good)
      case (1 j i p e c)
      with \<open>user_by_id demo_server (ds_db (w_dao demo_account)) 1 \<noteq> None\<close> show ?thesis
        by (metis demo_env_simps(3) 1(9) map_option_is_None)
    qed
    then show ?thesis by (cases "users (ds_db (w_dao w'))") (auto simp: user_by_id_def)
  qed
  ultimately show ?thesis by blast
qed

theorem hashes_accounted_witness:
  "\<exists>ts' w' r. run_schedule (replicate 11 0)
       (program_tasks (demo_env demo_docs) (\<lambda>e. ''error'') ''key'' JString [(demo_chance 200, demo_reset)]
          [seconds 300], demo_account) = (ts', w') \<and> r \<in> set (users (ds_db (w_dao w'))) \<and>
    ((\<exists>q \<in> set (users (ds_db (w_dao demo_account))). ur_id q = ur_id r \<and> ur_passwd_hash q = ur_passwd_hash r) \<or>
     (\<exists>u :: world. resets (demo_env demo_docs) (new_jwt_util ''key'') (demo_chance 200) demo_reset (vs_codes (w_verify u))
        (ur_id r) (ur_passwd_hash r)) \<or> ur_id r \<noteq> 1)"
proof -
  let ?t = "answer_task (demo_env demo_docs) (\<lambda>e. ''error'') ''key'' JString (demo_chance 200) demo_reset"
  obtain res w' r where w': "run_task ?t demo_account = (Ok res, w')" "r \<in> set (users (ds_db (w_dao w')))"
    using demo_reset_answer by blast
  have run: "run_schedule (replicate 11 0) (program_tasks (demo_env demo_docs) (\<lambda>e. ''error'') ''key'' JString
      [(demo_chance 200, demo_reset)] [seconds 300], demo_account) = ([Done (Ok (Some res)), sweeper [seconds 300]], w')"
    using request_alone [OF _ _ w'(1), of 0] by (simp add: program_tasks_def del: sweeper_Cons)
  have ok: "users_ok (ev_server (demo_env demo_docs)) (ds_db (w_dao demo_account))"
    using demo_account_good by (simp add: dao_good_def schema_ok_def)
  have "1 \<in> ur_id ` set (users (ds_db (w_dao demo_account)))"
    by (simp add: demo_account_def demo_ann_def)
  with hashes_accounted [OF run ok w'(2)]
  have "(\<exists>q \<in> set (users (ds_db (w_dao demo_account))). ur_id q = ur_id r \<and> ur_passwd_hash q = ur_passwd_hash r) \<or>
     (\<exists>u :: world. resets (demo_env demo_docs) (new_jwt_util ''key'') (demo_chance 200) demo_reset (vs_codes (w_verify u))
        (ur_id r) (ur_passwd_hash r)) \<or> ur_id r \<noteq> 1"
    by (auto simp: at_moment_def)
  with run w'(2) show ?thesis by blast
qed

end
