(* ===== verification/Mailings.thy ===== *)
theory Mailings
  imports Credentials
begin

text \<open>
  Where the verification codes come from, and with them the changes of passwords. The store of codes is
  written by \<open>handleGetVerifyCode\<close> alone, after the mail went out. The ghost of a thread is the state of
  the mail system as it last saw it, and every new entry of the store is put to the account of the
  thread that mailed its code.
\<close>

section \<open>The entries of the store\<close>

abbreviation entries :: "world \<Rightarrow> (string \<times> verify_info) set" where
  "entries w \<equiv> set (codes_of w)"

text \<open>
  The reason for an entry: a request for a code, with a valid address and one of the two actions, whose
  mail, with that code, was accepted in the state \<open>ms\<close> of the mail system.
\<close>

definition mails_code :: "env \<Rightarrow> chance \<Rightarrow> http_request \<Rightarrow> mail_state \<Rightarrow> string \<Rightarrow> verify_info \<Rightarrow> bool" where
  "mails_code env ch req ms e info \<longleftrightarrow> rq_method req = Post \<and> rq_target req = ''/users/verify_code'' \<and>
     (\<exists>j. jl_parse (ev_json env) (rq_body req) = Some j \<and> get_string j ''email'' = Ok e \<and>
        get_string j ''action'' = Ok (vi_action info)) \<and>
     isValidEmail e \<and> vi_action info \<in> {''register'', ''reset_password''} \<and>
     vi_code info = generateVerificationCode (ch_draws ch) 6 \<and>
     vi_expire info = ch_clock ch 0 + seconds (vc_code_expiry (ev_verify env)) \<and>
     fst (sendTextEmail (ev_curl env) (ev_verify env) e ''Verification Code'' (code_message (vi_code info)) ms)"

abbreviation answerable :: "(mail_state \<Rightarrow> string \<times> verify_info \<Rightarrow> bool) \<Rightarrow>
    mail_state option \<Rightarrow> mail_state option \<Rightarrow> world \<Rightarrow> world \<Rightarrow> bool" where
  "answerable A \<equiv> accounts (\<lambda>w. vs_mail (w_verify w)) (\<lambda>_. True) entries A"

section \<open>The handlers\<close>

text \<open>The data access objects do not touch the store.\<close>

lemma answerable_dao [any_intros]: "ghost (answerable A) (\<lambda>_ _. True) g (dao_in t)"
  by (rule ghost_dao_in [OF ghost_any]) (simp add: accounts_def remembers_def)

lemma answerable_once:
  assumes "\<And>w. codes_of (snd (m w)) = codes_of w"
  shows "ghost (answerable A) (\<lambda>_ _. True) g (once m)"
  by (rule ghost_once) (use assms in \<open>simp_all add: accounts_def remembers_def\<close>)

lemma any_answerable_once [any_intros]:
  "ghost (answerable A) (\<lambda>_ _. True) g (check_task now email action code)"
  "ghost (answerable A) (\<lambda>_ _. True) g (once (gets f))"
  "ghost (answerable A) (\<lambda>_ _. True) g (once (write_avatar env p d))"
  "ghost (answerable A) (\<lambda>_ _. True) g (once (modify (\<lambda>w. w\<lparr>w_files := (w_files w)\<lparr>af_dir := True\<rparr>\<rparr>)))"
  by (rule answerable_once ghost_check; simp add: accounts_def remembers_def write_avatar_def and_then_def
      gets_def modify_def ret_def)+

lemma handlers_without_mail:
  "ghost (answerable A) (\<lambda>_ _. True) g (register_task env ch req)"
  "ghost (answerable A) (\<lambda>_ _. True) g (login_task env ju ch req)"
  "ghost (answerable A) (\<lambda>_ _. True) g (getProfile_task env ju ch req)"
  "ghost (answerable A) (\<lambda>_ _. True) g (updateAvatar_task env ju ch req)"
  "ghost (answerable A) (\<lambda>_ _. True) g (getAvatar_task env ju ch req)"
  "ghost (answerable A) (\<lambda>_ _. True) g (changePassword_task env ju ch req)"
  "ghost (answerable A) (\<lambda>_ _. True) g (bindPlatform_task env ju ch req)"
  unfolding handler_task_defs avatar_dir_task_def Let_def by (intro any_intros)+

lemma mail_answers:
  "ghost (answerable A) (\<lambda>g r. \<exists>ms. g = Some ms \<and> r = Ok (fst (sendTextEmail (ev_curl env) (ev_verify env) e
     ''Verification Code'' (code_message c) ms))) g (once (mail_code env e c))"
  unfolding once_def
proof (rule ghost.Atom)
  fix w :: world
  show "\<exists>g'. answerable A g g' w (snd (map_prod Done (\<lambda>t. t) (mail_code env e c w))) \<and>
    ghost (answerable A) (\<lambda>g r. \<exists>ms. g = Some ms \<and> r = Ok (fst (sendTextEmail (ev_curl env) (ev_verify env) e
      ''Verification Code'' (code_message c) ms))) g' (fst (map_prod Done (\<lambda>t. t) (mail_code env e c w)))"
    by (rule exI [of _ "Some (vs_mail (w_verify w))"])
      (simp add: mail_code_def accounts_def remembers_def case_prod_beta)
qed

lemma set_update_subset: "set (AList.update k v xs) \<subseteq> insert (k, v) (set xs)"
  by (induction xs) auto

lemma store_answers:
  assumes "A ms (e, info)"
  shows "ghost (answerable A) (\<lambda>_ _. True) (Some ms) (once (store_code e info))"
proof (rule ghost_once)
  fix w
  have "entries (snd (store_code e info w)) \<subseteq> insert (e, info) (entries w)"
    using set_update_subset by (simp add: store_code_def modify_def)
  then show "answerable A (Some ms) (Some ms) w (snd (store_code e info w))"
    using assms by (auto simp: accounts_def remembers_def owes_def)
qed simp

lemma send_answers:
  assumes "\<And>info ms. vi_action info = a \<Longrightarrow> vi_code info = generateVerificationCode (ch_draws ch) 6 \<Longrightarrow>
      vi_expire info = ch_clock ch 0 + seconds (vc_code_expiry (ev_verify env)) \<Longrightarrow>
      fst (sendTextEmail (ev_curl env) (ev_verify env) e ''Verification Code'' (code_message (vi_code info)) ms) \<Longrightarrow>
      A ms (e, info)"
  shows "ghost (answerable A) (\<lambda>_ _. True) g (send_task env ch e a)"
  unfolding send_task_def Let_def
  by (intro liable_bind [OF mail_answers] ghost_when any_Done)
    (auto intro!: any_bind store_answers any_Done assms)

lemma verify_code_answers:
  assumes "rq_method req = Post" and "rq_target req = ''/users/verify_code''"
  shows "ghost (answerable (\<lambda>ms (e, info). mails_code env ch req ms e info)) (\<lambda>_ _. True) g (getVerifyCode_task env ch req)"
  unfolding getVerifyCode_task_def
  by (intro any_catch_both ghost_body ghost_when any_replies any_text any_bind send_answers)
    (use assms in \<open>auto simp: mails_code_def\<close>)

lemma answer_answerable:
  "ghost (answerable (\<lambda>ms (e, info). mails_code env ch req ms e info)) (\<lambda>_ _. True) None
     (answer_task env what secret wrap ch req)"
proof (rule ghost_answer)
  fix h assume "find_task env (new_jwt_util secret) wrap (rq_method req) (rq_target req) = Some h"
  from find_task_member [OF this]
  show "ghost (answerable (\<lambda>ms (e, info). mails_code env ch req ms e info)) (\<lambda>_ _. True) None (h ch req)"
    by (auto simp: route_tasks_def intro: handlers_without_mail any_replies verify_code_answers)
qed simp

lemma sweeper_answerable: "ghost (answerable A) (\<lambda>_ _. True) g (sweeper sweeps)"
  by (induction sweeps)
    (auto simp: ghost_Atom sweep_codes_codes accounts_def remembers_def owes_def cleanupExpiredCodes_def cleanup_loop_eq)

lemma schedule_entries:
  assumes "run_schedule is (program_tasks env what secret wrap reqs sweeps, w) = (ts', w')"
    and "(e, info) \<in> entries w'"
  shows "(e, info) \<in> entries w \<or>
    (\<exists>k < length reqs. at_moment is (program_tasks env what secret wrap reqs sweeps, w) k
       (\<lambda>u. mails_code env (fst (reqs ! k)) (snd (reqs ! k)) (vs_mail (w_verify u)) e info))"
proof -
  let ?A = "\<lambda>k ms (e, info). mails_code env (fst (reqs ! k)) (snd (reqs ! k)) ms e info"
  have "\<forall>x \<in> entries w'. x \<in> entries w \<or> (\<exists>k < length reqs.
      at_moment is (program_tasks env what secret wrap reqs sweeps, w) k
        (\<lambda>u. ?A k (vs_mail (w_verify u)) x))"
    using program_accounts [where A = ?A and facts = entries and I = "\<lambda>_. True" and
        view = "\<lambda>w. vs_mail (w_verify w)", OF assms(1) TrueI answer_answerable sweeper_answerable] by blast
  with assms(2) show ?thesis by fastforce
qed

section \<open>Properties\<close>

text \<open>
  C12: any requests at the same time and sweeps beside them, under any schedule: an entry that is in the store of codes in the
  end was there at the start, or a request for a code made it, with the code, the action and the expiry
  of that request, after the mail with this very code to this address was accepted.
\<close>

theorem codes_accounted:
  assumes "run_schedule is (program_tasks env what secret wrap reqs sweeps, w) = (ts', w')"
    and "(e, info) \<in> set (vs_codes (w_verify w'))"
  shows "(e, info) \<in> set (vs_codes (w_verify w)) \<or>
    (\<exists>k < length reqs. at_moment is (program_tasks env what secret wrap reqs sweeps, w) k
       (\<lambda>u. mails_code env (fst (reqs ! k)) (snd (reqs ! k)) (vs_mail (w_verify u)) e info))"
  using schedule_entries [OF assms] .

text \<open>A request for a code and a change of the password with it\<close>

definition demo_codeless :: world where
  "demo_codeless = demo_account\<lparr>w_verify := demo_state\<rparr>"

definition demo_info :: verify_info where
  "demo_info = \<lparr>vi_code = ''444444'', vi_expire = seconds 100, vi_action = ''reset_password''\<rparr>"

lemma demo_code: "generateVerificationCode (\<lambda>_. 4) 6 = ''444444''"
  by code_simp

lemma answer_found:
  assumes "find_task env (new_jwt_util secret) wrap (rq_method req) (rq_target req) = Some h"
    and "run_task (h ch req) w = (Ok res, w')"
  shows "run_task (answer_task env what secret wrap ch req) w = (Ok res, w')"
  using assms by (simp add: answer_task_def run_catch_task catch_exn_def del: run_task.simps)

lemma demo_asked:
  "\<exists>res w'. run_task (answer_task (demo_env demo_reset_docs) what ''key'' wrap (demo_chance 100) demo_ask) demo_codeless =
     (Ok res, w') \<and> vs_codes (w_verify w') = [(''a@b.cc'', demo_info)] \<and> w_dao w' = w_dao demo_codeless"
proof -
  let ?env = "demo_env demo_reset_docs"
  have find: "find_task ?env (new_jwt_util ''key'') wrap (rq_method demo_ask) (rq_target demo_ask) =
      Some (getVerifyCode_task ?env)"
    by (simp add: find_task_def route_tasks_def demo_ask_def)
  have "\<exists>res w'. handleGetVerifyCode ?env (demo_chance 100) demo_ask demo_codeless = (Ok res, w') \<and>
      vs_codes (w_verify w') = [(''a@b.cc'', demo_info)] \<and> w_dao w' = w_dao demo_codeless"
    by (simp add: handleGetVerifyCode_def eval_request demo_reset_docs_def demo_ask_def demo_codeless_def send_code_def sendVerifyCode_def sendTextEmail_def demo_curl_def demo_email demo_code demo_info_def demo_state_def default_config_def Let_def message_json_def)
  then show ?thesis using answer_found [OF find] run_handler_tasks(1) by metis
qed

theorem codes_accounted_witness:
  "\<exists>ts' w' u. run_schedule (replicate 11 0)
       (program_tasks (demo_env demo_reset_docs) (\<lambda>e. ''error'') ''key'' JString [(demo_chance 100, demo_ask)]
          [seconds 300], demo_codeless) = (ts', w') \<and> w_dao w' = w_dao demo_codeless \<and>
     mails_code (demo_env demo_reset_docs) (demo_chance 100) demo_ask (vs_mail (w_verify (u :: world))) ''a@b.cc'' demo_info"
proof -
  let ?t = "answer_task (demo_env demo_reset_docs) (\<lambda>e. ''error'') ''key'' JString (demo_chance 100) demo_ask"
  obtain res w' where w': "run_task ?t demo_codeless = (Ok res, w')" "vs_codes (w_verify w') = [(''a@b.cc'', demo_info)]"
    "w_dao w' = w_dao demo_codeless"
    using demo_asked by blast
  have run: "run_schedule (replicate 11 0) (program_tasks (demo_env demo_reset_docs) (\<lambda>e. ''error'') ''key'' JString
      [(demo_chance 100, demo_ask)] [seconds 300], demo_codeless) = ([Done (Ok (Some res)), sweeper [seconds 300]], w')"
    using request_alone [OF _ _ w'(1), of 0] by (simp add: program_tasks_def del: sweeper_Cons)
  have "(''a@b.cc'', demo_info) \<in> set (vs_codes (w_verify w'))" using w'(2) by simp
  from codes_accounted [OF run this] have "\<exists>u :: world. mails_code (demo_env demo_reset_docs) (demo_chance 100) demo_ask
      (vs_mail (w_verify u)) ''a@b.cc'' demo_info"
    by (auto simp: at_moment_def demo_codeless_def demo_state_def)
  with run w'(3) show ?thesis by blast
qed

text \<open>
  C11: whoever has another password after any requests and sweeps at the same time has it by a request whose token
  names this user and whose code was mailed in this run, before that request read it: when the store
  of codes was empty at the start, another request had sent that code, for \<open>reset_password\<close>, to the
  address in the body, the mail was accepted, and the code had not expired. (The address need not be
  that of the user.)
\<close>

theorem resets_were_mailed:
  assumes "run_schedule is (program_tasks env what secret wrap reqs sweeps, w) = (ts', w')"
    and "users_ok (ev_server env) (ds_db (w_dao w))" and "vs_codes (w_verify w) = []"
    and "q \<in> set (users (ds_db (w_dao w)))" and "r \<in> set (users (ds_db (w_dao w')))"
    and "ur_id q = ur_id r" and "ur_passwd_hash q \<noteq> ur_passwd_hash r"
  shows "\<exists>k js ks e c. k < length reqs \<and> is = js @ k # ks \<and>
    asks_reset env (new_jwt_util secret) (fst (reqs ! k)) (snd (reqs ! k)) e c (ur_id r) (ur_passwd_hash r) \<and>
    (\<exists>l < length reqs. at_moment js (program_tasks env what secret wrap reqs sweeps, w) l
       (\<lambda>u. \<exists>info. mails_code env (fst (reqs ! l)) (snd (reqs ! l)) (vs_mail (w_verify u)) e info \<and>
          vi_action info = ''reset_password'' \<and> vi_code info = c \<and> ch_clock (fst (reqs ! k)) 2 \<le> vi_expire info))"
proof -
  let ?ts = "program_tasks env what secret wrap reqs sweeps"
  have "inj_on ur_id (set (users (ds_db (w_dao w))))"
    using assms(2) by (simp add: users_ok_def ids_ok_def distinct_map)
  then have "\<not> (\<exists>q \<in> set (users (ds_db (w_dao w))). ur_id q = ur_id r \<and> ur_passwd_hash q = ur_passwd_hash r)"
    using assms(4,6,7) by (metis inj_onD)
  moreover have "ur_id r \<in> ur_id ` set (users (ds_db (w_dao w)))" using assms(4) by (simp add: assms(6) [symmetric])
  ultimately obtain k where k: "k < length reqs" "at_moment is (?ts, w) k (\<lambda>u. resets env (new_jwt_util secret)
      (fst (reqs ! k)) (snd (reqs ! k)) (codes_of u) (ur_id r) (ur_passwd_hash r))"
    using schedule_hashes [OF assms(1,2,5)] by blast
  then obtain js ks us u e c where m: "is = js @ k # ks" "run_schedule js (?ts, w) = (us, u)"
    "asks_reset env (new_jwt_util secret) (fst (reqs ! k)) (snd (reqs ! k)) e c (ur_id r) (ur_passwd_hash r)"
    "verifyCode (codes_of u) e ''reset_password'' c (ch_clock (fst (reqs ! k)) 2)"
    by (auto simp: at_moment_def resets_def)
  then obtain info where i: "(e, info) \<in> entries u" "vi_action info = ''reset_password''" "vi_code info = c"
    "ch_clock (fst (reqs ! k)) 2 \<le> vi_expire info"
    by (auto simp: verifyCode_def not_less split: option.splits dest: map_of_SomeD)
  obtain l where "l < length reqs" "at_moment js (?ts, w) l
      (\<lambda>u. mails_code env (fst (reqs ! l)) (snd (reqs ! l)) (vs_mail (w_verify u)) e info)"
    using schedule_entries [OF m(2) i(1)] assms(3) by auto
  then have "\<exists>l < length reqs. at_moment js (?ts, w) l
       (\<lambda>u. \<exists>info. mails_code env (fst (reqs ! l)) (snd (reqs ! l)) (vs_mail (w_verify u)) e info \<and>
          vi_action info = ''reset_password'' \<and> vi_code info = c \<and> ch_clock (fst (reqs ! k)) 2 \<le> vi_expire info)"
    using i(2-4) at_moment_mono [where Q = "\<lambda>u. \<exists>info. mails_code env (fst (reqs ! l)) (snd (reqs ! l)) (vs_mail (w_verify u)) e info \<and>
          vi_action info = ''reset_password'' \<and> vi_code info = c \<and> ch_clock (fst (reqs ! k)) 2 \<le> vi_expire info"] by blast
  with k(1) m(1,3) show ?thesis by blast
qed

text \<open>A code is mailed, and then the password is changed with it.\<close>

lemma demo_changed:
  assumes "vs_codes (w_verify w) = [(''a@b.cc'', demo_info)]" and "w_dao w = w_dao demo_codeless"
  shows "\<exists>res w' r. run_task (answer_task (demo_env demo_reset_docs) what ''key'' wrap (demo_chance 100) demo_reset) w =
     (Ok res, w') \<and> r \<in> set (users (ds_db (w_dao w'))) \<and> ur_id r = 1 \<and> ur_passwd_hash r = hashPassword demo_evp ''better''"
proof -
  let ?env = "demo_env demo_reset_docs"
  have find: "find_task ?env (new_jwt_util ''key'') wrap (rq_method demo_reset) (rq_target demo_reset) =
      Some (changePassword_task ?env (new_jwt_util ''key''))"
    by (simp add: find_task_def route_tasks_def demo_reset_def)
  have tok: "token_of ?env (new_jwt_util ''key'') (demo_chance 100) demo_reset = ''token''"
    using demo_token [of "''token''" "seconds 100"]
    by (simp add: token_of_def demo_chance_def demo_reset_def demo_request_def seconds_def)
  have "dao_good demo_server (w_dao w)" using assms(2) demo_account_good by (simp add: demo_codeless_def)
  then obtain s' where s': "updatePassword demo_server demo_evp 1 ''better'' (w_dao w) = (Ok True, s')"
    "users (ds_db s') = update_rows (\<lambda>r. ur_id r = 1) (\<lambda>r. r\<lparr>ur_passwd_hash := hashPassword demo_evp ''better''\<rparr>)
      (\<lambda>r. r\<lparr>ur_update_at := my_now demo_server (Suc (ds_tick (w_dao w)))\<rparr>) (users (ds_db (w_dao w)))"
    using updatePassword_good [of demo_server "w_dao w" demo_evp "''better''" 1] by auto
  have "rq_body demo_reset = ''change''" by (simp add: demo_reset_def demo_request_def)
  moreover have "jl_parse (ev_json ?env) ''change'' =
      Some (JObj [(''new_password'', JString ''better''), (''verify_code'', JString ''444444''),
        (''email'', JString ''a@b.cc'')])"
    by (simp add: demo_reset_docs_def demo_docs_def)
  ultimately have "\<exists>res. handleChangePassword ?env (new_jwt_util ''key'') (demo_chance 100) demo_reset w = (Ok res, w\<lparr>w_dao := s'\<rparr>)"
    by (simp add: handleChangePassword_def Let_def tok with_catch_def catch_exn_def and_then_def body_json_def
        parse_json_def member_text_def get_string_def lift_outcome_def demo_claimed_id check_code_def gets_def
        verifyCode_def demo_info_def seconds_def on_dao_def zoom_def reply_json_def dump_json_def ret_def assms(1) s'(1))
  then obtain res where "run_task (changePassword_task ?env (new_jwt_util ''key'') (demo_chance 100) demo_reset) w =
      (Ok res, w\<lparr>w_dao := s'\<rparr>)"
    using run_handler_tasks(7) by metis
  from answer_found [OF find this] have answer: "run_task (answer_task ?env what ''key'' wrap (demo_chance 100) demo_reset) w =
      (Ok res, w\<lparr>w_dao := s'\<rparr>)" .
  have "\<exists>r \<in> set (users (ds_db s')). ur_id r = 1 \<and> ur_passwd_hash r = hashPassword demo_evp ''better''"
    using s'(2) assms(2) by (simp add: update_rows_def demo_codeless_def demo_account_def demo_ann_def)
  with answer show ?thesis by fastforce
qed

theorem resets_were_mailed_witness:
  "\<exists>ts' w' c. run_schedule (replicate 11 0 @ replicate 11 1)
       (program_tasks (demo_env demo_reset_docs) (\<lambda>e. ''error'') ''key'' JString
          [(demo_chance 100, demo_ask), (demo_chance 100, demo_reset)] [seconds 300], demo_codeless) = (ts', w') \<and>
     asks_reset (demo_env demo_reset_docs) (new_jwt_util ''key'') (demo_chance 100) demo_reset ''a@b.cc'' c 1
       (hashPassword demo_evp ''better'')"
proof -
  let ?answer = "answer_task (demo_env demo_reset_docs) (\<lambda>e. ''error'') ''key'' JString (demo_chance 100)"
  let ?ask = "request_thread (demo_env demo_reset_docs) (\<lambda>e. ''error'') ''key'' JString (demo_chance 100, demo_ask)"
  let ?reset = "request_thread (demo_env demo_reset_docs) (\<lambda>e. ''error'') ''key'' JString (demo_chance 100, demo_reset)"
  let ?main = "sweeper [seconds 300] :: (world, http_response option) task"
  let ?reqs = "[(demo_chance 100, demo_ask), (demo_chance 100, demo_reset)]"
  obtain res1 w1 where w1: "run_task (?answer demo_ask) demo_codeless = (Ok res1, w1)" "vs_codes (w_verify w1) = [(''a@b.cc'', demo_info)]"
    "w_dao w1 = w_dao demo_codeless"
    using demo_asked by blast
  obtain res2 w2 r where w2: "run_task (?answer demo_reset) w1 = (Ok res2, w2)" "r \<in> set (users (ds_db (w_dao w2)))" "ur_id r = 1"
    "ur_passwd_hash r = hashPassword demo_evp ''better''"
    using demo_changed [OF w1(2,3)] by blast
  have "run_schedule (replicate 11 0) ([?ask, ?reset, ?main], demo_codeless) = ([Done (Ok (Some res1)), ?reset, ?main], w1)"
    using request_alone [OF _ _ w1(1), of 0 "[?ask, ?reset, ?main]"] by (simp del: sweeper_Cons)
  moreover have "run_schedule (replicate 11 1) ([Done (Ok (Some res1)), ?reset, ?main], w1) =
      ([Done (Ok (Some res1)), Done (Ok (Some res2)), ?main], w2)"
    using request_alone [OF _ _ w2(1), of 1 "[Done (Ok (Some res1)), ?reset, ?main]"] by (simp del: sweeper_Cons)
  ultimately have run: "run_schedule (replicate 11 0 @ replicate 11 1)
      (program_tasks (demo_env demo_reset_docs) (\<lambda>e. ''error'') ''key'' JString ?reqs [seconds 300], demo_codeless) =
      ([Done (Ok (Some res1)), Done (Ok (Some res2)), ?main], w2)"
    by (simp add: run_schedule_append program_tasks_def del: sweeper_Cons)
  have users: "users (ds_db (w_dao demo_codeless)) = [demo_ann]"
    by (simp add: demo_codeless_def demo_account_def)
  have ok: "users_ok (ev_server (demo_env demo_reset_docs)) (ds_db (w_dao demo_codeless))"
    using demo_account_good by (simp add: dao_good_def schema_ok_def demo_codeless_def)
  have "hashPassword demo_evp ''secret'' \<noteq> hashPassword demo_evp ''better''" by code_simp
  then have differs: "ur_id demo_ann = ur_id r" "ur_passwd_hash demo_ann \<noteq> ur_passwd_hash r"
    using w2(3,4) by (simp_all add: demo_ann_def)
  have "vs_codes (w_verify demo_codeless) = []" "demo_ann \<in> set (users (ds_db (w_dao demo_codeless)))"
    using users by (simp_all add: demo_codeless_def demo_state_def)
  from resets_were_mailed [OF run ok this w2(2) differs] obtain k e c where k: "k < length ?reqs"
    "asks_reset (demo_env demo_reset_docs) (new_jwt_util ''key'') (fst (?reqs ! k)) (snd (?reqs ! k)) e c 1
       (hashPassword demo_evp ''better'')"
    using w2(3,4) by auto
  then have "asks_reset (demo_env demo_reset_docs) (new_jwt_util ''key'') (demo_chance 100) demo_reset e c 1
      (hashPassword demo_evp ''better'')"
    by (cases k) (auto simp: asks_reset_def demo_ask_def)
  moreover from this have "e = ''a@b.cc''"
    by (auto simp: asks_reset_def demo_reset_docs_def demo_docs_def demo_reset_def demo_request_def get_string_def)
  ultimately show ?thesis using run by blast
qed

end
