(* ===== verification/Spec2Isabelle.thy ===== *)
theory Spec2Isabelle
  imports CStrings Passwords Http EmailSyntax Config EmailUtil VerifyService VerifyRace ConnPool Tables
    Schema Dao UserDAO PlaylistDAO PlayHistoryDAO DaoSystem Jwt UserHandler UserFlows Router Session Server
    Tasks Threads Workers Races EventLoop Responses Lifetime Requests Ghosts Sweeps Answers Queues Signups Logins
    Shutdown Credentials Mailings
begin

text \<open>
  A verification library for the music player back end: a C++ server that speaks HTTP with JSON
  bodies, keeps its data in MySQL, mails verification codes and hands out signed tokens.

  The program. \<open>src/server/main.cpp\<close> loads \<open>config.json\<close> (\<open>utils/Config.cpp\<close>), fills a pool of database
  connections (\<open>database/DBManager.cpp\<close>), constructs the server (\<open>server/Server.cpp\<close>) and registers
  its routes (\<open>server/Router.cpp\<close>). Worker threads run one session per connection
  (\<open>server/Session.cpp\<close>), which reads a request, lets the router find the handler
  (\<open>handlers/UserHandler.cpp\<close>) and writes the answer. The handlers use three stores: the tables, through
  \<open>database/UserDAO.cpp\<close>, \<open>PlaylistDAO.cpp\<close> and \<open>PlayHistoryDAO.cpp\<close>; the verification codes
  (\<open>server/VerifyService.cpp\<close>), which are mailed with \<open>utils/EmailUtil.cpp\<close>; and a directory of avatars.
  \<open>utils/PasswordUtil.cpp\<close>, \<open>JWTUtil.cpp\<close> and \<open>JsonUtil.cpp\<close> serve them. The main thread sweeps expired
  codes every five seconds.

  The theories, in the order in which they build on each other:

  \<^item> \<open>Prelude\<close>: programs as functions from a state to an outcome (a value, an exception, or undefined
    behaviour) and a state; \<open>preserves\<close> and \<open>safe_on\<close>, the rules by which every component shows what
    it keeps and that it ends; lists.
  \<^item> \<open>CStrings\<close>: \<open>std::to_string\<close> and \<open>atoi\<close>. \<open>Passwords\<close>: \<open>PasswordUtil\<close>. \<open>Http\<close>: JSON values,
    requests, responses, \<open>JsonUtil\<close>. \<open>EmailSyntax\<close>: regular expressions and \<open>isValidEmail\<close>.
  \<^item> \<open>Config\<close>: the configuration object and its loader. \<open>EmailUtil\<close>: the codes, the upload callback
    on machine words, the mail. \<open>VerifyService\<close>: the store of codes, with the contract \<open>code_store\<close>;
    \<open>VerifyRace\<close>: what its locking allows several threads, refined to the operations one after the other.
  \<^item> \<open>ConnPool\<close>: the pool, with the contract \<open>resource_pool\<close>, and the threads that compete for it as a
    step relation with its reachable states and invariant.
  \<^item> \<open>Tables\<close>: the four tables of \<open>sql/MusicPlayer.sql\<close> and every SQL statement of the program as a
    function on them. \<open>Schema\<close>: the constraints, kept by every statement. \<open>Dao\<close>: a JDBC call and the
    connection guard, and what every operation built from them keeps and returns.
  \<^item> \<open>UserDAO\<close> (contract \<open>account_store\<close>), \<open>PlaylistDAO\<close> (contract \<open>song_sets\<close>), \<open>PlayHistoryDAO\<close>: their
    operations and what each does on a working and on a failing server. \<open>DaoSystem\<close>: any sequence
    of their calls.
  \<^item> \<open>Jwt\<close>: \<open>JWTUtil\<close> over a library of tokens. \<open>UserHandler\<close>: the eight handlers over the state
    \<open>world\<close>. \<open>UserFlows\<close>: what successful requests have checked and changed, and flows over several
    requests. \<open>Router\<close> (contract \<open>route_table\<close>): dispatch and the table of routes. \<open>Session\<close>: a
    connection from its first request to its end. \<open>Responses\<close>: the form of every response. \<open>Server\<close>:
    start, sweep and shutdown.
  \<^item> \<open>Tasks\<close>: an operation cut into the actions between which other threads act, and schedules.
    \<open>Threads\<close> (contract \<open>connection_threads\<close>, a rely-guarantee argument): the account of the connections
    that threads hold, on any state that has a pool. \<open>Workers\<close>: the operations of the three data access
    objects as tasks, under any schedule. \<open>Races\<close>: two operations whose threads meet on the same rows.
    \<open>Requests\<close>: whole requests as tasks, from the router to the response, under any schedule.
    \<open>Ghosts\<close>: what a thread knows, as a ghost beside its task. \<open>Sweeps\<close>: the main thread, which erases
    expired codes beside the requests, and the requests that store codes beside those that check them.
    \<open>Answers\<close>: the workers with all their requests and the main thread together; \<open>Queues\<close>: why it is
    enough to look at every request as a thread of its own, as the theories that follow do. \<open>Signups\<close> (contract \<open>unique_rows\<close>):
    registrations that meet, by the rows that threads own. \<open>Logins\<close>: a login that meets changes of the
    password, by the tables that its thread saw. \<open>Credentials\<close>: every hash in \<open>users\<close> by the request that
    accounts for it; \<open>Mailings\<close>: every code by the mail that carried it, and every change of a password
    by that code. \<open>EventLoop\<close>: the completion handlers of
    the server and its sessions, run statement by statement by any number of workers while another
    thread stops the server, as a step relation. \<open>Lifetime\<close> (contract \<open>singleton\<close>): the instances, and the pool up to its destructor.
    \<open>Shutdown\<close>: the main thread and the workers from the start of \<open>main\<close> to its end, as a step
    relation, with the signal handler wherever it interrupts the main thread.

  Correspondence. The definitions carry the names of the functions they translate; records follow the
  structs field by field, with a prefix for each (\<open>vs_changes\<close> alone has no counterpart: it
  counts how often the entry of an address was erased or assigned to, so that a pointer to it can be told
  from one that is still good; and the logs of a session in \<open>EventLoop\<close>). A \<open>return\<close> inside a \<open>try\<close>, a \<open>throw\<close> and a \<open>catch\<close> are
  \<open>ret\<close>, \<open>raise\<close> and \<open>catch_exn\<close>; every early return is a branch. Widths matter in the configuration
  (\<open>16 word\<close>, \<open>32 word\<close>, \<open>64 word\<close>, narrowed as the casts do), in the upload callback (\<open>size_t\<close> as
  \<open>64 word\<close>) and in the digests (\<open>8 word\<close>); a user's identifier and a song's count are \<open>int\<close> values with
  their range written out where an operation could leave it (\<open>atoi\<close>, \<open>song_count + 1\<close>,
  \<open>AUTO_INCREMENT\<close>). No definition needs fuel: all loops are structural or have a measure.

  Parameters. Code that is not in the repository is an argument: the JSON library (\<open>json_lib\<close>), OpenSSL
  (\<open>digest_fun\<close>), libcurl (\<open>curl_lib\<close>), jwt-cpp (\<open>jwt_lib\<close>), the driver (\<open>driver\<close>), the file system
  (\<open>fs_env\<close>), the clock and the random numbers (\<open>chance\<close>). The semantics of SQL is modelled; what SQL
  leaves to the server is a parameter (\<open>server\<close>: collation, widths, order of rows, clock, failing
  calls). \<open>digest_contract\<close>, \<open>dumps_ascii\<close> and \<open>jwt_contract\<close> state documented behaviour; \<open>healthy\<close> is a
  server none of whose calls fails. Concrete instances (\<open>demo_...\<close>) show that the hypotheses hold
  together.

  What the properties show. A code is needed to register and to change a password, tokens
  authenticate until they expire, requests without one change nothing; who registers can log in, and
  after a change of the password with the new one alone; avatars come back as they were stored, and
  bound platforms show in the profile. Whatever fails, the constraints of the schema hold and, with a
  connection for each worker and tokens that name numbers, every request is answered once with a
  well-formed response and the pool keeps its connections, also when any number of workers interleave
  statement by statement or whole requests and the main thread sweeps beside them; each of them ends.
  The exceptions are stated: a request that checks a code is undefined behaviour when the entry it has
  found is erased or replaced before it has read it (\<open>requests_answered\<close> for all requests together,
  \<open>sweep_breaks_check\<close> and \<open>check_races_store\<close> for the two ways), and \<open>addPlayHistory\<close> when a counter
  of plays is at the largest \<open>int\<close> (\<open>workers_safe\<close>).
  A registration reports the identifier of its own row whoever else registers, and of registrations
  at the same time no two that succeed share a name or an address; a login has matched a password
  that was stored at a moment when it ran; a hash changes only by a request with a token of that
  user and a code that was mailed before. No completion handler touches a session while an operation of
  it is outstanding or another handler is about to touch it, so the sessions need no lock. The program
  ends after a signal that the main thread handles, but for the moments that \<open>signal_hazards\<close> names.
  Lookups, counts, pages and rankings are exact. The properties also pin down defects of the
  code: a signal during the sweep is a deadlock, plays are never stored (\<open>addPlayHistory\<close>), an empty
  pool is undefined behaviour, the pointer of \<open>verifyCode\<close> can dangle and is read without the mutex, failed mails leak handles,
  \<open>createPlaylist\<close> reports failure after storing the row, a failed digest is a constant, of two
  requests that add one song at the same time one reports failure.

  Bounds. An operation of a data access object takes at most four actions of its thread (taking the
  connection, two statements, giving it back) and a whole request at most eleven, which \<open>ends_in\<close>
  states without fuel; the program from the call of \<open>stop\<close> with \<open>n\<close> workers to its end takes at most
  \<open>7 * n + 8\<close> steps.

  Not modelled: logging; sockets, TLS and the framing of HTTP; memory exhaustion; the tests under
  \<open>src/test\<close>, which are programs of their own; declarations without a body (\<open>PlaylistHandler.h\<close>,
  \<open>PlayHistoryHandler.h\<close>, \<open>UserDAO::verifyPassword\<close>, \<open>Config::loadFromJson\<close>); two threads that call
  \<open>stop\<close> at the same time. In \<open>EventLoop\<close> the outcome of \<open>handleRequest\<close> is any outcome, so that what is
  shown there does not depend on how requests meet in the database; \<open>Requests\<close> and \<open>Answers\<close> show the
  latter. There \<open>stop\<close> is called by a thread that is no worker and holds no lock; a signal that interrupts
  the main thread, which may hold the mutex of the codes, is the subject of \<open>Shutdown\<close>, and a signal that
  is delivered to a worker, also a second one while the first is handled, is only covered by \<open>stop\<close> of
  \<open>Server\<close>, which then joins itself and throws.

  \<open>verifyCode\<close> beside other threads: it reads the members of the entry that it has found one by one,
  without the mutex. A reading is undefined when the entry was erased or assigned to since the lookup,
  as nothing orders the two. An assignment or a sweep is one action, since lookups wait for its end and a
  reading during it is undefined as well. An assignment just after the last reading is not told from
  a later one, although nothing orders these either; the runs in which no entry is replaced
  or erased are free of this.

  Corner cases: a text that is the index of an \<open>ENUM\<close> member is refused, MySQL takes it for the member;
  MySQL cuts off spaces in excess at the end of a \<open>VARCHAR\<close>, here such a text is refused or stored whole;
  the handlers use one digest function for all their calls, so a digest fails for a password always
  or never (\<open>verifyPassword_exact\<close> does without). The next step: the operations of the playlists and the history
  at the routes once these have handlers.
\<close>

end
